(* ===== verification/Prelude.thy ===== *)
theory Prelude
  imports Main "HOL-Library.Word"
begin

text \<open>
  Shared by every theory of the development: the machine types of the i386 target, the result type
  of code that may abort or fault, byte-addressed memory with little-endian words, and the lemmas
  on words, alignment and address ranges that the component proofs use.
\<close>

unbundle bit_operations_syntax

section \<open>Machine types\<close>

type_synonym u8 = "8 word"
type_synonym u16 = "16 word"
type_synonym u32 = "32 word"
type_synonym u64 = "64 word"
type_synonym vaddr = u32
type_synonym paddr = u32
type_synonym size_t = u32
type_synonym memory = "u32 \<Rightarrow> u8"

abbreviation (input) NULL :: u32 where
  "NULL \<equiv> 0"

section \<open>Results of kernel code\<close>

text \<open>
  \<open>abort\<close> prints its message and halts the machine, and a bad access raises exception 14, which
  ends in \<open>abort\<close> too: both are \<open>Panic\<close>. \<open>Switched s\<close> is the result of code that gave the CPU to
  another task: \<open>s\<close> is the machine as that task finds it, and the rest of the calling code runs only
  when its own task is resumed. A loop that never ends is \<open>None\<close>.
\<close>

datatype panic = Abort string | PageFault u32

datatype ('a, 's) kres = Ret 'a 's | Panic panic | Switched 's

definition bindK ::
  "('a, 's) kres option \<Rightarrow> ('a \<Rightarrow> 's \<Rightarrow> ('b, 's) kres option) \<Rightarrow> ('b, 's) kres option" where
  "bindK r f = (case r of None \<Rightarrow> None
     | Some (Panic p) \<Rightarrow> Some (Panic p)
     | Some (Switched s) \<Rightarrow> Some (Switched s)
     | Some (Ret x s) \<Rightarrow> f x s)"

definition retK :: "'a \<Rightarrow> 's \<Rightarrow> ('a, 's) kres option" where
  "retK x s = Some (Ret x s)"

definition panicK :: "panic \<Rightarrow> ('a, 's) kres option" where
  "panicK p = Some (Panic p)"

definition switchK :: "'s \<Rightarrow> ('a, 's) kres option" where
  "switchK s = Some (Switched s)"

lemma bindK_simps [simp]:
  "bindK None f = None"
  "bindK (Some (Panic p)) f = Some (Panic p)"
  "bindK (Some (Ret x s)) f = f x s"
  "bindK (Some (Switched s)) f = Some (Switched s)"
  "bindK (retK x s) f = f x s"
  "bindK (panicK p) f = panicK p"
  "bindK (switchK s) f = switchK s"
  by (simp_all add: bindK_def retK_def panicK_def switchK_def)

lemma retK_eq_Some [simp]:
  "retK x s = Some (Ret y t) \<longleftrightarrow> x = y \<and> s = t"
  "panicK p \<noteq> Some (Ret y t)"
  "retK x s \<noteq> None" "panicK p \<noteq> None" "switchK s \<noteq> None"
  "retK x s = retK y t \<longleftrightarrow> x = y \<and> s = t"
  "retK x s \<noteq> panicK p" "panicK p \<noteq> retK x s" "retK x s \<noteq> switchK t" "switchK t \<noteq> retK x s"
  "panicK p \<noteq> switchK t" "switchK t \<noteq> panicK p"
  "switchK s = switchK t \<longleftrightarrow> s = t" "panicK p = panicK q \<longleftrightarrow> p = q"
  by (auto simp: retK_def panicK_def switchK_def)

lemma bindK_Ret_iff:
  "bindK r f = Some (Ret y t) \<longleftrightarrow> (\<exists>x s. r = Some (Ret x s) \<and> f x s = Some (Ret y t))"
  by (auto simp: bindK_def split: option.splits kres.splits)

lemma bindK_cong [fundef_cong]:
  assumes "r = r'" and "\<And>x s. r' = Some (Ret x s) \<Longrightarrow> f x s = f' x s"
  shows "bindK r f = bindK r' f'"
  using assms by (auto simp: bindK_def split: option.splits kres.splits)

lemma bindK_mono [partial_function_mono]:
  fixes B :: "('x \<Rightarrow> 'y option) \<Rightarrow> ('a, 's) kres option"
    and C :: "'a \<Rightarrow> 's \<Rightarrow> ('x \<Rightarrow> 'y option) \<Rightarrow> ('b, 's) kres option"
  assumes "mono_option B" and "\<And>x s. mono_option (\<lambda>f. C x s f)"
  shows "mono_option (\<lambda>f. bindK (B f) (\<lambda>x s. C x s f))"
proof (rule monotoneI)
  fix f g :: "'x \<Rightarrow> 'y option"
  assume fg: "fun_ord option_ord f g"
  have "option_ord (B f) (B g)" using assms(1) fg by (rule monotoneD [of _ _ _ f g])
  then have B: "B f = None \<or> B f = B g" by (auto simp: flat_ord_def)
  have "option_ord (C x s f) (C x s g)" for x s using assms(2) fg by (rule monotoneD [of _ _ _ f g])
  then have C: "C x s f = None \<or> C x s f = C x s g" for x s by (auto simp: flat_ord_def)
  show "option_ord (bindK (B f) (\<lambda>x s. C x s f)) (bindK (B g) (\<lambda>x s. C x s g))"
  proof (cases "\<exists>x s. B f = Some (Ret x s)")
    case True
    then obtain x s where f: "B f = Some (Ret x s)" by blast
    with B have "B g = Some (Ret x s)" by simp
    with f C [of x s] show ?thesis by (auto simp: flat_ord_def)
  next
    case False
    then have "bindK (B f) F = bindK (B f) G" for F G :: "'a \<Rightarrow> 's \<Rightarrow> ('b, 's) kres option"
      by (auto simp: bindK_def split: option.splits kres.splits)
    with B show ?thesis by (metis bindK_simps(1) flat_ord_def)
  qed
qed

section \<open>Words\<close>

named_theorems word_nat \<comment> \<open>word comparisons and arithmetic as statements on \<open>nat\<close>\<close>

lemmas [word_nat] = word_less_nat_alt word_le_nat_alt

lemma unat_lt32 [simp]: "unat (x :: u32) < 4294967296"
  using unsigned_less [of x, where ?'a = nat] by simp

lemma unat_inc: "(i :: 'a::len word) < n \<Longrightarrow> unat (i + 1) = Suc (unat i)"
proof -
  assume "i < n"
  then have "unat i + 1 < 2 ^ LENGTH('a)"
    using unsigned_less [of n, where ?'a = nat] unfolding word_less_nat_alt by linarith
  then show ?thesis by (simp add: unat_word_ariths)
qed

lemma unat_inc32: "unat (i :: u32) < 4294967295 \<Longrightarrow> unat (i + 1) = Suc (unat i)"
  by (simp add: unat_word_ariths)

lemma word_le_inc: "(i :: 'a::len word) < n \<Longrightarrow> i \<le> f \<longleftrightarrow> f = i \<or> i + 1 \<le> f"
  using unat_inc [of i n] by (auto simp: word_le_nat_alt word_unat_eq_iff)

lemma unat_add_nowrap:
  "unat (a :: 'a::len word) + unat b < 2 ^ LENGTH('a) \<Longrightarrow> unat (a + b) = unat a + unat b"
  by (simp add: unat_word_ariths)

lemma unat_add32: "unat (a :: u32) + unat b < 4294967296 \<Longrightarrow> unat (a + b) = unat a + unat b"
  by (simp add: unat_word_ariths)

lemma unat_sub32: "b \<le> (a :: u32) \<Longrightarrow> unat (a - b) = unat a - unat b"
  by (simp add: unat_sub)

lemma unat_minus_1: "unat (- 1 :: u32) = 4294967295"
  by (simp add: unsigned_minus_1_eq_mask mask_eq_exp_minus_1)

lemma diff_less_iff:
  fixes a p n :: u32
  assumes "unat p + unat n \<le> 4294967296"
  shows "a - p < n \<longleftrightarrow> unat p \<le> unat a \<and> unat a < unat p + unat n"
proof (cases "p \<le> a")
  case True
  then show ?thesis by (auto simp: word_nat unat_sub32)
next
  case False
  then have "unat (a - p) = 4294967296 + unat a - unat p"
    by (simp add: unat_sub_if' word_nat)
  with False assms show ?thesis by (auto simp: word_nat)
qed

lemma word_less_2: "(j :: u32) < 2 \<Longrightarrow> j = 0 \<or> j = 1"
  unfolding word_nat word_unat_eq_iff by simp linarith

subsection \<open>Alignment by masking\<close>

lemma and_not_mask_eq: "x AND NOT (mask n) = push_bit n (drop_bit n (x :: 'a::len word))"
  by (rule bit_word_eqI) (auto simp: bit_simps)

lemma unat_push_drop: "unat (push_bit n (drop_bit n x) :: 'a::len word) = unat x div 2 ^ n * 2 ^ n"
proof -
  have "unat x div 2 ^ n * 2 ^ n < 2 ^ LENGTH('a)"
    by (rule le_less_trans [OF _ unsigned_less [of x, where ?'a = nat]]) simp
  then show ?thesis
    by (simp add: unsigned_push_bit_eq unat_drop_bit_eq push_bit_eq_mult [where ?'a = nat]
        drop_bit_eq_div [where ?'a = nat] take_bit_eq_mod [where ?'a = nat])
qed

lemma unat_and_not_mask: "unat (x AND NOT (mask n) :: 'a::len word) = unat x div 2 ^ n * 2 ^ n"
  by (simp add: and_not_mask_eq unat_push_drop)

text \<open>The simplifier turns \<open>NOT 4095\<close> into \<open>- 4096\<close>, so the page and block masks read so.\<close>

lemma unat_align_page: "unat (x AND - 4096 :: u32) = unat x div 4096 * 4096"
proof -
  have "(- 4096 :: u32) = NOT (mask 12)" by (simp add: mask_eq_exp_minus_1)
  then show ?thesis using unat_and_not_mask [of x 12] by simp
qed

lemma unat_align_8: "unat (x AND - 8 :: u32) = unat x div 8 * 8"
proof -
  have "(- 8 :: u32) = NOT (mask 3)" by (simp add: mask_eq_exp_minus_1)
  then show ?thesis using unat_and_not_mask [of x 3] by simp
qed

section \<open>Byte-addressed memory\<close>

text \<open>The i386 is little-endian: the low byte of a word is at the lowest address.\<close>

definition load32 :: "memory \<Rightarrow> u32 \<Rightarrow> u32" where
  "load32 m a = ucast (m a) OR push_bit 8 (ucast (m (a + 1)))
     OR push_bit 16 (ucast (m (a + 2))) OR push_bit 24 (ucast (m (a + 3)))"

definition store32 :: "memory \<Rightarrow> u32 \<Rightarrow> u32 \<Rightarrow> memory" where
  "store32 m a v = m(a := ucast v, a + 1 := ucast (drop_bit 8 v),
     a + 2 := ucast (drop_bit 16 v), a + 3 := ucast (drop_bit 24 v))"

lemma load32_store32_same [simp]: "load32 (store32 m a v) a = v"
proof -
  have "a + 1 \<noteq> a" "a + 2 \<noteq> a" "a + 3 \<noteq> a" "a + 2 \<noteq> a + 1" "a + 3 \<noteq> a + 1" "a + 3 \<noteq> a + 2"
    by simp_all
  moreover have "bit v n \<Longrightarrow> \<not> bit v (24 + (n - 24)) \<Longrightarrow> 16 \<le> n \<Longrightarrow> n - 16 < 8" for n
    by (cases "24 \<le> n") auto
  ultimately show ?thesis
    by (intro bit_word_eqI) (auto simp: load32_def store32_def bit_simps not_less le_diff_conv2)
qed

lemma store32_other: "\<not> x - a < 4 \<Longrightarrow> store32 m a v x = m x"
  by (auto simp: store32_def)

lemma load32_cong:
  "m a = m' a \<Longrightarrow> m (a + 1) = m' (a + 1) \<Longrightarrow> m (a + 2) = m' (a + 2) \<Longrightarrow> m (a + 3) = m' (a + 3) \<Longrightarrow>
   load32 m a = load32 m' a"
  by (simp add: load32_def)


section \<open>Linked lists\<close>

text \<open>\<open>chain nx a xs\<close>: following the links \<open>nx\<close> from \<open>a\<close> one meets the nodes \<open>xs\<close> and then NULL.\<close>

fun chain :: "(u32 \<Rightarrow> u32) \<Rightarrow> u32 \<Rightarrow> u32 list \<Rightarrow> bool" where
  "chain nx a [] \<longleftrightarrow> a = NULL"
| "chain nx a (x # xs) \<longleftrightarrow> a = x \<and> x \<noteq> NULL \<and> chain nx (nx x) xs"

lemma chain_cong: "(\<And>x. x \<in> set xs \<Longrightarrow> nx x = nx' x) \<Longrightarrow> chain nx a xs \<longleftrightarrow> chain nx' a xs"
  by (induction xs arbitrary: a) auto

lemma chain_NULL: "chain nx a xs \<Longrightarrow> a = NULL \<longleftrightarrow> xs = []"
  by (cases xs) auto

lemma chain_not_NULL: "chain nx a xs \<Longrightarrow> NULL \<notin> set xs"
  by (induction xs arbitrary: a) auto

lemma chain_unique: "chain nx a xs \<Longrightarrow> chain nx a ys \<Longrightarrow> xs = ys"
proof (induction xs arbitrary: a ys)
  case Nil
  then show ?case by (cases ys) auto
next
  case (Cons x xs)
  then show ?case by (cases ys) auto
qed

lemma chain_distinct: "chain nx a xs \<Longrightarrow> distinct xs"
proof (induction xs arbitrary: a)
  case (Cons x xs)
  have sub: "chain nx y (y # ys')" if "chain nx b (us @ y # ys')" for b us y ys'
    using that by (induction us arbitrary: b) auto
  have "x \<notin> set xs"
  proof
    assume "x \<in> set xs"
    then obtain us vs where "xs = us @ x # vs" by (auto simp: in_set_conv_decomp)
    with Cons.prems sub [of "nx x" us x vs] have "chain nx x (x # us @ x # vs)" "chain nx x (x # vs)" by auto
    then have "x # us @ x # vs = x # vs" by (rule chain_unique)
    then show False by (metis append_eq_conv_conj append_Nil2 append_self_conv2 length_append length_Cons
          list.inject not_add_less2 add.commute lessI less_add_Suc2)
  qed
  with Cons show ?case by auto
qed simp

lemma chain_snoc:
  assumes "chain nx a xs" and "xs \<noteq> []" and "y \<notin> set xs" and "y \<noteq> NULL"
  shows "chain (nx(last xs := y, y := NULL)) a (xs @ [y])"
  using assms chain_distinct [OF assms(1)]
proof (induction xs arbitrary: a)
  case (Cons x xs)
  show ?case
  proof (cases "xs = []")
    case False
    with Cons have "chain (nx(last xs := y, y := NULL)) (nx x) (xs @ [y])"
      by (auto simp del: fun_upd_apply)
    moreover from False have "last xs \<in> set xs" by simp
    ultimately show ?thesis using Cons.prems False by (auto simp: fun_upd_def)
  qed (use Cons in auto)
qed simp

lemma chain_append: "chain nx a (xs @ y # ys) \<Longrightarrow> chain nx y (y # ys)"
  by (induction xs arbitrary: a) auto

text \<open>Taking a node out of a list.\<close>

lemma chain_remove:
  assumes "chain nx a (xs @ y # ys)" and "xs \<noteq> []"
  shows "chain (nx(last xs := nx y)) a (xs @ ys)"
  using assms chain_distinct [OF assms(1)]
proof (induction xs arbitrary: a)
  case (Cons x xs)
  show ?case
  proof (cases "xs = []")
    case True
    have "chain (nx(x := nx y)) (nx y) ys" using Cons.prems True by (subst chain_cong [of ys _ nx]) auto
    with True Cons.prems show ?thesis by (simp add: fun_upd_def)
  next
    case False
    then have "last xs \<in> set xs" by simp
    then have "last xs \<noteq> x" using Cons.prems(3) by auto
    with Cons False show ?thesis by (auto simp: fun_upd_def)
  qed
qed simp

end
