(* ===== verification/Pmm.thy ===== *)
theory Pmm
  imports Prelude
begin

text \<open>
  The physical memory manager (\<open>kernel/arch/i386/paging/\<close>): the bitmap of page frames
  (\<open>internal.c\<close>), the frame allocator and its batch cache (\<open>allocators.c\<close>) and the set-up of the
  bitmap from the boot loader's memory map (\<open>paging.c\<close>). The state is a record that later theories
  extend, so every operation is polymorphic in the rest of the kernel's state.
\<close>

section \<open>State and constants\<close>

abbreviation (input) PAGE_SIZE :: u32 where "PAGE_SIZE \<equiv> 4096"
abbreviation (input) MAX_PAGE_FRAME_COUNT :: u32 where "MAX_PAGE_FRAME_COUNT \<equiv> 1048576"
abbreviation (input) BITMAP_SIZE :: u32 where "BITMAP_SIZE \<equiv> 32768"
abbreviation (input) BATCH_PAGES_ALLOCED_MAX :: nat where "BATCH_PAGES_ALLOCED_MAX \<equiv> 20"
abbreviation (input) KERNEL_VIRT_OFFSET :: u32 where "KERNEL_VIRT_OFFSET \<equiv> 0xC0000000"

text \<open>The globals of \<open>paging.c\<close> and \<open>allocators.c\<close>; \<open>allocate\<close> and \<open>pframe\<close> are the static locals
  of \<open>pmm_alloc_page\<close>. A frame is named by its physical address, as the code does.\<close>

record pmm =
  page_frames_state_bitmap :: "u32 \<Rightarrow> u32"
  page_frames_len :: size_t
  total_free_memory :: u64
  pre_frames :: "nat \<Rightarrow> paddr"
  allocate :: u8
  pframe :: u8

section \<open>The bitmap\<close>

definition INDEX_FROM_BIT :: "u32 \<Rightarrow> u32" where "INDEX_FROM_BIT a = a div 32"
definition OFFSET_FROM_BIT :: "u32 \<Rightarrow> nat" where "OFFSET_FROM_BIT a = unat (a mod 32)"

definition internal_page_frames_state_bitmap_set :: "u32 \<Rightarrow> 'z pmm_scheme \<Rightarrow> 'z pmm_scheme" where
  "internal_page_frames_state_bitmap_set b s =
     s\<lparr>page_frames_state_bitmap := (page_frames_state_bitmap s)(INDEX_FROM_BIT b :=
        page_frames_state_bitmap s (INDEX_FROM_BIT b) OR push_bit (OFFSET_FROM_BIT b) 1)\<rparr>"

definition internal_pafe_frames_state_bitmap_unset :: "u32 \<Rightarrow> 'z pmm_scheme \<Rightarrow> 'z pmm_scheme" where
  "internal_pafe_frames_state_bitmap_unset b s =
     s\<lparr>page_frames_state_bitmap := (page_frames_state_bitmap s)(INDEX_FROM_BIT b :=
        page_frames_state_bitmap s (INDEX_FROM_BIT b) AND NOT (push_bit (OFFSET_FROM_BIT b) 1))\<rparr>"

definition internal_page_frames_state_bitmap_test :: "u32 \<Rightarrow> 'z pmm_scheme \<Rightarrow> bool" where
  "internal_page_frames_state_bitmap_test b s \<longleftrightarrow>
     page_frames_state_bitmap s (INDEX_FROM_BIT b) AND push_bit (OFFSET_FROM_BIT b) 1 \<noteq> 0"

section \<open>Frame allocation\<close>

text \<open>The inner loop of \<open>pmm_alloc_frame_int\<close>: the first clear bit of word \<open>i\<close> from \<open>j\<close> on.\<close>

function scan_word :: "u32 \<Rightarrow> u32 \<Rightarrow> 'z pmm_scheme \<Rightarrow> u32 option" where
  "scan_word i j s =
     (if j < 32 then
        let bit_idx = i * 32 + j
        in if \<not> internal_page_frames_state_bitmap_test bit_idx s then Some bit_idx
           else scan_word i (j + 1) s
      else None)"
  by pat_completeness auto
termination
  by (relation "measure (\<lambda>(i, j, s). 32 - unat j)") (auto simp: unat_inc32 word_nat)

function pmm_alloc_frame_loop :: "u32 \<Rightarrow> 'z pmm_scheme \<Rightarrow> paddr \<times> 'z pmm_scheme" where
  "pmm_alloc_frame_loop i s =
     (if i < BITMAP_SIZE then
        if page_frames_state_bitmap s i \<noteq> 0xFFFFFFFF then
          case scan_word i 0 s of
            Some bit_idx \<Rightarrow>
              (bit_idx * PAGE_SIZE, internal_page_frames_state_bitmap_set bit_idx s)
          | None \<Rightarrow> pmm_alloc_frame_loop (i + 1) s
        else pmm_alloc_frame_loop (i + 1) s
      else (NULL, s))"
  by pat_completeness auto
termination
  by (relation "measure (\<lambda>(i, s). 32768 - unat i)") (auto simp: unat_inc32 word_nat)

definition pmm_alloc_frame_int :: "'z pmm_scheme \<Rightarrow> paddr \<times> 'z pmm_scheme" where
  "pmm_alloc_frame_int s = pmm_alloc_frame_loop 0 s"

definition pmm_free_page :: "paddr \<Rightarrow> 'z pmm_scheme \<Rightarrow> 'z pmm_scheme" where
  "pmm_free_page a s =
     (let phys_addr = a; index = phys_addr div PAGE_SIZE
      in internal_pafe_frames_state_bitmap_unset index s)"

text \<open>The refill loop of \<open>pmm_alloc_page\<close>; \<open>False\<close> is its early \<open>return NULL\<close>.\<close>

function pmm_alloc_batch :: "nat \<Rightarrow> 'z pmm_scheme \<Rightarrow> bool \<times> 'z pmm_scheme" where
  "pmm_alloc_batch i s =
     (if i < BATCH_PAGES_ALLOCED_MAX then
        case pmm_alloc_frame_int s of (frame, s) \<Rightarrow>
          if frame = NULL then (False, s)
          else pmm_alloc_batch (i + 1) (s\<lparr>pre_frames := (pre_frames s)(i := frame)\<rparr>)
      else (True, s))"
  by pat_completeness auto
termination
  by (relation "measure (\<lambda>(i, s). 20 - i)") auto

definition pmm_alloc_page :: "'z pmm_scheme \<Rightarrow> paddr \<times> 'z pmm_scheme" where
  "pmm_alloc_page s =
     (let s = (if pframe s = of_nat BATCH_PAGES_ALLOCED_MAX then s\<lparr>allocate := 1\<rparr> else s);
          (ok, s) = (if allocate s = 1 then
             case pmm_alloc_batch 0 s of
               (False, s) \<Rightarrow> (False, s)
             | (True, s) \<Rightarrow> (True, s\<lparr>allocate := 0, pframe := 0\<rparr>)
           else (True, s))
      in if \<not> ok then (NULL, s)
         else (pre_frames s (unat (pframe s)), s\<lparr>pframe := pframe s + 1\<rparr>))"

declare scan_word.simps [simp del] pmm_alloc_frame_loop.simps [simp del] pmm_alloc_batch.simps [simp del]

section \<open>Lemmas on the bitmap\<close>

abbreviation used :: "u32 \<Rightarrow> 'z pmm_scheme \<Rightarrow> bool" where
  "used b s \<equiv> internal_page_frames_state_bitmap_test b s"

lemma used_iff: "used b s \<longleftrightarrow> bit (page_frames_state_bitmap s (b div 32)) (unat (b mod 32))"
  by (simp add: internal_page_frames_state_bitmap_test_def INDEX_FROM_BIT_def OFFSET_FROM_BIT_def
      bit_iff_and_push_bit_not_eq_0)

lemma div_mod_32_eq: "a div 32 = b div 32 \<Longrightarrow> unat (a mod 32) = unat (b mod 32) \<Longrightarrow> a = (b :: u32)"
  by (metis div_mult_mod_eq word_unat_eq_iff)

lemma unat_mod_32: "unat ((b :: u32) mod 32) < 32"
  by (simp add: unat_mod)

lemma used_set [simp]:
  "used b' (internal_page_frames_state_bitmap_set b s) \<longleftrightarrow> b' = b \<or> used b' s"
  using div_mod_32_eq [of b' b] unat_mod_32 [of b] unat_mod_32 [of b']
  by (auto simp: used_iff internal_page_frames_state_bitmap_set_def INDEX_FROM_BIT_def
      OFFSET_FROM_BIT_def bit_simps)

lemma used_unset [simp]:
  "used b' (internal_pafe_frames_state_bitmap_unset b s) \<longleftrightarrow> b' \<noteq> b \<and> used b' s"
  using div_mod_32_eq [of b' b] unat_mod_32 [of b] unat_mod_32 [of b']
  by (auto simp: used_iff internal_pafe_frames_state_bitmap_unset_def INDEX_FROM_BIT_def
      OFFSET_FROM_BIT_def bit_simps)

lemma used_fields [simp]:
  "used b (s\<lparr>pre_frames := v\<rparr>) = used b s"
  "used b (s\<lparr>allocate := a\<rparr>) = used b s"
  "used b (s\<lparr>pframe := q\<rparr>) = used b s"
  "used b (s\<lparr>total_free_memory := n\<rparr>) = used b s"
  "used b (s\<lparr>page_frames_len := l\<rparr>) = used b s"
  by (simp_all add: used_iff)

lemma scan_word_spec:
  "(case scan_word i j s of
      Some b \<Rightarrow> \<exists>k. j \<le> k \<and> k < 32 \<and> b = i * 32 + k \<and> \<not> used b s \<and> (\<forall>l. j \<le> l \<and> l < k \<longrightarrow> used (i * 32 + l) s)
    | None \<Rightarrow> \<forall>l. j \<le> l \<and> l < 32 \<longrightarrow> used (i * 32 + l) s)"
proof (induction i j s rule: scan_word.induct)
  case (1 i j s)
  have split: "j \<le> l \<longleftrightarrow> l = j \<or> j + 1 \<le> l" if "j < 32" for l
    using word_le_inc [OF that] .
  consider "\<not> j < 32" | "j < 32" "\<not> used (i * 32 + j) s" | "j < 32" "used (i * 32 + j) s" by blast
  then show ?case
  proof cases
    case 1
    then show ?thesis by (subst scan_word.simps) auto
  next
    case 2
    then show ?thesis by (auto simp: scan_word.simps [of i j] intro!: exI [of _ j])
  next
    case 3
    then have eq: "scan_word i j s = scan_word i (j + 1) s" by (simp add: scan_word.simps [of i j])
    have IH: "case scan_word i (j + 1) s of
      Some b \<Rightarrow> \<exists>k. j + 1 \<le> k \<and> k < 32 \<and> b = i * 32 + k \<and> \<not> used b s \<and> (\<forall>l. j + 1 \<le> l \<and> l < k \<longrightarrow> used (i * 32 + l) s)
    | None \<Rightarrow> \<forall>l. j + 1 \<le> l \<and> l < 32 \<longrightarrow> used (i * 32 + l) s"
      using 3 by (intro 1) auto
    show ?thesis
    proof (cases "scan_word i (j + 1) s")
      case None
      with IH eq split [OF 3(1)] 3(2) show ?thesis by auto
    next
      case (Some b)
      with IH obtain k where "j + 1 \<le> k" "k < 32" "b = i * 32 + k" "\<not> used b s"
        "\<And>l. j + 1 \<le> l \<Longrightarrow> l < k \<Longrightarrow> used (i * 32 + l) s" by auto
      with Some eq split [OF 3(1)] 3(2) show ?thesis by (auto intro!: exI [of _ k])
    qed
  qed
qed

lemma unat_bit_idx: "i < BITMAP_SIZE \<Longrightarrow> l < 32 \<Longrightarrow> unat (i * 32 + l) = unat i * 32 + unat l"
  by (simp add: word_nat unat_word_ariths)

lemma word_full_used:
  assumes "page_frames_state_bitmap s i = 0xFFFFFFFF" and "i < BITMAP_SIZE" and "l < 32"
  shows "used (i * 32 + l) s"
proof -
  have "(i * 32 + l) div 32 = i" "unat ((i * 32 + l) mod 32) = unat l"
    using assms(2,3) unat_bit_idx [OF assms(2,3)]
    by (simp_all add: word_unat_eq_iff [where 'a = 32] unat_div unat_mod word_nat)
  moreover have "bit (0xFFFFFFFF :: u32) n" if "n < 32" for n
  proof -
    have "(0xFFFFFFFF :: u32) = - 1" by simp
    then show ?thesis using that by (simp only: bit_minus_1_iff) simp
  qed
  ultimately show ?thesis using assms by (simp add: used_iff word_nat)
qed

lemma frame_index_cases:
  assumes "unat i * 32 \<le> unat c" and "i < BITMAP_SIZE"
  shows "(\<exists>l < 32. c = i * 32 + l) \<or> unat (i + 1) * 32 \<le> unat (c :: u32)"
proof (cases "unat c < unat i * 32 + 32")
  case True
  let ?l = "of_nat (unat c - unat i * 32) :: u32"
  have "unat ?l = unat c - unat i * 32" using True by (simp add: unat_of_nat)
  then have "?l < 32" "unat c = unat (i * 32 + ?l)"
    using True assms by (simp_all add: word_nat unat_bit_idx)
  then show ?thesis by (auto simp: word_unat_eq_iff)
next
  case False
  then show ?thesis using assms(2) by (simp add: unat_inc32 word_nat)
qed

definition first_free :: "nat \<Rightarrow> 'z pmm_scheme \<Rightarrow> u32 \<Rightarrow> bool" where
  "first_free n s b \<longleftrightarrow> n \<le> unat b \<and> unat b < 2 ^ 20 \<and> \<not> used b s
     \<and> (\<forall>c. n \<le> unat c \<and> c < b \<longrightarrow> used c s)"

lemma first_free_skip:
  assumes "i < BITMAP_SIZE" and "\<And>l. l < 32 \<Longrightarrow> used (i * 32 + l) s"
  shows "first_free (unat (i + 1) * 32) s b \<Longrightarrow> first_free (unat i * 32) s b"
    and "(\<forall>c. unat (i + 1) * 32 \<le> unat c \<and> unat c < 2 ^ 20 \<longrightarrow> used c s) \<Longrightarrow>
         (\<forall>c. unat i * 32 \<le> unat c \<and> unat c < 2 ^ 20 \<longrightarrow> used c s)"
  using assms frame_index_cases [OF _ assms(1)]
  by (force simp: first_free_def unat_inc32 word_nat)+

lemma pmm_alloc_frame_loop_spec:
  "i \<le> BITMAP_SIZE \<Longrightarrow>
   (\<exists>b. first_free (unat i * 32) s b \<and>
      pmm_alloc_frame_loop i s = (b * PAGE_SIZE, internal_page_frames_state_bitmap_set b s))
   \<or> (\<forall>c. unat i * 32 \<le> unat c \<and> unat c < 2 ^ 20 \<longrightarrow> used c s) \<and> pmm_alloc_frame_loop i s = (NULL, s)"
proof (induction i s rule: pmm_alloc_frame_loop.induct)
  case (1 i s)
  show ?case
  proof (cases "i < BITMAP_SIZE")
    case False
    with "1.prems" have "i = BITMAP_SIZE" by simp
    then show ?thesis by (auto simp: pmm_alloc_frame_loop.simps)
  next
    case True
    then have le: "i + 1 \<le> BITMAP_SIZE" by (simp add: word_nat unat_inc32)
    show ?thesis
    proof (cases "page_frames_state_bitmap s i \<noteq> 0xFFFFFFFF \<and> scan_word i 0 s \<noteq> None")
      case found: True
      then obtain b where b: "scan_word i 0 s = Some b" by blast
      then obtain k where k: "k < 32" "b = i * 32 + k" "\<not> used b s"
        "\<And>l. l < k \<Longrightarrow> used (i * 32 + l) s"
        using scan_word_spec [where i = i and j = 0 and s = s] by auto
      have "first_free (unat i * 32) s b"
        unfolding first_free_def
      proof (intro conjI allI impI)
        fix c assume c: "unat i * 32 \<le> unat c \<and> c < b"
        with frame_index_cases [of i c] True k obtain l where "l < 32" "c = i * 32 + l"
          by (auto simp: word_nat unat_inc32 unat_bit_idx)
        with c k True show "used c s" by (auto simp: word_nat unat_bit_idx)
      qed (use k True in \<open>auto simp: unat_bit_idx word_nat\<close>)
      with True found b show ?thesis by (auto simp: pmm_alloc_frame_loop.simps [of i])
    next
      case full: False
      then have eq: "pmm_alloc_frame_loop i s = pmm_alloc_frame_loop (i + 1) s"
        using True by (auto simp: pmm_alloc_frame_loop.simps [of i] split: option.splits)
      have "used (i * 32 + l) s" if "l < 32" for l
        using full scan_word_spec [where i = i and j = 0 and s = s] that word_full_used [OF _ True that, of s] by auto
      note skip = first_free_skip [OF True this]
      have "(\<exists>b. first_free (unat (i + 1) * 32) s b \<and>
          pmm_alloc_frame_loop (i + 1) s = (b * PAGE_SIZE, internal_page_frames_state_bitmap_set b s))
        \<or> (\<forall>c. unat (i + 1) * 32 \<le> unat c \<and> unat c < 2 ^ 20 \<longrightarrow> used c s) \<and>
          pmm_alloc_frame_loop (i + 1) s = (NULL, s)"
        using "1.IH" True le full by blast
      with skip show ?thesis unfolding eq by blast
    qed
  qed
qed

text \<open>The frame allocator takes the lowest free frame and marks exactly that one.\<close>

lemma pmm_alloc_frame_int_cases:
  obtains (found) b where "unat b < 2 ^ 20" "\<not> used b s" "\<forall>c < b. used c s"
      "pmm_alloc_frame_int s = (b * PAGE_SIZE, internal_page_frames_state_bitmap_set b s)"
  | (full) "\<forall>c. unat c < 2 ^ 20 \<longrightarrow> used c s" "pmm_alloc_frame_int s = (NULL, s)"
  using pmm_alloc_frame_loop_spec [of 0 s] by (auto simp: pmm_alloc_frame_int_def first_free_def)

section \<open>The batch cache\<close>

definition page_aligned :: "u32 \<Rightarrow> bool" where
  "page_aligned p \<longleftrightarrow> unat p mod 4096 = 0"

lemma frame_addr [simp]:
  fixes b :: u32
  assumes "unat b < 2 ^ 20"
  shows "b * PAGE_SIZE div PAGE_SIZE = b" and "page_aligned (b * PAGE_SIZE)"
    and "b * PAGE_SIZE = 0 \<longleftrightarrow> b = 0"
proof -
  have "unat (b * PAGE_SIZE) = unat b * 4096" using assms by (simp add: unat_word_ariths)
  then show "b * PAGE_SIZE div PAGE_SIZE = b" "page_aligned (b * PAGE_SIZE)"
    "b * PAGE_SIZE = 0 \<longleftrightarrow> b = 0"
    by (simp_all add: word_unat_eq_iff [where 'a = 32] unat_div page_aligned_def)
qed

lemma frame_addr_div: "page_aligned p \<Longrightarrow> p div PAGE_SIZE * PAGE_SIZE = p"
  using unat_lt32 [of p]
  by (auto simp: page_aligned_def word_unat_eq_iff [where 'a = 32] unat_word_ariths(2) unat_div)

lemma unat_frame_index [simp]: "unat ((p :: u32) div PAGE_SIZE) < 1048576"
  using unat_lt32 [of p] by (simp add: unat_div less_mult_imp_div_less)

lemma frame_addr_eq_iff:
  "unat b < 2 ^ 20 \<Longrightarrow> page_aligned p \<Longrightarrow> p = b * PAGE_SIZE \<longleftrightarrow> p div PAGE_SIZE = b"
  using frame_addr_div frame_addr(1) by metis

text \<open>The physical addresses of the frames marked used, and the cached ones not yet handed out.\<close>

definition used_frames :: "'z pmm_scheme \<Rightarrow> paddr set" where
  "used_frames s = {p. page_aligned p \<and> used (p div PAGE_SIZE) s}"

definition cached :: "'z pmm_scheme \<Rightarrow> paddr list" where
  "cached s = (if allocate s = 0 then map (pre_frames s) [unat (pframe s)..<BATCH_PAGES_ALLOCED_MAX] else [])"

definition outstanding :: "'z pmm_scheme \<Rightarrow> paddr set" where
  "outstanding s = used_frames s - set (cached s)"

definition pmm_inv :: "'z pmm_scheme \<Rightarrow> bool" where
  "pmm_inv s \<longleftrightarrow> unat (pframe s) \<le> BATCH_PAGES_ALLOCED_MAX \<and> (allocate s = 0 \<or> allocate s = 1)
     \<and> distinct (cached s) \<and> set (cached s) \<subseteq> used_frames s - {0} \<and> used 0 s"

lemma used_frames_simps [simp]:
  "used_frames (s\<lparr>pre_frames := v\<rparr>) = used_frames s"
  "used_frames (s\<lparr>allocate := a\<rparr>) = used_frames s"
  "used_frames (s\<lparr>pframe := q\<rparr>) = used_frames s"
  by (simp_all add: used_frames_def)

lemma used_frames_set [simp]:
  "unat b < 2 ^ 20 \<Longrightarrow>
   used_frames (internal_page_frames_state_bitmap_set b s) = insert (b * PAGE_SIZE) (used_frames s)"
  by (auto simp: used_frames_def frame_addr_eq_iff)

lemma used_frames_iff: "unat b < 2 ^ 20 \<Longrightarrow> b * PAGE_SIZE \<in> used_frames s \<longleftrightarrow> used b s"
  by (simp add: used_frames_def)

lemma used_frames_full: "\<forall>c. unat c < 2 ^ 20 \<longrightarrow> used c s \<Longrightarrow> used_frames s = {p. page_aligned p}"
  by (auto simp: used_frames_def)

lemma bitmap_set_fields [simp]:
  "pre_frames (internal_page_frames_state_bitmap_set b s) = pre_frames s"
  "allocate (internal_page_frames_state_bitmap_set b s) = allocate s"
  "pframe (internal_page_frames_state_bitmap_set b s) = pframe s"
  "pmm.more (internal_page_frames_state_bitmap_set b s) = pmm.more s"
  by (simp_all add: internal_page_frames_state_bitmap_set_def)

lemma pmm_alloc_batch_spec:
  assumes "pmm_alloc_batch i s = (ok, s')" and "i \<le> 20" and "used 0 s"
  shows "allocate s' = allocate s \<and> pframe s' = pframe s \<and> pmm.more s' = pmm.more s \<and> used 0 s'
    \<and> (\<forall>k < i. pre_frames s' k = pre_frames s k)
    \<and> (if ok then
         (let fs = map (pre_frames s') [i..<20]
          in distinct fs \<and> set fs \<inter> used_frames s = {} \<and> 0 \<notin> set fs
             \<and> used_frames s' = used_frames s \<union> set fs)
       else used_frames s' = {p. page_aligned p})"
  using assms
proof (induction i s rule: pmm_alloc_batch.induct)
  case (1 i s)
  show ?case
  proof (cases "i < 20")
    case False
    with "1.prems" show ?thesis by (auto simp: pmm_alloc_batch.simps [of i])
  next
    case True
    show ?thesis
    proof (cases s rule: pmm_alloc_frame_int_cases)
      case full
      with True "1.prems" used_frames_full [OF full(1)] show ?thesis
        by (auto simp: pmm_alloc_batch.simps [of i])
    next
      case (found b)
      define t0 where "t0 = internal_page_frames_state_bitmap_set b s"
      define t where "t = t0\<lparr>pre_frames := (pre_frames t0)(i := b * PAGE_SIZE)\<rparr>"
      from found "1.prems"(3) have b0: "b \<noteq> 0" by auto
      have t: "pmm_alloc_batch (i + 1) t = (ok, s')"
        using "1.prems"(1) True found b0 by (simp add: pmm_alloc_batch.simps [of i] t_def t0_def)
      have "allocate s' = allocate t \<and> pframe s' = pframe t \<and> pmm.more s' = pmm.more t \<and> used 0 s'
        \<and> (\<forall>k < i + 1. pre_frames s' k = pre_frames t k)
        \<and> (if ok then
             (let fs = map (pre_frames s') [i + 1..<20]
              in distinct fs \<and> set fs \<inter> used_frames t = {} \<and> 0 \<notin> set fs
                 \<and> used_frames s' = used_frames t \<union> set fs)
           else used_frames s' = {p. page_aligned p})"
      proof (rule "1.IH" [OF True found(4) [symmetric, folded t0_def], folded t_def, OF _ t])
        show "used 0 t" using "1.prems"(3) by (simp add: t_def t0_def)
      qed (use found b0 True in simp_all)
      moreover have "[i..<20] = i # [i + 1..<20]" using True by (simp add: upt_conv_Cons)
      moreover have "used_frames t = insert (b * PAGE_SIZE) (used_frames s)"
        "b * PAGE_SIZE \<notin> used_frames s" "pre_frames t i = b * PAGE_SIZE"
        using found b0 by (simp_all add: t_def t0_def used_frames_iff)
      ultimately show ?thesis using found b0 by (auto simp: Let_def t_def t0_def simp del: set_map)
    qed
  qed
qed

lemma cached_simps [simp]:
  "cached (s\<lparr>allocate := 1\<rparr>) = []"
  "cached (internal_pafe_frames_state_bitmap_unset b s) = cached s"
  by (simp_all add: cached_def internal_pafe_frames_state_bitmap_unset_def)

text \<open>Taking one frame from a non-empty cache.\<close>

lemma take_cached:
  assumes "pmm_inv s" and "allocate s = 0" and "unat (pframe s) < 20"
  defines "p \<equiv> pre_frames s (unat (pframe s))" and "s' \<equiv> s\<lparr>pframe := pframe s + 1\<rparr>"
  shows "pmm_inv s'" and "p \<noteq> 0" and "page_aligned p" and "p \<notin> outstanding s"
    and "outstanding s' = insert p (outstanding s)"
proof -
  have inc: "unat (pframe s + 1) = Suc (unat (pframe s))"
    using assms(3) by (simp add: unat_word_ariths)
  have cons: "cached s = p # cached s'"
    using assms(2,3) inc by (simp add: cached_def p_def s'_def upt_conv_Cons)
  show "pmm_inv s'" using assms(1-3) cons inc by (auto simp: pmm_inv_def s'_def)
  have "p \<in> used_frames s - {0}" "p \<notin> set (cached s')" using assms(1) cons by (auto simp: pmm_inv_def)
  then show "p \<noteq> 0" "page_aligned p" "p \<notin> outstanding s" "outstanding s' = insert p (outstanding s)"
    using cons by (auto simp: outstanding_def used_frames_def s'_def)
qed

lemma pmm_alloc_page_take:
  "allocate s = 0 \<Longrightarrow> unat (pframe s) < 20 \<Longrightarrow>
   pmm_alloc_page s = (pre_frames s (unat (pframe s)), s\<lparr>pframe := pframe s + 1\<rparr>)"
  by (auto simp: pmm_alloc_page_def)

lemma pmm_alloc_page_refill:
  assumes "allocate s = 1 \<or> pframe s = 20" and "pmm_alloc_batch 0 (s\<lparr>allocate := 1\<rparr>) = (ok, t)"
  shows "pmm_alloc_page s = (if ok then pmm_alloc_page (t\<lparr>allocate := 0, pframe := 0\<rparr>) else (NULL, t))"
proof -
  have "s\<lparr>allocate := 1\<rparr> = (if pframe s = 20 then s\<lparr>allocate := 1\<rparr> else s)" using assms(1) by auto
  then show ?thesis using assms by (auto simp: pmm_alloc_page_def Let_def split: if_splits)
qed

lemma pmm_alloc_page_cases:
  assumes inv: "pmm_inv s" and eq: "pmm_alloc_page s = (p, s')"
  shows "pmm_inv s' \<and> pmm.more s' = pmm.more s \<and>
    (if p = NULL then used_frames s' = {q. page_aligned q} \<and> cached s' = []
     else page_aligned p \<and> p \<notin> outstanding s \<and> outstanding s' = insert p (outstanding s))"
proof (cases "allocate s = 1 \<or> pframe s = 20")
  case False
  with inv have "allocate s = 0" "unat (pframe s) < 20"
    by (auto simp: pmm_inv_def word_unat_eq_iff nat_less_le)
  from take_cached [OF inv this] pmm_alloc_page_take [OF this] eq show ?thesis by auto
next
  case True
  obtain ok t where batch: "pmm_alloc_batch 0 (s\<lparr>allocate := 1\<rparr>) = (ok, t)" by fastforce
  have "used 0 (s\<lparr>allocate := 1\<rparr>)" using inv by (simp add: pmm_inv_def)
  note spec = pmm_alloc_batch_spec [OF batch _ this, simplified]
  note refill = pmm_alloc_page_refill [OF True batch]
  have out: "outstanding s = used_frames s"
    using True by (auto simp: outstanding_def cached_def)
  show ?thesis
  proof (cases ok)
    case False
    with refill eq spec inv show ?thesis by (auto simp: pmm_inv_def cached_def)
  next
    case ok: True
    let ?t = "t\<lparr>allocate := 0, pframe := 0\<rparr>"
    have c: "cached ?t = map (pre_frames t) [0..<20]" by (simp add: cached_def)
    have "pmm_inv ?t"
      using spec ok unfolding pmm_inv_def c by (auto simp: Let_def)
    note take = take_cached [OF this, simplified]
    have "outstanding ?t = outstanding s"
      using spec ok unfolding out by (auto simp: Let_def outstanding_def c)
    moreover have "pmm_alloc_page s = (pre_frames t 0, t\<lparr>allocate := 0, pframe := 1\<rparr>)"
      using refill ok by (simp add: pmm_alloc_page_take)
    ultimately show ?thesis using take eq spec by auto
  qed
qed

lemma pmm_free_page_spec:
  assumes "pmm_inv s" and "p \<in> outstanding s" and "p \<noteq> NULL"
  shows "pmm_inv (pmm_free_page p s)" and "outstanding (pmm_free_page p s) = outstanding s - {p}"
proof -
  have al: "page_aligned p" using assms(2) by (simp add: outstanding_def used_frames_def)
  then have p: "q = p \<longleftrightarrow> q div PAGE_SIZE = p div PAGE_SIZE" if "page_aligned q" for q
    using that frame_addr_div by metis
  have used: "used_frames (pmm_free_page p s) = used_frames s - {p}"
    using p by (auto simp: used_frames_def pmm_free_page_def)
  have "0 \<noteq> p div PAGE_SIZE" using frame_addr_div [OF al] assms(3) by auto
  then have "used 0 (pmm_free_page p s)" using assms(1) by (simp add: pmm_free_page_def pmm_inv_def)
  moreover have c: "cached (pmm_free_page p s) = cached s" by (simp add: pmm_free_page_def)
  moreover have "pframe (pmm_free_page p s) = pframe s" "allocate (pmm_free_page p s) = allocate s"
    by (simp_all add: pmm_free_page_def internal_pafe_frames_state_bitmap_unset_def Let_def)
  ultimately show "pmm_inv (pmm_free_page p s)"
    using assms used by (auto simp: pmm_inv_def outstanding_def)
  show "outstanding (pmm_free_page p s) = outstanding s - {p}"
    using used c assms(2) by (auto simp: outstanding_def)
qed

section \<open>The allocator's interface\<close>

text \<open>
  What \<open>vmm.c\<close> and \<open>brk.c\<close> rely on: a frame handed out was not handed out before and counts as
  held until it is freed; failure never takes a held frame away; freeing a held frame gives back
  that one only.
\<close>

primrec alloc_many :: "('s \<Rightarrow> paddr \<times> 's) \<Rightarrow> nat \<Rightarrow> 's \<Rightarrow> paddr list \<times> 's" where
  "alloc_many alloc 0 s = ([], s)"
| "alloc_many alloc (Suc n) s =
     (case alloc s of (p, s) \<Rightarrow> case alloc_many alloc n s of (ps, s) \<Rightarrow> (p # ps, s))"

locale frame_allocator =
  fixes alloc :: "'s \<Rightarrow> paddr \<times> 's"
    and release :: "paddr \<Rightarrow> 's \<Rightarrow> 's"
    and inv :: "'s \<Rightarrow> bool"
    and held :: "'s \<Rightarrow> paddr set"
  assumes alloc_inv: "inv s \<Longrightarrow> alloc s = (p, s') \<Longrightarrow> inv s'"
    and alloc_fresh: "inv s \<Longrightarrow> alloc s = (p, s') \<Longrightarrow> p \<noteq> NULL \<Longrightarrow> p \<notin> held s \<and> held s' = insert p (held s)"
    and alloc_null: "inv s \<Longrightarrow> alloc s = (NULL, s') \<Longrightarrow> held s \<subseteq> held s'"
    and release_inv: "inv s \<Longrightarrow> p \<in> held s \<Longrightarrow> p \<noteq> NULL \<Longrightarrow> inv (release p s)"
    and release_held: "inv s \<Longrightarrow> p \<in> held s \<Longrightarrow> p \<noteq> NULL \<Longrightarrow> held (release p s) = held s - {p}"
begin

lemma alloc_held_mono: "inv s \<Longrightarrow> alloc s = (p, s') \<Longrightarrow> held s \<subseteq> held s'"
  using alloc_fresh alloc_null by (cases "p = NULL") blast+

lemma many_distinct:
  "inv s \<Longrightarrow> alloc_many alloc n s = (ps, s') \<Longrightarrow> NULL \<notin> set ps \<Longrightarrow>
   inv s' \<and> distinct ps \<and> set ps \<inter> held s = {} \<and> held s' = held s \<union> set ps"
proof (induction n arbitrary: s s' ps)
  case 0
  then show ?case by simp
next
  case (Suc n)
  obtain p t where p: "alloc s = (p, t)" by fastforce
  obtain qs u where q: "alloc_many alloc n t = (qs, u)" by fastforce
  with p Suc.prems have ps: "ps = p # qs" "s' = u" by auto
  with Suc.prems have "p \<noteq> NULL" "NULL \<notin> set qs" by auto
  with Suc.prems p have "inv t" "p \<notin> held s" "held t = insert p (held s)"
    using alloc_inv alloc_fresh by blast+
  with Suc.IH [OF \<open>inv t\<close> q \<open>NULL \<notin> set qs\<close>] ps show ?case by auto
qed

lemma release_after_alloc:
  "inv s \<Longrightarrow> alloc s = (p, s') \<Longrightarrow> p \<noteq> NULL \<Longrightarrow> held (release p s') = held s"
  using alloc_inv alloc_fresh release_held by fastforce

end

interpretation page_alloc: frame_allocator "pmm_alloc_page :: 'z pmm_scheme \<Rightarrow> _" pmm_free_page pmm_inv outstanding
proof
  fix s s' :: "'z pmm_scheme" and p
  assume inv: "pmm_inv s"
  show "pmm_alloc_page s = (p, s') \<Longrightarrow> pmm_inv s'"
    using pmm_alloc_page_cases [OF inv] by blast
  show "pmm_alloc_page s = (p, s') \<Longrightarrow> p \<noteq> NULL \<Longrightarrow>
      p \<notin> outstanding s \<and> outstanding s' = insert p (outstanding s)"
    using pmm_alloc_page_cases [OF inv, of p s'] by simp
  show "pmm_alloc_page s = (NULL, s') \<Longrightarrow> outstanding s \<subseteq> outstanding s'"
    using pmm_alloc_page_cases [OF inv, of NULL s'] by (auto simp: outstanding_def used_frames_def)
  show "p \<in> outstanding s \<Longrightarrow> p \<noteq> NULL \<Longrightarrow> pmm_inv (pmm_free_page p s)"
    "p \<in> outstanding s \<Longrightarrow> p \<noteq> NULL \<Longrightarrow> outstanding (pmm_free_page p s) = outstanding s - {p}"
    using pmm_free_page_spec [OF inv] by blast+
qed

section \<open>Properties\<close>

text \<open>A state with every frame used but the frames of one bitmap word, for the witnesses.\<close>

definition one_word_free :: "u32 \<Rightarrow> pmm" where
  "one_word_free w = \<lparr>page_frames_state_bitmap = (\<lambda>_. 0xFFFFFFFF)(8 := w), page_frames_len = MAX_PAGE_FRAME_COUNT,
     total_free_memory = 0, pre_frames = \<lambda>_. 0, allocate = 1, pframe = 0\<rparr>"

lemma one_word_free_inv: "pmm_inv (one_word_free w)"
  by (simp add: pmm_inv_def one_word_free_def cached_def used_iff)

lemma one_word_free_used: "used b (one_word_free w) \<longleftrightarrow> b div 32 \<noteq> 8 \<or> bit w (unat (b mod 32))"
proof -
  have "(0xFFFFFFFF :: u32) = - 1" by simp
  then show ?thesis using unat_mod_32 [of b] by (simp only: used_iff one_word_free_def) simp
qed

text \<open>A state with two frames left in the cache.\<close>

definition two_cached :: pmm where
  "two_cached = (one_word_free 0xFFFFFFFF)\<lparr>pre_frames := \<lambda>i. of_nat i * PAGE_SIZE, allocate := 0, pframe := 18\<rparr>"

lemma two_cached_inv: "pmm_inv two_cached"
proof -
  have "cached two_cached = [0x12000, 0x13000]"
    by (simp add: cached_def two_cached_def upt_conv_Cons)
  then show ?thesis
    by (simp add: pmm_inv_def used_frames_def two_cached_def page_aligned_def one_word_free_used)
qed

lemma two_cached_alloc:
  "pmm_alloc_page two_cached = (0x12000, two_cached\<lparr>pframe := 19\<rparr>)"
  "pmm_alloc_page (two_cached\<lparr>pframe := 19\<rparr>) = (0x13000, two_cached\<lparr>pframe := 20\<rparr>)"
  by (subst pmm_alloc_page_take, simp_all add: two_cached_def)+

text \<open>\<open>pmm_alloc_frame_int\<close> returns the lowest frame that is not in use and marks exactly that
  frame; it returns NULL and changes nothing only when every frame is in use.\<close>

theorem pmm_alloc_frame_int_lowest:
  "(\<exists>b. unat b < 2 ^ 20 \<and> \<not> internal_page_frames_state_bitmap_test b s
      \<and> (\<forall>c. c < b \<longrightarrow> internal_page_frames_state_bitmap_test c s)
      \<and> pmm_alloc_frame_int s = (b * PAGE_SIZE, internal_page_frames_state_bitmap_set b s)
      \<and> (\<forall>c. internal_page_frames_state_bitmap_test c (snd (pmm_alloc_frame_int s)) \<longleftrightarrow>
             c = b \<or> internal_page_frames_state_bitmap_test c s))
   \<or> (\<forall>c. unat c < 2 ^ 20 \<longrightarrow> internal_page_frames_state_bitmap_test c s) \<and> pmm_alloc_frame_int s = (NULL, s)"
proof (cases s rule: pmm_alloc_frame_int_cases)
  case (found b)
  then show ?thesis by (intro disjI1 exI [of _ b]) simp
next
  case full
  then show ?thesis by blast
qed

text \<open>With the frames from 256 on free in their word, frame 256 is handed out.\<close>

theorem pmm_alloc_frame_int_lowest_witness:
  "pmm_alloc_frame_int (one_word_free 0xFFFFFFF0) = (0x100000, internal_page_frames_state_bitmap_set 256 (one_word_free 0xFFFFFFF0))"
proof -
  let ?s = "one_word_free 0xFFFFFFF0"
  have free: "\<not> used 256 ?s" by (simp add: one_word_free_used)
  have low: "used b ?s" if "b < 256" for b
    using that by (auto simp: one_word_free_used word_nat word_unat_eq_iff unat_div)
  consider b where "\<not> used b ?s" "\<forall>c. c < b \<longrightarrow> used c ?s"
      "pmm_alloc_frame_int ?s = (b * PAGE_SIZE, internal_page_frames_state_bitmap_set b ?s)"
    | "\<forall>c. unat c < 2 ^ 20 \<longrightarrow> used c ?s"
    using pmm_alloc_frame_int_lowest [of ?s] by blast
  then show ?thesis
  proof cases
    case (1 b)
    with free low have "b = 256" by (metis less_linear)
    with 1(3) show ?thesis by simp
  next
    case 2
    then show ?thesis using free by (auto dest!: spec [of _ 256])
  qed
qed

text \<open>C13: no frame is handed out twice. However many pages are asked for in a row, the pages
  \<open>pmm_alloc_page\<close> returns are distinct, none of them was outstanding before, and exactly they
  have become outstanding; the cache's invariant is kept.\<close>

theorem pmm_alloc_page_distinct:
  assumes "pmm_inv s" and "alloc_many pmm_alloc_page n s = (ps, s')" and "NULL \<notin> set ps"
  shows "pmm_inv s' \<and> distinct ps \<and> set ps \<inter> outstanding s = {} \<and> outstanding s' = outstanding s \<union> set ps"
  using assms by (rule page_alloc.many_distinct)

text \<open>Witness of C13: the last two frames of the cache.\<close>

theorem pmm_alloc_page_distinct_witness:
  "fst (alloc_many pmm_alloc_page 2 two_cached) = [0x12000, 0x13000]
   \<and> 0x12000 \<in> outstanding (snd (alloc_many pmm_alloc_page 2 two_cached)) \<and> 0x12000 \<notin> outstanding two_cached"
proof -
  have eq: "alloc_many pmm_alloc_page 2 two_cached = ([0x12000, 0x13000], two_cached\<lparr>pframe := 20\<rparr>)"
    by (simp add: numeral_2_eq_2 two_cached_alloc)
  show ?thesis using pmm_alloc_page_distinct [OF two_cached_inv eq] eq by auto
qed

text \<open>Freeing an outstanding page gives back exactly that page, and freeing the page that was
  just handed out restores the set of outstanding pages.\<close>

theorem pmm_free_page_exact:
  assumes "pmm_inv s" and "pmm_alloc_page s = (p, s')" and "p \<noteq> NULL"
  shows "outstanding (pmm_free_page p s') = outstanding s \<and> pmm_inv (pmm_free_page p s')"
proof
  show "outstanding (pmm_free_page p s') = outstanding s"
    using assms by (rule page_alloc.release_after_alloc)
  show "pmm_inv (pmm_free_page p s')"
    using assms page_alloc.alloc_inv page_alloc.alloc_fresh page_alloc.release_inv by blast
qed

text \<open>At a concrete state.\<close>

theorem pmm_free_page_exact_witness:
  "outstanding (pmm_free_page 0x12000 (snd (pmm_alloc_page two_cached))) = outstanding two_cached"
proof -
  have eq: "pmm_alloc_page two_cached = (0x12000, two_cached\<lparr>pframe := 19\<rparr>)"
    by (rule two_cached_alloc)
  show ?thesis using pmm_free_page_exact [OF two_cached_inv eq] eq by simp
qed

text \<open>A refill that cannot find a whole batch of 20 frames fails and keeps what it took: with
  fewer than 20 frames left the caller gets NULL, although frames were free, and afterwards every
  frame is marked used and none is cached.\<close>

theorem pmm_alloc_page_short_batch:
  assumes "pmm_inv s" and "allocate s = 1 \<or> pframe s = 20"
    and "card {b. unat b < 2 ^ 20 \<and> \<not> internal_page_frames_state_bitmap_test b s} < 20"
  shows "\<exists>s'. pmm_alloc_page s = (NULL, s') \<and> used_frames s' = {p. page_aligned p} \<and> cached s' = []"
proof -
  obtain ok t where batch: "pmm_alloc_batch 0 (s\<lparr>allocate := 1\<rparr>) = (ok, t)" by fastforce
  have "used 0 (s\<lparr>allocate := 1\<rparr>)" using assms(1) by (simp add: pmm_inv_def)
  note spec = pmm_alloc_batch_spec [OF batch _ this, simplified]
  have "\<not> ok"
  proof
    assume ok
    let ?fs = "map (pre_frames t) [0..<20]" and ?F = "{b. unat b < 2 ^ 20 \<and> \<not> used b s}"
    from spec \<open>ok\<close> have fs: "distinct ?fs" "set ?fs \<inter> used_frames s = {}" "set ?fs \<subseteq> used_frames t"
      by (simp_all add: Let_def del: set_map)
    have al: "page_aligned p" if "p \<in> set ?fs" for p using that fs(3) by (auto simp: used_frames_def)
    have "inj_on (\<lambda>p. p div PAGE_SIZE) (set ?fs)"
      by (rule inj_onI) (metis al frame_addr_div)
    moreover have "(\<lambda>p. p div PAGE_SIZE) ` set ?fs \<subseteq> ?F"
      using fs(2) al by (auto simp: used_frames_def simp del: set_map)
    ultimately have "card (set ?fs) \<le> card ?F" by (intro card_inj_on_le) auto
    moreover have "card (set ?fs) = 20" using distinct_card [OF fs(1)] by simp
    ultimately show False using assms(3) by simp
  qed
  with pmm_alloc_page_refill [OF assms(2) batch] spec show ?thesis by (auto simp: cached_def)
qed

text \<open>Four frames are free, and the request fails.\<close>

theorem pmm_alloc_page_short_batch_witness:
  "\<not> internal_page_frames_state_bitmap_test 256 (one_word_free 0xFFFFFFF0)
   \<and> (\<exists>s'. pmm_alloc_page (one_word_free 0xFFFFFFF0) = (NULL, s') \<and> used_frames s' = {p. page_aligned p} \<and> cached s' = [])"
proof -
  let ?s = "one_word_free 0xFFFFFFF0"
  have "(0xFFFFFFF0 :: u32) = NOT (mask 4)" by (simp add: mask_eq_exp_minus_1)
  then have low: "k < 4" if "\<not> bit (0xFFFFFFF0 :: u32) k" "k < 32" for k
    using that by (simp only: bit_simps) auto
  have "{b. unat b < 2 ^ 20 \<and> \<not> used b ?s} \<subseteq> (\<lambda>k. 256 + of_nat k) ` {..<4}"
  proof
    fix b assume "b \<in> {b. unat b < 2 ^ 20 \<and> \<not> used b ?s}"
    then have b: "unat b div 32 = 8" "unat b mod 32 < 4"
      using low [of "unat (b mod 32)"] unat_mod_32 [of b]
      by (auto simp: one_word_free_used word_unat_eq_iff [where 'a = 32] unat_div unat_mod)
    have "unat b = 8 * 32 + unat b mod 32" using b(1) by (metis div_mult_mod_eq)
    then have "b = 256 + of_nat (unat b mod 32)"
      using b(2) by (simp add: word_unat_eq_iff unat_word_ariths(1) unat_of_nat)
    with b(2) show "b \<in> (\<lambda>k. 256 + of_nat k) ` {..<4}" by (intro image_eqI) auto
  qed
  then have "card {b. unat b < 2 ^ 20 \<and> \<not> used b ?s} \<le> card {..<4 :: nat}"
    by (meson card_image_le card_mono finite_imageI finite_lessThan le_trans)
  then have "card {b. unat b < 2 ^ 20 \<and> \<not> used b ?s} < 20" by simp
  with pmm_alloc_page_short_batch [OF one_word_free_inv, of "0xFFFFFFF0"] show ?thesis
    by (simp add: one_word_free_used) (simp add: one_word_free_def)
qed

end
