(* ===== verification/Pmm_Init.thy ===== *)
theory Pmm_Init
  imports Pmm
begin

text \<open>
  \<open>pmm_frames_init\<close> (\<open>paging.c\<close>): the frame bitmap is built from the multiboot memory map. The map
  lies in memory the boot loader filled, so it is a parameter: \<open>mm a\<close> is the entry at address
  \<open>a\<close>. \<open>k_start\<close> and \<open>k_end\<close> are the linker's symbols \<open>_kernel_start\<close> and \<open>_kernel_end\<close>.
\<close>

section \<open>Definitions\<close>

abbreviation (input) MULTIBOOT_MEMORY_AVAILABLE :: u32 where "MULTIBOOT_MEMORY_AVAILABLE \<equiv> 1"

record mmap_entry =
  mm_size :: u32
  addr_low :: u32
  addr_high :: u32
  len_low :: u32
  len_high :: u32
  mm_type :: u32

record multiboot_info =
  mb_flags :: u32
  mmap_length :: u32
  mmap_addr :: u32

text \<open>The loop over the pages of one available region; \<open>en\<close> is the source's \<open>end\<close>.\<close>

partial_function (option) pmm_mark_available ::
  "paddr \<Rightarrow> paddr \<Rightarrow> 'z pmm_scheme \<Rightarrow> 'z pmm_scheme option" where
  "pmm_mark_available addr en s =
     (if addr < en then
        let page_idx = addr div PAGE_SIZE;
            s = (if page_idx < MAX_PAGE_FRAME_COUNT
                 then internal_pafe_frames_state_bitmap_unset page_idx s else s)
        in pmm_mark_available (addr + PAGE_SIZE) en s
      else Some s)"

definition region_start :: "mmap_entry \<Rightarrow> paddr" where
  "region_start e = (addr_low e + PAGE_SIZE - 1) AND NOT (PAGE_SIZE - 1)"

definition region_end :: "mmap_entry \<Rightarrow> paddr" where
  "region_end e = (addr_low e + len_low e) AND NOT (PAGE_SIZE - 1)"

definition region_available :: "mmap_entry \<Rightarrow> bool" where
  "region_available e \<longleftrightarrow> mm_type e = MULTIBOOT_MEMORY_AVAILABLE \<and> addr_high e = 0"

partial_function (option) pmm_mmap_loop ::
  "(u32 \<Rightarrow> mmap_entry) \<Rightarrow> u32 \<Rightarrow> u32 \<Rightarrow> 'z pmm_scheme \<Rightarrow> 'z pmm_scheme option" where
  "pmm_mmap_loop mm lim entry s =
     (if entry < lim then
        case (if region_available (mm entry)
              then pmm_mark_available (region_start (mm entry)) (region_end (mm entry)) s
              else Some s) of
          None \<Rightarrow> None
        | Some s \<Rightarrow> pmm_mmap_loop mm lim (entry + mm_size (mm entry) + 4) s
      else Some s)"

function protect_range :: "u32 \<Rightarrow> u32 \<Rightarrow> 'z pmm_scheme \<Rightarrow> 'z pmm_scheme" where
  "protect_range i end_idx s =
     (if i < end_idx then
        protect_range (i + 1) end_idx
          (if i < MAX_PAGE_FRAME_COUNT then internal_page_frames_state_bitmap_set i s else s)
      else s)"
  by pat_completeness auto
termination
  by (relation "measure (\<lambda>(i, end_idx, s). unat end_idx - unat i)") (auto simp: unat_inc word_nat)

function count_word :: "u32 \<Rightarrow> nat \<Rightarrow> u32 \<Rightarrow> u32" where
  "count_word w j free_page_count =
     (if j < 32 then
        count_word w (j + 1)
          (if w AND push_bit j 1 = 0 then free_page_count + 1 else free_page_count)
      else free_page_count)"
  by pat_completeness auto
termination
  by (relation "measure (\<lambda>(w, j, c). 32 - j)") auto

function count_free :: "u32 \<Rightarrow> 'z pmm_scheme \<Rightarrow> u32 \<Rightarrow> u32" where
  "count_free i s free_page_count =
     (if i < BITMAP_SIZE then
        count_free (i + 1) s
          (if page_frames_state_bitmap s i \<noteq> 0xFFFFFFFF
           then count_word (page_frames_state_bitmap s i) 0 free_page_count else free_page_count)
      else free_page_count)"
  by pat_completeness auto
termination
  by (relation "measure (\<lambda>(i, s, c). 32768 - unat i)") (auto simp: unat_inc32 word_nat)

definition pmm_frames_init ::
  "(u32 \<Rightarrow> mmap_entry) \<Rightarrow> multiboot_info \<Rightarrow> paddr \<Rightarrow> vaddr \<Rightarrow> 'z pmm_scheme \<Rightarrow> 'z pmm_scheme option" where
  "pmm_frames_init mm mbd kernel_start kernel_end s =
     (let s = s\<lparr>page_frames_state_bitmap :=
              \<lambda>i. if i < BITMAP_SIZE then 0xFFFFFFFF else page_frames_state_bitmap s i,
            page_frames_len := MAX_PAGE_FRAME_COUNT\<rparr>
      in case pmm_mmap_loop mm (mmap_addr mbd + mmap_length mbd) (mmap_addr mbd) s of
           None \<Rightarrow> None
         | Some s \<Rightarrow>
             let k_start = kernel_start;
                 k_end = kernel_end - KERNEL_VIRT_OFFSET;
                 start_idx = k_start div PAGE_SIZE;
                 end_idx = k_end div PAGE_SIZE + 1;
                 s = protect_range start_idx end_idx s;
                 s = protect_range 0 256 s
             in Some (s\<lparr>total_free_memory := ucast (count_free 0 s 0) * 4096\<rparr>))"

declare protect_range.simps [simp del] count_word.simps [simp del] count_free.simps [simp del]

section \<open>The loops\<close>

lemma region_bounds:
  assumes "unat (addr_low e) + 4095 < 2 ^ 32" and "unat (addr_low e) + unat (len_low e) < 2 ^ 32"
  shows "unat (region_start e) = (unat (addr_low e) + 4095) div 4096 * 4096"
    and "unat (region_end e) = (unat (addr_low e) + unat (len_low e)) div 4096 * 4096"
proof -
  have "addr_low e + PAGE_SIZE - 1 = addr_low e + 4095" by simp
  moreover have "unat (addr_low e + 4095) = unat (addr_low e) + 4095"
    "unat (addr_low e + len_low e) = unat (addr_low e) + unat (len_low e)"
    using assms by (simp_all add: unat_add32)
  ultimately show "unat (region_start e) = (unat (addr_low e) + 4095) div 4096 * 4096"
    "unat (region_end e) = (unat (addr_low e) + unat (len_low e)) div 4096 * 4096"
    by (simp_all add: region_start_def region_end_def unat_align_page add.commute)
qed

definition same_but_bitmap :: "'z pmm_scheme \<Rightarrow> 'z pmm_scheme \<Rightarrow> bool" where
  "same_but_bitmap s s' \<longleftrightarrow> s' = s\<lparr>page_frames_state_bitmap := page_frames_state_bitmap s'\<rparr>"

lemma pmm_mark_available_spec:
  assumes "page_aligned addr" and "page_aligned en"
  shows "\<exists>s'. pmm_mark_available addr en s = Some s' \<and> same_but_bitmap s s' \<and>
    (\<forall>f. unat f < 2 ^ 20 \<longrightarrow> (used f s' \<longleftrightarrow> used f s \<and> \<not> (unat addr \<le> unat f * 4096 \<and> unat f * 4096 < unat en)))"
  using assms(1)
proof (induction "unat en - unat addr" arbitrary: addr s rule: less_induct)
  case less
  show ?case
  proof (cases "addr < en")
    case False
    then show ?thesis
      by (auto simp: pmm_mark_available.simps [of addr] word_nat same_but_bitmap_def intro!: exI [of _ s])
  next
    case True
    let ?b = "addr div PAGE_SIZE"
    let ?s = "internal_pafe_frames_state_bitmap_unset ?b s"
    obtain k l where kl: "unat addr = 4096 * k" "unat en = 4096 * l"
      using less.prems assms(2) by (auto simp: page_aligned_def dvd_def)
    with True have lt: "k < l" by (simp add: word_nat)
    with kl unat_lt32 [of en] have next_addr: "unat (addr + PAGE_SIZE) = 4096 * (k + 1)" by (subst unat_add32) auto
    have *: "\<exists>s'. pmm_mark_available (addr + PAGE_SIZE) en ?s = Some s' \<and> same_but_bitmap ?s s' \<and>
      (\<forall>f. unat f < 2 ^ 20 \<longrightarrow> (used f s' \<longleftrightarrow> used f ?s \<and>
        \<not> (unat (addr + PAGE_SIZE) \<le> unat f * 4096 \<and> unat f * 4096 < unat en)))"
      by (rule less.hyps) (use kl lt next_addr in \<open>auto simp: page_aligned_def\<close>)
    obtain s' where s': "pmm_mark_available (addr + PAGE_SIZE) en ?s = Some s'" "same_but_bitmap ?s s'"
      "\<And>f. unat f < 2 ^ 20 \<Longrightarrow> used f s' \<longleftrightarrow> used f ?s \<and> \<not> (k < unat f \<and> unat f < l)"
    proof -
      have "4096 + 4096 * k \<le> x * 4096 \<longleftrightarrow> k < x" for x :: nat by arith
      then show ?thesis using * next_addr kl that by auto
    qed
    have "?b < MAX_PAGE_FRAME_COUNT" by (simp add: word_nat)
    then have "pmm_mark_available addr en s = Some s'"
      using True s'(1) by (simp add: pmm_mark_available.simps [of addr])
    moreover have "f = ?b \<longleftrightarrow> unat f = k" for f
      using kl by (simp add: word_unat_eq_iff unat_div)
    moreover have "same_but_bitmap s s'"
      using s'(2) by (simp add: same_but_bitmap_def internal_pafe_frames_state_bitmap_unset_def)
    ultimately show ?thesis using s'(3) kl lt by auto
  qed
qed

text \<open>The entries the walk over the map visits. The relation holds for some list exactly when the
  walk comes to an end.\<close>

fun mmap_chain :: "(u32 \<Rightarrow> mmap_entry) \<Rightarrow> u32 \<Rightarrow> u32 \<Rightarrow> mmap_entry list \<Rightarrow> bool" where
  "mmap_chain mm lim a [] \<longleftrightarrow> lim \<le> a"
| "mmap_chain mm lim a (e # es) \<longleftrightarrow> a < lim \<and> e = mm a \<and> mmap_chain mm lim (a + mm_size e + 4) es"

text \<open>The region that an entry describes, from its 64-bit address and length.\<close>

definition mm_base :: "mmap_entry \<Rightarrow> nat" where
  "mm_base e = unat (addr_high e) * 2 ^ 32 + unat (addr_low e)"

definition mm_limit :: "mmap_entry \<Rightarrow> nat" where
  "mm_limit e = mm_base e + (unat (len_high e) * 2 ^ 32 + unat (len_low e))"

text \<open>The region ends below 4 GB and does not begin in the last page.\<close>

definition region_ok :: "mmap_entry \<Rightarrow> bool" where
  "region_ok e \<longleftrightarrow> mm_base e + 4095 < 2 ^ 32 \<and> mm_limit e < 2 ^ 32"

text \<open>Frame \<open>f\<close> lies wholly inside the region an entry describes.\<close>

definition frame_in :: "u32 \<Rightarrow> mmap_entry \<Rightarrow> bool" where
  "frame_in f e \<longleftrightarrow> mm_base e \<le> unat f * 4096 \<and> (unat f + 1) * 4096 \<le> mm_limit e"

lemma region_ok_low:
  assumes "region_ok e"
  shows "addr_high e = 0" "mm_base e = unat (addr_low e)" "mm_limit e = unat (addr_low e) + unat (len_low e)"
proof -
  have "unat (addr_high e) = 0" "unat (len_high e) = 0" using assms by (simp_all add: region_ok_def mm_base_def mm_limit_def)
  then show "addr_high e = 0" "mm_base e = unat (addr_low e)" "mm_limit e = unat (addr_low e) + unat (len_low e)"
    by (simp_all add: mm_base_def mm_limit_def unat_eq_0)
qed

text \<open>A region that begins at 4 GB or above holds no frame of the first 4 GB.\<close>

lemma frame_in_high: "frame_in f e \<Longrightarrow> unat f < 2 ^ 20 \<Longrightarrow> addr_high e = 0"
proof (rule ccontr)
  assume f: "frame_in f e" "unat f < 2 ^ 20" and "addr_high e \<noteq> 0"
  then have "0 < unat (addr_high e)" by (metis unat_eq_0 neq0_conv)
  then have "1 * 2 ^ 32 \<le> unat (addr_high e) * 2 ^ 32" by (intro mult_right_mono) simp_all
  with f show False by (simp add: frame_in_def mm_base_def)
qed

lemma frame_in_region:
  assumes "region_ok e"
  shows "frame_in f e \<longleftrightarrow> unat (region_start e) \<le> unat f * 4096 \<and> unat f * 4096 < unat (region_end e)"
proof -
  have "(x + 4095) div 4096 * 4096 \<le> n * 4096 \<longleftrightarrow> x \<le> n * 4096" for x n :: nat
    using div_less_iff_less_mult [of 4096 "x + 4095" "Suc n"] by auto
  moreover have "n * 4096 < x div 4096 * 4096 \<longleftrightarrow> (n + 1) * 4096 \<le> x" for x n :: nat
    using div_less_iff_less_mult [of 4096 x "Suc n"] by auto
  ultimately show ?thesis
    using assms region_ok_low [OF assms] by (simp add: frame_in_def region_bounds region_ok_def)
qed

lemma region_aligned:
  "region_ok e \<Longrightarrow> page_aligned (region_start e)" "region_ok e \<Longrightarrow> page_aligned (region_end e)"
proof -
  assume ok: "region_ok e"
  then have "unat (addr_low e) + 4095 < 2 ^ 32" "unat (addr_low e) + unat (len_low e) < 2 ^ 32"
    using region_ok_low(2,3) [OF ok] by (simp_all add: region_ok_def)
  from region_bounds [OF this] show "page_aligned (region_start e)" "page_aligned (region_end e)" by (simp_all add: page_aligned_def)
qed

lemma same_but_bitmap_trans: "same_but_bitmap s t \<Longrightarrow> same_but_bitmap t u \<Longrightarrow> same_but_bitmap s u"
  by (cases s, cases t, cases u) (simp add: same_but_bitmap_def)

lemma pmm_mmap_loop_spec:
  assumes "mmap_chain mm lim a es" and "\<forall>e \<in> set es. region_available e \<longrightarrow> region_ok e"
  shows "\<exists>s'. pmm_mmap_loop mm lim a s = Some s' \<and> same_but_bitmap s s' \<and>
    (\<forall>f. unat f < 2 ^ 20 \<longrightarrow> (used f s' \<longleftrightarrow> used f s \<and> \<not> (\<exists>e \<in> set es. region_available e \<and> frame_in f e)))"
  using assms
proof (induction es arbitrary: a s)
  case Nil
  then show ?case by (subst pmm_mmap_loop.simps) (auto simp: same_but_bitmap_def)
next
  case (Cons e es)
  let ?step = "if region_available (mm a) then pmm_mark_available (region_start (mm a)) (region_end (mm a)) s else Some s"
  have e: "e = mm a" "a < lim" "mmap_chain mm lim (a + mm_size e + 4) es" using Cons.prems by auto
  obtain t where t: "?step = Some t" "same_but_bitmap s t"
    "\<And>f. unat f < 2 ^ 20 \<Longrightarrow> used f t \<longleftrightarrow> used f s \<and> \<not> (region_available e \<and> frame_in f e)"
  proof (cases "region_available e")
    case True
    with Cons.prems have ok: "region_ok e" by simp
    from pmm_mark_available_spec [OF region_aligned [OF this], of s] obtain t where
      "pmm_mark_available (region_start e) (region_end e) s = Some t" "same_but_bitmap s t"
      "\<And>f. unat f < 2 ^ 20 \<Longrightarrow> used f t \<longleftrightarrow> used f s \<and> \<not> frame_in f e"
      using frame_in_region [OF ok] by auto
    with True e that show ?thesis by auto
  next
    case False
    with e that [of s] show ?thesis by (simp add: same_but_bitmap_def)
  qed
  have "\<forall>e \<in> set es. region_available e \<longrightarrow> region_ok e" using Cons.prems by simp
  from Cons.IH [OF e(3) this, of t] obtain u where
    u: "pmm_mmap_loop mm lim (a + mm_size e + 4) t = Some u" "same_but_bitmap t u"
    "\<And>f. unat f < 2 ^ 20 \<Longrightarrow> used f u \<longleftrightarrow> used f t \<and> \<not> (\<exists>e \<in> set es. region_available e \<and> frame_in f e)"
    by auto
  have "pmm_mmap_loop mm lim a s = Some u"
    using e t(1) u(1) by (simp add: pmm_mmap_loop.simps [of _ _ a])
  then show ?case using t u same_but_bitmap_trans [OF t(2) u(2)] by auto
qed

lemma protect_range_spec:
  "used f (protect_range i n s) \<longleftrightarrow> used f s \<or> (i \<le> f \<and> f < n \<and> f < MAX_PAGE_FRAME_COUNT)"
proof (induction i n s rule: protect_range.induct)
  case (1 i n s)
  show ?case
  proof (cases "i < n")
    case True
    with 1 word_le_inc [OF True, of f] show ?thesis by (auto simp: protect_range.simps [of i])
  next
    case False
    then show ?thesis by (auto simp: protect_range.simps [of i])
  qed
qed

section \<open>Counting the free frames\<close>

lemma bit_test_zero: "(w :: u32) AND 2 ^ j = 0 \<longleftrightarrow> \<not> bit w j"
  using bit_iff_and_push_bit_not_eq_0 [of w j] by simp

lemma count_word_eq: "j \<le> 32 \<Longrightarrow> count_word w j c = c + of_nat (card {k. j \<le> k \<and> k < 32 \<and> \<not> bit w k})"
proof (induction w j c rule: count_word.induct)
  case (1 w j c)
  let ?S = "\<lambda>j. {k. j \<le> k \<and> k < 32 \<and> \<not> bit w k}"
  show ?case
  proof (cases "j < 32")
    case True
    have fin: "finite (?S (j + 1))" by (rule finite_subset [of _ "{..32}"]) auto
    have "?S j = (if bit w j then ?S (j + 1) else insert j (?S (j + 1)))"
      using True by (auto simp: Suc_le_eq nat_less_le)
    then have "of_nat (card (?S j)) = of_nat (card (?S (j + 1))) + (if bit w j then 0 else 1 :: u32)"
      using fin by simp
    with True 1 show ?thesis by (simp add: count_word.simps [of w j] bit_test_zero)
  next
    case False
    then have empty: "?S j = {}" by auto
    show ?thesis unfolding empty using False by (subst count_word.simps) simp
  qed
qed

definition free_from :: "nat \<Rightarrow> 'z pmm_scheme \<Rightarrow> u32 set" where
  "free_from n s = {f. n \<le> unat f \<and> unat f < 2 ^ 20 \<and> \<not> used f s}"

lemma free_from_split:
  assumes "i < BITMAP_SIZE"
  shows "free_from (unat i * 32) s =
    (\<lambda>k. i * 32 + of_nat k) ` {k. k < 32 \<and> \<not> bit (page_frames_state_bitmap s i) k} \<union> free_from (unat (i + 1) * 32) s"
    (is "_ = ?f ` ?K \<union> _")
proof -
  have idx: "unat (?f k) = unat i * 32 + k" if "k < 32" for k
  proof -
    have "unat (of_nat k :: u32) = k" using that by (simp add: unat_of_nat)
    then show ?thesis using unat_bit_idx [OF assms, of "of_nat k"] that by (simp add: word_nat)
  qed
  have used: "used (?f k) s \<longleftrightarrow> bit (page_frames_state_bitmap s i) k" if "k < 32" for k
  proof -
    have "?f k div 32 = i" "unat (?f k mod 32) = k"
      using idx [OF that] that by (simp_all add: word_unat_eq_iff [where 'a = 32] unat_div unat_mod)
    then show ?thesis by (simp add: used_iff)
  qed
  have inc: "unat (i + 1) = Suc (unat i)" using assms by (simp add: unat_inc32 word_nat)
  have "f \<in> ?f ` ?K" if "unat i * 32 \<le> unat f" "\<not> unat (i + 1) * 32 \<le> unat f" "\<not> used f s" for f
  proof -
    let ?k = "unat f - unat i * 32"
    have "?k < 32" using that inc by simp
    then have "f = ?f ?k" using idx [OF \<open>?k < 32\<close>] that by (simp add: word_unat_eq_iff)
    moreover have "?k \<in> ?K" using used [OF \<open>?k < 32\<close>] that \<open>?k < 32\<close> calculation by simp
    ultimately show ?thesis by (rule image_eqI)
  qed
  then show ?thesis
    using idx used inc assms by (auto simp: free_from_def word_nat)
qed

lemma count_free_eq: "i \<le> BITMAP_SIZE \<Longrightarrow> count_free i s c = c + of_nat (card (free_from (unat i * 32) s))"
proof (induction i s c rule: count_free.induct)
  case (1 i s c)
  show ?case
  proof (cases "i < BITMAP_SIZE")
    case False
    with "1.prems" have "i = BITMAP_SIZE" by simp
    then have "free_from (unat i * 32) s = {}" by (auto simp: free_from_def)
    with False show ?thesis by (simp add: count_free.simps [of i])
  next
    case True
    let ?w = "page_frames_state_bitmap s i"
    let ?K = "{k. k < 32 \<and> \<not> bit ?w k}" and ?f = "\<lambda>k. i * 32 + of_nat k :: u32"
    have inc: "unat (i + 1) = Suc (unat i)" using True by (simp add: unat_inc32 word_nat)
    then have le: "i + 1 \<le> BITMAP_SIZE" using True by (simp add: word_nat)
    have "inj_on ?f {..<32}"
    proof (rule inj_onI)
      fix x y :: nat assume "x \<in> {..<32}" "y \<in> {..<32}" "?f x = ?f y"
      then have "unat (of_nat x :: u32) = unat (of_nat y :: u32)" "x < 32" "y < 32" by simp_all
      then show "x = y" by (simp add: unat_of_nat)
    qed
    then have inj: "inj_on ?f ?K" by (rule inj_on_subset) auto
    have "?f ` ?K \<inter> free_from (unat (i + 1) * 32) s = {}"
    proof -
      have "unat (?f k) < unat (i + 1) * 32" if "k < 32" for k
        using unat_bit_idx [OF True, of "of_nat k"] that inc by (simp add: word_nat unat_of_nat)
      then show ?thesis by (force simp: free_from_def)
    qed
    then have "card (free_from (unat i * 32) s) = card ?K + card (free_from (unat (i + 1) * 32) s)"
      unfolding free_from_split [OF True] by (subst card_Un_disjoint) (auto simp: card_image [OF inj])
    moreover have "(if ?w \<noteq> 0xFFFFFFFF then count_word ?w 0 c else c) = c + of_nat (card ?K)"
    proof (cases "?w = 0xFFFFFFFF")
      case full: True
      then have "?w = - 1" by simp
      then have "?K = {}" by (auto simp only: bit_minus_1_iff) simp
      with full show ?thesis by simp
    next
      case False
      then show ?thesis by (simp add: count_word_eq)
    qed
    ultimately show ?thesis
      using "1.IH" [OF True le] True by (simp add: count_free.simps [of i] add.assoc)
  qed
qed

lemma protect_range_same: "same_but_bitmap s (protect_range i n s)"
proof (induction i n s rule: protect_range.induct)
  case (1 i n s)
  have "same_but_bitmap s (if i < MAX_PAGE_FRAME_COUNT then internal_page_frames_state_bitmap_set i s else s)"
    by (simp add: same_but_bitmap_def internal_page_frames_state_bitmap_set_def)
  note step = same_but_bitmap_trans [OF this]
  show ?case
  proof (cases "i < n")
    case True
    show ?thesis unfolding protect_range.simps [of i n s] if_P [OF True] by (rule step [OF "1.IH" [OF True]])
  next
    case False
    then show ?thesis by (simp add: protect_range.simps [of i] same_but_bitmap_def)
  qed
qed

lemma same_but_bitmap_fields:
  assumes "same_but_bitmap s t"
  shows "pre_frames t = pre_frames s" "allocate t = allocate s" "pframe t = pframe s" "pmm.more t = pmm.more s"
  using assms by (cases s; cases t; simp add: same_but_bitmap_def)+

lemma pmm_frames_init_spec:
  assumes "mmap_chain mm (mmap_addr mbd + mmap_length mbd) (mmap_addr mbd) es"
    and "\<forall>e \<in> set es. region_available e \<longrightarrow> region_ok e"
  shows "\<exists>s'. pmm_frames_init mm mbd kernel_start kernel_end s = Some s'
    \<and> (\<forall>f. unat f < 2 ^ 20 \<longrightarrow>
         (\<not> internal_page_frames_state_bitmap_test f s' \<longleftrightarrow>
            (\<exists>e \<in> set es. region_available e \<and> frame_in f e) \<and> 256 \<le> unat f
            \<and> \<not> (unat kernel_start div 4096 \<le> unat f \<and>
                 unat f \<le> unat (kernel_end - KERNEL_VIRT_OFFSET) div 4096)))
    \<and> unat (total_free_memory s') =
        4096 * card {f. unat f < 2 ^ 20 \<and> \<not> internal_page_frames_state_bitmap_test f s'}
    \<and> pre_frames s' = pre_frames s \<and> allocate s' = allocate s \<and> pframe s' = pframe s \<and> pmm.more s' = pmm.more s"
proof -
  define s0 where "s0 = s\<lparr>page_frames_state_bitmap :=
    \<lambda>i. if i < BITMAP_SIZE then 0xFFFFFFFF else page_frames_state_bitmap s i,
    page_frames_len := MAX_PAGE_FRAME_COUNT\<rparr>"
  have s0: "used f s0" if "unat f < 2 ^ 20" for f
  proof -
    have "f div 32 < BITMAP_SIZE" using that by (simp add: word_nat unat_div)
    moreover have "(0xFFFFFFFF :: u32) = - 1" by simp
    ultimately show ?thesis using unat_mod_32 [of f] by (simp only: used_iff s0_def) simp
  qed
  obtain t where same: "same_but_bitmap s0 t" and t: "pmm_mmap_loop mm (mmap_addr mbd + mmap_length mbd) (mmap_addr mbd) s0 = Some t"
    "\<And>f. unat f < 2 ^ 20 \<Longrightarrow> used f t \<longleftrightarrow> \<not> (\<exists>e \<in> set es. region_available e \<and> frame_in f e)"
    using pmm_mmap_loop_spec [OF assms, of s0] s0 by auto
  define u where "u = protect_range 0 256
    (protect_range (kernel_start div PAGE_SIZE) ((kernel_end - KERNEL_VIRT_OFFSET) div PAGE_SIZE + 1) t)"
  have res: "pmm_frames_init mm mbd kernel_start kernel_end s =
      Some (u\<lparr>total_free_memory := ucast (count_free 0 u 0) * 4096\<rparr>)"
    using t(1) by (simp add: pmm_frames_init_def s0_def u_def Let_def)
  have "unat ((kernel_end - KERNEL_VIRT_OFFSET) div PAGE_SIZE + 1) =
      unat (kernel_end - KERNEL_VIRT_OFFSET) div 4096 + 1"
    using unat_frame_index [of "kernel_end - KERNEL_VIRT_OFFSET"] by (simp add: unat_inc32 unat_div)
  then have u: "\<not> used f u \<longleftrightarrow> (\<exists>e \<in> set es. region_available e \<and> frame_in f e) \<and> 256 \<le> unat f
      \<and> \<not> (unat kernel_start div 4096 \<le> unat f \<and> unat f \<le> unat (kernel_end - KERNEL_VIRT_OFFSET) div 4096)"
    if "unat f < 2 ^ 20" for f
    using that t(2) [OF that] by (auto simp: u_def protect_range_spec word_nat unat_div)
  let ?F = "{f. unat f < 2 ^ 20 \<and> \<not> used f u}"
  have F: "free_from 0 u = ?F" by (simp add: free_from_def)
  have "card ?F \<le> card {..<2 ^ 20 :: nat}"
    by (rule card_inj_on_le [where f = unat]) (auto intro: inj_onI simp: word_unat_eq_iff)
  then have "card ?F \<le> 2 ^ 20" by simp
  then have "unat (ucast (count_free 0 u 0) * 4096 :: u64) = 4096 * card ?F"
    using F by (simp add: count_free_eq unat_word_ariths(2) unsigned_ucast_eq unat_of_nat take_bit_nat_eq_self)
  moreover have "same_but_bitmap s0 u"
    unfolding u_def by (rule same_but_bitmap_trans [OF same same_but_bitmap_trans [OF protect_range_same protect_range_same]])
  note same_but_bitmap_fields [OF this]
  ultimately show ?thesis using u unfolding res by (simp add: s0_def)
qed

section \<open>Properties\<close>

text \<open>C12: \<open>pmm_frames_init\<close> ends, and afterwards a frame is marked free exactly when it lies wholly
  inside an available region of the memory map, read with its 64-bit address and length, and is neither a frame of the kernel image nor one
  of the lowest 256 frames; \<open>total_free_memory\<close> is the size of the free frames. It is stated for
  maps whose walk ends (\<open>mmap_chain\<close>) and whose available regions that begin below 4 GB also end below 4 GB and
  do not begin in the last page (\<open>region_ok\<close>): the code drops the upper half of the length. Regions that begin above 4 GB may be
  in the map.\<close>

theorem pmm_frames_init_correct:
  assumes "mmap_chain mm (mmap_addr mbd + mmap_length mbd) (mmap_addr mbd) es"
    and "\<forall>e \<in> set es. mm_type e = MULTIBOOT_MEMORY_AVAILABLE \<and> addr_high e = 0 \<longrightarrow> region_ok e"
  shows "\<exists>s'. pmm_frames_init mm mbd kernel_start kernel_end s = Some s'
    \<and> (\<forall>f. unat f < 2 ^ 20 \<longrightarrow>
         (\<not> internal_page_frames_state_bitmap_test f s' \<longleftrightarrow>
            (\<exists>e \<in> set es. mm_type e = MULTIBOOT_MEMORY_AVAILABLE \<and> frame_in f e) \<and> 256 \<le> unat f
            \<and> \<not> (unat kernel_start div 4096 \<le> unat f \<and>
                 unat f \<le> unat (kernel_end - KERNEL_VIRT_OFFSET) div 4096)))
    \<and> unat (total_free_memory s') =
        4096 * card {f. unat f < 2 ^ 20 \<and> \<not> internal_page_frames_state_bitmap_test f s'}"
proof -
  have ok: "\<forall>e \<in> set es. region_available e \<longrightarrow> region_ok e" using assms(2) by (simp add: region_available_def)
  have "mm_type e = MULTIBOOT_MEMORY_AVAILABLE \<and> frame_in f e \<longleftrightarrow> region_available e \<and> frame_in f e" if "unat f < 2 ^ 20" for e f
    using frame_in_high [OF _ that, of e] by (auto simp: region_available_def)
  then show ?thesis using pmm_frames_init_spec [OF assms(1) ok, of kernel_start kernel_end s] by auto
qed

text \<open>Witness of C12: 127 MB above 1 MB, in a map of two entries.\<close>

definition example_mmap :: "u32 \<Rightarrow> mmap_entry" where
  "example_mmap a =
     (if a = 0x100 then \<lparr>mm_size = 20, addr_low = 0, addr_high = 0, len_low = 0x9FC00, len_high = 0, mm_type = 1\<rparr>
      else \<lparr>mm_size = 20, addr_low = 0x100000, addr_high = 0, len_low = 0x7EE0000, len_high = 0, mm_type = 1\<rparr>)"

theorem pmm_frames_init_correct_witness:
  "\<exists>s'. pmm_frames_init example_mmap \<lparr>mb_flags = 64, mmap_length = 48, mmap_addr = 0x100\<rparr> 0x100000 0xC0120000
       \<lparr>page_frames_state_bitmap = \<lambda>_. 0, page_frames_len = 0, total_free_memory = 0, pre_frames = \<lambda>_. 0,
        allocate = 1, pframe = 0\<rparr> = Some s'
     \<and> internal_page_frames_state_bitmap_test 0x120 s' \<and> \<not> internal_page_frames_state_bitmap_test 0x121 s'"
proof -
  let ?mbd = "\<lparr>mb_flags = 64, mmap_length = 48, mmap_addr = 0x100\<rparr> :: multiboot_info"
  have "mmap_chain example_mmap (mmap_addr ?mbd + mmap_length ?mbd) (mmap_addr ?mbd)
      [example_mmap 0x100, example_mmap 0x118]"
    and "\<forall>e \<in> set [example_mmap 0x100, example_mmap 0x118]. mm_type e = MULTIBOOT_MEMORY_AVAILABLE \<and> addr_high e = 0 \<longrightarrow> region_ok e"
    by (simp_all add: example_mmap_def region_ok_def mm_base_def mm_limit_def)
  from pmm_frames_init_correct [OF this, of "0x100000" "0xC0120000"
      "\<lparr>page_frames_state_bitmap = \<lambda>_. 0, page_frames_len = 0, total_free_memory = 0, pre_frames = \<lambda>_. 0,
        allocate = 1, pframe = 0\<rparr>"]
  obtain s' where s': "pmm_frames_init example_mmap ?mbd 0x100000 0xC0120000
       \<lparr>page_frames_state_bitmap = \<lambda>_. 0, page_frames_len = 0, total_free_memory = 0, pre_frames = \<lambda>_. 0,
        allocate = 1, pframe = 0\<rparr> = Some s'"
    and free: "\<And>f. unat f < 2 ^ 20 \<Longrightarrow> \<not> internal_page_frames_state_bitmap_test f s' \<longleftrightarrow>
       (\<exists>e \<in> set [example_mmap 0x100, example_mmap 0x118]. mm_type e = MULTIBOOT_MEMORY_AVAILABLE \<and> frame_in f e) \<and> 256 \<le> unat f
       \<and> \<not> (unat (0x100000 :: u32) div 4096 \<le> unat f \<and> unat f \<le> unat (0xC0120000 - KERNEL_VIRT_OFFSET) div 4096)"
    by blast
  have "internal_page_frames_state_bitmap_test 0x120 s'" "\<not> internal_page_frames_state_bitmap_test 0x121 s'"
    using free [of "0x120"] free [of "0x121"] by (simp_all add: example_mmap_def frame_in_def mm_base_def mm_limit_def)
  with s' show ?thesis by blast
qed

end
