(* ===== verification/Vmm.thy ===== *)
theory Vmm
  imports Pmm
begin

text \<open>
  The virtual memory manager (\<open>memory_manager/vmm.c\<close>, \<open>vmm.h\<close>, \<open>paging.h\<close>): two-level i386 page
  tables in physical memory, reached by the kernel through the recursive entry 1023 of the page
  directory. The first part is the machine the code runs on (physical memory by frame and word, the
  page walk, the translation look-aside buffer), the second the C code, whose every access to a
  table goes through a virtual address and the machine's translation. The lemmas show that the
  recursive addresses reach the right words and that mapping and unmapping are map updates of the
  address space.
\<close>

section \<open>Page entries\<close>

text \<open>The bit-fields of \<open>Page\<close> and their layout in a word, the first field in the lowest bits.\<close>

record Page =
  present :: "1 word"
  rw :: "1 word"
  user :: "1 word"
  w_through :: "1 word"
  cache_dis :: "1 word"
  accessed :: "1 word"
  dirty :: "1 word"
  pat :: "1 word"
  global :: "1 word"
  available :: "3 word"
  frame :: "20 word"

definition Page_of_word :: "u32 \<Rightarrow> Page" where
  "Page_of_word w =
     \<lparr>present = ucast w, rw = ucast (drop_bit 1 w), user = ucast (drop_bit 2 w),
      w_through = ucast (drop_bit 3 w), cache_dis = ucast (drop_bit 4 w),
      accessed = ucast (drop_bit 5 w), dirty = ucast (drop_bit 6 w), pat = ucast (drop_bit 7 w),
      global = ucast (drop_bit 8 w), available = ucast (drop_bit 9 w), frame = ucast (drop_bit 12 w)\<rparr>"

definition word_of_Page :: "Page \<Rightarrow> u32" where
  "word_of_Page p =
     ucast (present p) OR push_bit 1 (ucast (rw p)) OR push_bit 2 (ucast (user p))
     OR push_bit 3 (ucast (w_through p)) OR push_bit 4 (ucast (cache_dis p))
     OR push_bit 5 (ucast (accessed p)) OR push_bit 6 (ucast (dirty p)) OR push_bit 7 (ucast (pat p))
     OR push_bit 8 (ucast (global p)) OR push_bit 9 (ucast (available p)) OR push_bit 12 (ucast (frame p))"

section \<open>The machine\<close>

text \<open>A translation: the frame, and whether supervisor writes and user accesses are allowed.\<close>

record xlate =
  x_frame :: "20 word"
  x_write :: bool
  x_user :: bool

text \<open>Physical memory by frame and word, the directory register and the cached translations; and the
  global \<open>page_directory\<close> of \<open>paging.c\<close>.\<close>

record vmm = pmm +
  pmem :: "20 word \<Rightarrow> 10 word \<Rightarrow> u32"
  cr3 :: paddr
  tlb :: "20 word \<Rightarrow> xlate option"
  page_directory :: vaddr

definition PDX :: "vaddr \<Rightarrow> 10 word" where "PDX v = ucast (drop_bit 22 v)"
definition PTX :: "vaddr \<Rightarrow> 10 word" where "PTX v = ucast (drop_bit 12 v)"
definition VPN :: "vaddr \<Rightarrow> 20 word" where "VPN v = ucast (drop_bit 12 v)"
definition WDX :: "vaddr \<Rightarrow> 10 word" where "WDX v = ucast (drop_bit 2 v)"
definition frame_of :: "paddr \<Rightarrow> 20 word" where "frame_of p = ucast (drop_bit 12 p)"
definition frame_paddr :: "20 word \<Rightarrow> paddr" where "frame_paddr f = push_bit 12 (ucast f)"

text \<open>The page walk reads the hardware's bits of the two entries. Supervisor writes obey the \<open>rw\<close>
  bits, since \<open>boot.S\<close> sets CR0.WP with CR0.PG.\<close>

definition mmu_walk :: "'z vmm_scheme \<Rightarrow> vaddr \<Rightarrow> xlate option" where
  "mmu_walk s v =
     (let pde = pmem s (frame_of (cr3 s)) (PDX v)
      in if \<not> bit pde 0 then None
         else let pte = pmem s (ucast (drop_bit 12 pde)) (PTX v)
              in if \<not> bit pte 0 then None
                 else Some \<lparr>x_frame = ucast (drop_bit 12 pte), x_write = (bit pde 1 \<and> bit pte 1),
                            x_user = (bit pde 2 \<and> bit pte 2)\<rparr>)"

definition translate :: "'z vmm_scheme \<Rightarrow> vaddr \<Rightarrow> xlate option" where
  "translate s v = (case tlb s (VPN v) of Some x \<Rightarrow> Some x | None \<Rightarrow> mmu_walk s v)"

definition load_Page :: "vaddr \<Rightarrow> 'z vmm_scheme \<Rightarrow> (Page, 'z vmm_scheme) kres option" where
  "load_Page v s = (case translate s v of
       None \<Rightarrow> panicK (PageFault v)
     | Some x \<Rightarrow> retK (Page_of_word (pmem s (x_frame x) (WDX v))) s)"

definition set_pmem :: "20 word \<Rightarrow> (10 word \<Rightarrow> u32) \<Rightarrow> 'z vmm_scheme \<Rightarrow> 'z vmm_scheme" where
  "set_pmem f c s = s\<lparr>pmem := (pmem s)(f := c)\<rparr>"

definition update_Page :: "vaddr \<Rightarrow> (Page \<Rightarrow> Page) \<Rightarrow> 'z vmm_scheme \<Rightarrow> (unit, 'z vmm_scheme) kres option" where
  "update_Page v g s = (case translate s v of
       None \<Rightarrow> panicK (PageFault v)
     | Some x \<Rightarrow> if \<not> x_write x then panicK (PageFault v)
         else retK () (set_pmem (x_frame x) ((pmem s (x_frame x))(WDX v :=
                word_of_Page (g (Page_of_word (pmem s (x_frame x) (WDX v)))))) s))"

text \<open>\<open>memset (p, 0, PAGE_SIZE)\<close> on a page-aligned address: one translation, 1024 zero words.\<close>

definition clear_page :: "vaddr \<Rightarrow> 'z vmm_scheme \<Rightarrow> (unit, 'z vmm_scheme) kres option" where
  "clear_page v s = (case translate s v of
       None \<Rightarrow> panicK (PageFault v)
     | Some x \<Rightarrow> if \<not> x_write x then panicK (PageFault v) else retK () (set_pmem (x_frame x) (\<lambda>_. 0) s))"

definition tlb_flush :: "vaddr \<Rightarrow> 'z vmm_scheme \<Rightarrow> 'z vmm_scheme" where
  "tlb_flush v s = s\<lparr>tlb := (tlb s)(VPN v := None)\<rparr>"

section \<open>The code\<close>

abbreviation (input) ENOMEM :: int where "ENOMEM \<equiv> 12"
abbreviation (input) PT_BASE_VADDR :: vaddr where "PT_BASE_VADDR \<equiv> 0xFFC00000"
abbreviation (input) PD_BASE_VADDR :: vaddr where "PD_BASE_VADDR \<equiv> 0xFFFFF000"
abbreviation (input) PAGE_MASK :: u32 where "PAGE_MASK \<equiv> NOT (PAGE_SIZE - 1)"

definition GET_PTE_PTR :: "vaddr \<Rightarrow> vaddr" where
  "GET_PTE_PTR addr = PT_BASE_VADDR + drop_bit 12 addr * 4"

definition GET_PDE_PTR :: "vaddr \<Rightarrow> vaddr" where
  "GET_PDE_PTR addr = PD_BASE_VADDR + drop_bit 22 addr * 4"

definition P2V :: "paddr \<Rightarrow> vaddr" where "P2V addr = addr + KERNEL_VIRT_OFFSET"
definition V2P :: "vaddr \<Rightarrow> paddr" where "V2P addr = addr - KERNEL_VIRT_OFFSET"

text \<open>The block of \<open>vmm_page_map\<close> that creates a missing table; \<open>False\<close> is its \<open>return ENOMEM\<close>.\<close>

definition vmm_create_table :: "vaddr \<Rightarrow> 'z vmm_scheme \<Rightarrow> (bool, 'z vmm_scheme) kres option" where
  "vmm_create_table virt s =
     (case pmm_alloc_page s of (new_table_phys, s) \<Rightarrow>
        if new_table_phys = NULL then retK False s
        else bindK (update_Page (GET_PDE_PTR virt)
               (\<lambda>p. p\<lparr>present := 1, rw := 1, user := 1, frame := ucast (drop_bit 12 new_table_phys)\<rparr>) s) (\<lambda>_ s.
             let page_table_virt_start = GET_PTE_PTR virt AND PAGE_MASK
             in bindK (clear_page page_table_virt_start (tlb_flush page_table_virt_start s)) (\<lambda>_ s.
                retK True s)))"

definition vmm_page_map :: "paddr \<Rightarrow> vaddr \<Rightarrow> u32 \<Rightarrow> 'z vmm_scheme \<Rightarrow> (int, 'z vmm_scheme) kres option" where
  "vmm_page_map phys virt flags s =
     bindK (load_Page (GET_PDE_PTR virt) s) (\<lambda>page_directory_entry s.
     bindK (if present page_directory_entry = 0 then vmm_create_table virt s else retK True s) (\<lambda>ok s.
     if \<not> ok then retK ENOMEM s
     else bindK (update_Page (GET_PTE_PTR virt)
            (\<lambda>p. p\<lparr>present := 1, rw := (if flags AND 2 \<noteq> 0 then 1 else 0),
                   user := (if flags AND 4 \<noteq> 0 then 1 else 0), frame := ucast (drop_bit 12 phys)\<rparr>) s) (\<lambda>_ s.
          retK 0 (tlb_flush virt s))))"

definition vmm_page_unmap :: "vaddr \<Rightarrow> 'z vmm_scheme \<Rightarrow> (int, 'z vmm_scheme) kres option" where
  "vmm_page_unmap virt s =
     bindK (load_Page (GET_PDE_PTR virt) s) (\<lambda>page_directory_entry s.
     if present page_directory_entry = 0 then retK (-1) s
     else bindK (load_Page (GET_PTE_PTR virt) s) (\<lambda>page_table_entry s.
          if present page_table_entry = 0 then retK 0 s
          else bindK (update_Page (GET_PTE_PTR virt) (\<lambda>p. p\<lparr>present := 0, frame := 0\<rparr>) s) (\<lambda>_ s.
               retK 0 (tlb_flush virt s))))"

text \<open>The loop of \<open>vmm_page_map_range\<close>, by the number of iterations left.\<close>

primrec vmm_page_map_range_loop ::
  "nat \<Rightarrow> paddr \<Rightarrow> vaddr \<Rightarrow> u32 \<Rightarrow> 'z vmm_scheme \<Rightarrow> (int, 'z vmm_scheme) kres option" where
  "vmm_page_map_range_loop 0 phys_start virt_start flags s = retK 0 s"
| "vmm_page_map_range_loop (Suc n) phys_start virt_start flags s =
     bindK (vmm_page_map phys_start virt_start flags s) (\<lambda>res s.
     if res \<noteq> 0 then retK 1 s else vmm_page_map_range_loop n phys_start virt_start flags s)"

definition vmm_page_map_range ::
  "paddr \<Rightarrow> vaddr \<Rightarrow> size_t \<Rightarrow> u32 \<Rightarrow> 'z vmm_scheme \<Rightarrow> (int, 'z vmm_scheme) kres option" where
  "vmm_page_map_range phys_start virt_start count flags s =
     vmm_page_map_range_loop (unat count) phys_start virt_start flags s"

definition vmm_virt_to_phys :: "vaddr \<Rightarrow> paddr" where
  "vmm_virt_to_phys virt = V2P virt"

section \<open>Layout and recursive addresses\<close>

lemma word1_cases: "(x :: 1 word) = 0 \<or> x = 1"
  using unsigned_less [of x, where ?'a = nat] by (auto simp: word_unat_eq_iff less_2_cases_iff)

lemma bit_1word: "bit (x :: 1 word) n \<longleftrightarrow> n = 0 \<and> x \<noteq> 0"
  using word1_cases [of x] by (auto simp: bit_1_iff)

lemma bit_word_bound: "bit (x :: 'a::len word) n \<Longrightarrow> n < LENGTH('a)"
  by (rule bit_imp_le_length)

lemma bit_word_of_Page:
  "bit (word_of_Page p) n \<longleftrightarrow>
     (if n < 9 then [present p, rw p, user p, w_through p, cache_dis p, accessed p, dirty p, pat p, global p] ! n \<noteq> 0
      else if n < 12 then bit (available p) (n - 9) else bit (frame p) (n - 12))"
proof -
  consider "n < 9" | "9 \<le> n" "n < 12" | "12 \<le> n" by linarith
  then show ?thesis
  proof cases
    case 1
    then have "n = 0 \<or> n = 1 \<or> n = 2 \<or> n = 3 \<or> n = 4 \<or> n = 5 \<or> n = 6 \<or> n = 7 \<or> n = 8" by linarith
    then show ?thesis
      unfolding word_of_Page_def bit_or_iff bit_push_bit_iff bit_ucast_iff bit_1word
      by (elim disjE) simp_all
  next
    case 2
    then show ?thesis
      unfolding word_of_Page_def bit_or_iff bit_push_bit_iff bit_ucast_iff bit_1word by simp auto
  next
    case 3
    then show ?thesis
      unfolding word_of_Page_def bit_or_iff bit_push_bit_iff bit_ucast_iff bit_1word
      by simp (auto dest: bit_word_bound)
  qed
qed

lemma ucast_1word_eq: "ucast (drop_bit k (w :: u32)) = (x :: 1 word) \<longleftrightarrow> (bit w k \<longleftrightarrow> x \<noteq> 0)"
proof -
  have "ucast (drop_bit k w) \<noteq> (0 :: 1 word) \<longleftrightarrow> bit w k"
    using bit_1word [of "ucast (drop_bit k w)" 0] by (simp add: bit_ucast_iff bit_drop_bit_eq del: drop_bit_numeral_bit1)
  moreover have "y = x \<longleftrightarrow> (y \<noteq> 0 \<longleftrightarrow> x \<noteq> 0)" for y
    using word1_cases [of x] word1_cases [of y] by auto
  ultimately show ?thesis by blast
qed

lemma frame_word_of_Page [simp]: "ucast (drop_bit 12 (word_of_Page p)) = frame p"
  by (rule bit_word_eqI) (auto simp: bit_ucast_iff bit_drop_bit_eq bit_word_of_Page)

lemma Page_of_word_fields:
  "present (Page_of_word w) = 0 \<longleftrightarrow> \<not> bit w 0" "frame (Page_of_word w) = ucast (drop_bit 12 w)"
  using ucast_1word_eq [of 0 w 0] by (simp_all add: Page_of_word_def)

lemma Page_of_word_of_Page [simp]: "Page_of_word (word_of_Page p) = p"
proof -
  have "ucast (drop_bit 9 (word_of_Page p)) = available p"
    by (rule bit_word_eqI) (auto simp: bit_ucast_iff bit_drop_bit_eq bit_word_of_Page)
  moreover have "ucast (word_of_Page p) = present p"
    using ucast_1word_eq [of 0 "word_of_Page p" "present p"] by (simp add: bit_word_of_Page)
  ultimately show ?thesis
    by (cases p) (simp add: Page_of_word_def ucast_1word_eq bit_word_of_Page del: drop_bit_numeral_bit1)
qed

lemma unat_PTE_PTR: "unat (GET_PTE_PTR v) = 0xFFC00000 + unat v div 4096 * 4"
proof -
  have "unat v div 4096 < 1048576" using unat_lt32 [of v] by (simp add: less_mult_imp_div_less)
  then show ?thesis
    by (simp add: GET_PTE_PTR_def unat_word_ariths unat_drop_bit_eq drop_bit_eq_div)
qed

lemma unat_PDE_PTR: "unat (GET_PDE_PTR v) = 0xFFFFF000 + unat v div 4194304 * 4"
proof -
  have "unat v div 4194304 < 1024" using unat_lt32 [of v] by (simp add: less_mult_imp_div_less)
  then show ?thesis
    by (simp add: GET_PDE_PTR_def unat_word_ariths unat_drop_bit_eq drop_bit_eq_div)
qed

lemma unat_parts:
  "unat (PDX v) = unat v div 4194304" "unat (PTX v) = unat v div 4096 mod 1024"
  "unat (VPN v) = unat v div 4096" "unat (WDX v) = unat v div 4 mod 1024"
  using unat_lt32 [of v]
  by (simp_all add: PDX_def PTX_def VPN_def WDX_def unat_div drop_bit_eq_div unsigned_ucast_eq
      take_bit_eq_mod less_mult_imp_div_less)


lemma recursive_arith:
  fixes x :: nat
  shows "(0xFFC00000 + x * 4) div 4096 = x div 1024 + 1047552" "(0xFFC00000 + x * 4) div 4 mod 1024 = x mod 1024"
    "x < 1024 \<Longrightarrow> (0xFFFFF000 + x * 4) div 4096 = 1048575" "(0xFFFFF000 + x * 4) div 4 mod 1024 = x mod 1024"
proof -
  have a: "0xFFC00000 + x * 4 = (x + 1047552 * 1024) * 4" "0xFFFFF000 + x * 4 = (x + 1048575 * 1024) * 4" by simp_all
  have d: "y * 4 div 4096 = y div 1024" for y :: nat using div_mult_mult2 [of 4 y 1024] by simp
  show "(0xFFC00000 + x * 4) div 4096 = x div 1024 + 1047552" "(0xFFC00000 + x * 4) div 4 mod 1024 = x mod 1024"
    unfolding a d by (simp_all only: div_mult_self1 div_mult_self_is_m mod_mult_self1)
  show "(0xFFFFF000 + x * 4) div 4 mod 1024 = x mod 1024"
    unfolding a by (simp only: div_mult_self_is_m mod_mult_self1)
  assume "x < 1024"
  then show "(0xFFFFF000 + x * 4) div 4096 = 1048575"
    unfolding a d by (simp only: div_mult_self1)
qed

lemma div_4M: "(n :: nat) div 4194304 = n div 4096 div 1024"
  by (simp add: div_mult2_eq)

lemma PTE_PTR_parts [simp]: "PDX (GET_PTE_PTR v) = 1023" "PTX (GET_PTE_PTR v) = PDX v" "WDX (GET_PTE_PTR v) = PTX v"
  and PDE_PTR_parts [simp]: "PDX (GET_PDE_PTR v) = 1023" "PTX (GET_PDE_PTR v) = 1023" "WDX (GET_PDE_PTR v) = PDX v"
proof -
  have v: "unat v div 4096 div 1024 < 1024"
    using unat_lt32 [of v] by (simp add: less_mult_imp_div_less)
  have eq10: "a = b \<longleftrightarrow> unat a = unat b" for a b :: "10 word" by (rule word_unat_eq_iff)
  have m: "(k + 1047552) mod 1024 = k" "(k + 1047552) div 1024 = 1023" if "k < 1024" for k :: nat
    using that mod_mult_self1 [of k 1023 1024] div_mult_self1 [of 1024 k 1023] by simp_all
  show "PDX (GET_PTE_PTR v) = 1023" "PTX (GET_PTE_PTR v) = PDX v" "WDX (GET_PTE_PTR v) = PTX v"
    unfolding eq10 unat_parts unat_PTE_PTR div_4M recursive_arith m [OF v] by simp_all
  show "PDX (GET_PDE_PTR v) = 1023" "PTX (GET_PDE_PTR v) = 1023" "WDX (GET_PDE_PTR v) = PDX v"
    using v unfolding eq10 unat_parts unat_PDE_PTR div_4M recursive_arith recursive_arith(3) [OF v] by simp_all
qed

lemma VPN_eq_iff: "VPN v = VPN w \<longleftrightarrow> PDX v = PDX w \<and> PTX v = PTX w"
proof -
  have "a = b \<longleftrightarrow> a div 1024 = b div 1024 \<and> a mod 1024 = b mod 1024" for a b :: nat
    by (metis div_mult_mod_eq)
  then show ?thesis
    unfolding word_unat_eq_iff unat_parts div_4M by blast
qed

lemma div_eq_range: "0 < n \<Longrightarrow> x div n = k \<longleftrightarrow> k * n \<le> x \<and> x < k * n + n" for x n k :: nat
  by (metis add.commute div_nat_eqI div_times_less_eq_dividend dividend_less_div_times mult.commute mult_Suc_right)

lemma PDX_eq: "PDX v = k \<longleftrightarrow> unat k * 4194304 \<le> unat v \<and> unat v < unat k * 4194304 + 4194304"
  unfolding word_unat_eq_iff unat_parts by (rule div_eq_range) simp

lemma VPN_align [simp]: "VPN (v AND - 4096) = VPN v"
  by (simp add: word_unat_eq_iff unat_parts unat_align_page)

lemma frame_of_paddr [simp]: "frame_of (frame_paddr f) = f"
  by (rule bit_word_eqI) (auto simp: frame_of_def frame_paddr_def bit_simps)

lemma unat_frame_of: "unat (frame_of p) = unat p div 4096"
  using unat_parts(3) [of p] by (simp add: VPN_def frame_of_def)

lemma frame_paddr_of: "page_aligned p \<Longrightarrow> frame_paddr (frame_of p) = p"
proof -
  have "frame_paddr (frame_of p) = p AND - 4096"
    using and_not_mask_eq [of p 12]
    by (intro bit_word_eqI) (auto simp: frame_of_def frame_paddr_def bit_simps mask_eq_exp_minus_1)
  moreover assume "page_aligned p"
  then have "p AND - 4096 = p"
    by (auto simp: word_unat_eq_iff [where 'a = 32] unat_align_page page_aligned_def)
  ultimately show ?thesis by simp
qed

section \<open>Translation\<close>

abbreviation pde :: "'z vmm_scheme \<Rightarrow> 10 word \<Rightarrow> u32" where
  "pde s i \<equiv> pmem s (frame_of (cr3 s)) i"

abbreviation table :: "'z vmm_scheme \<Rightarrow> 10 word \<Rightarrow> 20 word" where
  "table s i \<equiv> ucast (drop_bit 12 (pde s i))"

definition recursive :: "'z vmm_scheme \<Rightarrow> bool" where
  "recursive s \<longleftrightarrow> bit (pde s 1023) 0 \<and> bit (pde s 1023) 1 \<and> table s 1023 = frame_of (cr3 s)"

definition tlb_coherent :: "'z vmm_scheme \<Rightarrow> bool" where
  "tlb_coherent s \<longleftrightarrow> (\<forall>v x. tlb s (VPN v) = Some x \<longrightarrow> mmu_walk s v = Some x)"

lemma translate_walk: "tlb_coherent s \<Longrightarrow> translate s v = mmu_walk s v"
  by (auto simp: translate_def tlb_coherent_def split: option.split)

lemma walk_PDE: "recursive s \<Longrightarrow>
  mmu_walk s (GET_PDE_PTR v) = Some \<lparr>x_frame = frame_of (cr3 s), x_write = True, x_user = bit (pde s 1023) 2\<rparr>"
  by (simp add: mmu_walk_def recursive_def Let_def)

lemma walk_PTE: "recursive s \<Longrightarrow> bit (pde s (PDX v)) 0 \<Longrightarrow> bit (pde s (PDX v)) 1 \<Longrightarrow>
  mmu_walk s (GET_PTE_PTR v) = Some \<lparr>x_frame = table s (PDX v), x_write = True,
    x_user = (bit (pde s 1023) 2 \<and> bit (pde s (PDX v)) 2)\<rparr>"
  by (simp add: mmu_walk_def recursive_def Let_def)

lemma walk_VPN: "VPN v = VPN w \<Longrightarrow> mmu_walk s v = mmu_walk s w"
  by (simp add: VPN_eq_iff mmu_walk_def Let_def)


lemma vmm_simps [simp]:
  "pmem (set_pmem f c s) = (pmem s)(f := c)" "cr3 (set_pmem f c s) = cr3 s" "tlb (set_pmem f c s) = tlb s"
  "vmm.more (set_pmem f c s) = vmm.more s"
  "pmem (tlb_flush v s) = pmem s" "cr3 (tlb_flush v s) = cr3 s" "tlb (tlb_flush v s) = (tlb s)(VPN v := None)"
  "vmm.more (tlb_flush v s) = vmm.more s"
  by (simp_all add: set_pmem_def tlb_flush_def)

lemma pmm_frame [simp]:
  "pmm_inv (set_pmem f c s) = pmm_inv s" "outstanding (set_pmem f c s) = outstanding s"
  "pmm_inv (tlb_flush v s) = pmm_inv s" "outstanding (tlb_flush v s) = outstanding s"
  by (simp_all add: pmm_inv_def outstanding_def used_frames_def cached_def used_iff set_pmem_def tlb_flush_def)

lemma walk_flush [simp]: "mmu_walk (tlb_flush v s) w = mmu_walk s w"
  by (simp add: mmu_walk_def Let_def)

lemma walk_cong: "pmem s = pmem t \<Longrightarrow> cr3 s = cr3 t \<Longrightarrow> mmu_walk s v = mmu_walk t v"
  by (simp add: mmu_walk_def Let_def)

lemma pmm_more_vmm:
  assumes "pmm.more t = pmm.more s"
  shows "pmem t = pmem s" "cr3 t = cr3 s" "tlb t = tlb s" "vmm.more t = vmm.more s"
  using assms by (cases s; cases t; simp)+

lemma tlb_coherent_mono:
  assumes "tlb_coherent s" and "\<And>v. tlb s' (VPN v) \<noteq> None \<Longrightarrow> tlb s' (VPN v) = tlb s (VPN v)"
    and "\<And>v x. tlb s' (VPN v) \<noteq> None \<Longrightarrow> mmu_walk s v = Some x \<Longrightarrow> mmu_walk s' v = Some x"
  shows "tlb_coherent s'"
  using assms unfolding tlb_coherent_def by (metis option.distinct(1))

lemma access_PDE:
  assumes "tlb_coherent s" and "recursive s"
  shows "load_Page (GET_PDE_PTR v) s = retK (Page_of_word (pde s (PDX v))) s"
    and "update_Page (GET_PDE_PTR v) g s = retK () (set_pmem (frame_of (cr3 s))
           ((pmem s (frame_of (cr3 s)))(PDX v := word_of_Page (g (Page_of_word (pde s (PDX v)))))) s)"
  using assms by (simp_all add: load_Page_def update_Page_def translate_walk walk_PDE)

lemma access_PTE:
  assumes "tlb_coherent s" and "recursive s" and "bit (pde s (PDX v)) 0" and "bit (pde s (PDX v)) 1"
  shows "load_Page (GET_PTE_PTR v) s = retK (Page_of_word (pmem s (table s (PDX v)) (PTX v))) s"
    and "update_Page (GET_PTE_PTR v) g s = retK () (set_pmem (table s (PDX v))
           ((pmem s (table s (PDX v)))(PTX v := word_of_Page (g (Page_of_word (pmem s (table s (PDX v)) (PTX v)))))) s)"
    and "clear_page (GET_PTE_PTR v AND - 4096) s = retK () (set_pmem (table s (PDX v)) (\<lambda>_. 0) s)"
  using assms walk_VPN [of "GET_PTE_PTR v AND - 4096" "GET_PTE_PTR v" s]
  by (simp_all add: load_Page_def update_Page_def clear_page_def translate_walk walk_PTE)

section \<open>The invariant\<close>

text \<open>
  The page directory is reached through its last entry; every table is writable by the kernel, is
  not the directory, and is an outstanding frame of the frame allocator; two entries share a table
  only if they are the identity mapping (0) and the higher half (768) set up at boot; tables that
  \<open>vmm_page_map\<close> creates are open to user accesses; cached translations are those of the tables.
\<close>

definition tables_ok :: "'z vmm_scheme \<Rightarrow> bool" where
  "tables_ok s \<longleftrightarrow> recursive s
     \<and> (\<forall>i. bit (pde s i) 0 \<longrightarrow> bit (pde s i) 1 \<and> frame_paddr (table s i) \<in> outstanding s
            \<and> (i \<noteq> 1023 \<longrightarrow> table s i \<noteq> frame_of (cr3 s)) \<and> (i \<notin> {0, 768, 1023} \<longrightarrow> bit (pde s i) 2))
     \<and> (\<forall>i j. bit (pde s i) 0 \<and> bit (pde s j) 0 \<and> table s i = table s j \<longrightarrow> i = j \<or> {i, j} = {0, 768})"

definition vmm_inv :: "'z vmm_scheme \<Rightarrow> bool" where
  "vmm_inv s \<longleftrightarrow> pmm_inv s \<and> tables_ok s \<and> tlb_coherent s"

text \<open>What an entry of a table translates to.\<close>

definition pte_xlate :: "u32 \<Rightarrow> u32 \<Rightarrow> xlate option" where
  "pte_xlate d e = (if \<not> bit e 0 then None
     else Some \<lparr>x_frame = ucast (drop_bit 12 e), x_write = (bit d 1 \<and> bit e 1), x_user = (bit d 2 \<and> bit e 2)\<rparr>)"

lemma mmu_walk_pte: "mmu_walk s v =
  (if bit (pde s (PDX v)) 0 then pte_xlate (pde s (PDX v)) (pmem s (table s (PDX v)) (PTX v)) else None)"
  by (simp add: mmu_walk_def pte_xlate_def Let_def)

definition set_pte :: "vaddr \<Rightarrow> u32 \<Rightarrow> 'z vmm_scheme \<Rightarrow> 'z vmm_scheme" where
  "set_pte v w s = set_pmem (table s (PDX v)) ((pmem s (table s (PDX v)))(PTX v := w)) s"

lemma set_pte_simps [simp]:
  "cr3 (set_pte v w s) = cr3 s" "tlb (set_pte v w s) = tlb s" "vmm.more (set_pte v w s) = vmm.more s"
  "pmm_inv (set_pte v w s) = pmm_inv s" "outstanding (set_pte v w s) = outstanding s"
  by (simp_all add: set_pte_def)

text \<open>Writing an entry of a table that is not shared changes the translation of its page only.\<close>

lemma set_pte_pde:
  assumes "tables_ok s" and "bit (pde s (PDX v)) 0" and "PDX v \<noteq> 1023"
  shows "pmem (set_pte v w s) (frame_of (cr3 s)) i = pde s i"
  using assms by (auto simp: tables_ok_def set_pte_def)

lemma set_pte_walk:
  assumes "tables_ok s" and "bit (pde s (PDX v)) 0" and "PDX v \<notin> {0, 768, 1023}"
  shows "mmu_walk (set_pte v w s) u = (if VPN u = VPN v then pte_xlate (pde s (PDX v)) w else mmu_walk s u)"
proof -
  have "PDX u = PDX v" if "bit (pde s (PDX u)) 0" "table s (PDX u) = table s (PDX v)"
    using assms that unfolding tables_ok_def by (metis doubleton_eq_iff insertCI)
  moreover have "pmem (set_pte v w s) (table s i) j =
      (if table s i = table s (PDX v) \<and> j = PTX v then w else pmem s (table s i) j)" for i j
    by (simp add: set_pte_def)
  ultimately show ?thesis
    using assms by (auto simp: mmu_walk_pte VPN_eq_iff set_pte_pde)
qed

lemma set_pte_inv:
  assumes "vmm_inv s" and "bit (pde s (PDX v)) 0" and "PDX v \<notin> {0, 768, 1023}"
  shows "vmm_inv (tlb_flush v (set_pte v w s))"
proof -
  have "tables_ok s" using assms(1) by (simp add: vmm_inv_def)
  note pde = set_pte_pde [OF this assms(2)] and walk = set_pte_walk [OF this assms(2,3)]
  have "tables_ok (tlb_flush v (set_pte v w s))"
    using \<open>tables_ok s\<close> assms(3) by (simp add: tables_ok_def recursive_def pde)
  moreover have "tlb_coherent (tlb_flush v (set_pte v w s))"
  proof (rule tlb_coherent_mono)
    show "tlb_coherent s" using assms(1) by (simp add: vmm_inv_def)
  qed (simp_all add: walk split: if_splits)
  ultimately show ?thesis using assms(1) by (simp add: vmm_inv_def)
qed


text \<open>Filling an entry of the directory that was not present keeps every translation there is.\<close>

lemma set_pde_walk:
  assumes "\<not> bit (pde s i) 0" and "mmu_walk s v = Some x"
  shows "mmu_walk (set_pmem (frame_of (cr3 s)) ((pmem s (frame_of (cr3 s)))(i := w)) s) v = Some x"
proof -
  have "PDX v \<noteq> i" "table s (PDX v) = frame_of (cr3 s) \<Longrightarrow> PTX v \<noteq> i"
    using assms by (auto simp: mmu_walk_pte pte_xlate_def split: if_splits)
  then show ?thesis using assms(2) by (auto simp: mmu_walk_pte split: if_splits)
qed

text \<open>A new, cleared table in an unused entry of the directory.\<close>

definition new_table :: "10 word \<Rightarrow> u32 \<Rightarrow> 'z vmm_scheme \<Rightarrow> 'z vmm_scheme" where
  "new_table i w s = set_pmem (ucast (drop_bit 12 w)) (\<lambda>_. 0)
     (set_pmem (frame_of (cr3 s)) ((pmem s (frame_of (cr3 s)))(i := w)) s)"

lemma new_table_simps [simp]:
  "cr3 (new_table i w s) = cr3 s" "tlb (new_table i w s) = tlb s" "vmm.more (new_table i w s) = vmm.more s"
  "pmm_inv (new_table i w s) = pmm_inv s" "outstanding (new_table i w s) = outstanding s"
  by (simp_all add: new_table_def)

definition fresh_frame :: "20 word \<Rightarrow> 'z vmm_scheme \<Rightarrow> bool" where
  "fresh_frame f s \<longleftrightarrow> (\<forall>i. bit (pde s i) 0 \<longrightarrow> table s i \<noteq> f)"

lemma fresh_frame_cr3: "tables_ok s \<Longrightarrow> fresh_frame f s \<Longrightarrow> f \<noteq> frame_of (cr3 s)"
  by (auto simp: tables_ok_def recursive_def fresh_frame_def)

lemma new_table_pde:
  "tables_ok s \<Longrightarrow> fresh_frame (ucast (drop_bit 12 w)) s \<Longrightarrow>
   pmem (new_table i w s) (frame_of (cr3 s)) j = (if j = i then w else pde s j)"
  using fresh_frame_cr3 [of s "ucast (drop_bit 12 w)"] by (auto simp: new_table_def)

lemma new_table_cleared: "pmem (new_table i w s) (ucast (drop_bit 12 w)) j = 0"
  by (simp add: new_table_def)

lemma new_table_walk:
  assumes "tables_ok s" and "\<not> bit (pde s i) 0" and "fresh_frame (ucast (drop_bit 12 w)) s"
    and "mmu_walk s v = Some x"
  shows "mmu_walk (new_table i w s) v = Some x"
proof -
  have v: "bit (pde s (PDX v)) 0" "bit (pmem s (table s (PDX v)) (PTX v)) 0"
    using assms(4) by (auto simp: mmu_walk_pte pte_xlate_def split: if_splits)
  then have "table s (PDX v) \<noteq> ucast (drop_bit 12 w)" "PDX v \<noteq> i"
    "table s (PDX v) = frame_of (cr3 s) \<Longrightarrow> PTX v \<noteq> i"
    using assms(2,3) by (auto simp: fresh_frame_def)
  then have "pmem (new_table i w s) (table s (PDX v)) (PTX v) = pmem s (table s (PDX v)) (PTX v)"
    by (auto simp: new_table_def)
  then show ?thesis
    using assms v \<open>PDX v \<noteq> i\<close> by (simp add: mmu_walk_pte new_table_pde)
qed

lemma new_table_none:
  assumes "tables_ok s" and "fresh_frame (ucast (drop_bit 12 w)) s" and "PDX v \<noteq> 1023" and "mmu_walk s v = None"
    and "\<not> bit (pde s i) 0"
  shows "mmu_walk (new_table i w s) v = None"
proof (cases "PDX v = i \<or> \<not> bit (pde s (PDX v)) 0")
  case True
  then show ?thesis using assms by (auto simp: mmu_walk_pte new_table_pde new_table_cleared pte_xlate_def)
next
  case False
  then have "table s (PDX v) \<noteq> frame_of (cr3 s)" "table s (PDX v) \<noteq> ucast (drop_bit 12 w)"
    using assms by (auto simp: tables_ok_def fresh_frame_def)
  then have "pmem (new_table i w s) (table s (PDX v)) = pmem s (table s (PDX v))"
    by (simp add: new_table_def)
  with False assms show ?thesis by (simp add: mmu_walk_pte new_table_pde)
qed

lemma new_table_inv:
  assumes "vmm_inv s" and "\<not> bit (pde s i) 0" and "fresh_frame (ucast (drop_bit 12 w)) s"
    and "bit w 0" "bit w 1" "bit w 2" and "frame_paddr (ucast (drop_bit 12 w)) \<in> outstanding s"
  shows "vmm_inv (tlb_flush u (new_table i w s))"
proof -
  have t: "tables_ok s" using assms(1) by (simp add: vmm_inv_def)
  note pde = new_table_pde [OF t assms(3)]
  have i: "i \<noteq> 1023" using t assms(2) by (auto simp: tables_ok_def recursive_def)
  have fresh: "table s j \<noteq> ucast (drop_bit 12 w)" if "bit (pde s j) 0" for j
    using that assms(3) by (simp add: fresh_frame_def)
  have "tables_ok (tlb_flush u (new_table i w s))"
    unfolding tables_ok_def
  proof (intro conjI allI impI)
    show "recursive (tlb_flush u (new_table i w s))"
      using t i by (simp add: tables_ok_def recursive_def pde)
  next
    fix j k
    assume "bit (pde (tlb_flush u (new_table i w s)) j) 0 \<and> bit (pde (tlb_flush u (new_table i w s)) k) 0
      \<and> table (tlb_flush u (new_table i w s)) j = table (tlb_flush u (new_table i w s)) k"
    then show "j = k \<or> {j, k} = {0, 768}"
      using t fresh [of j] fresh [of k] by (auto simp: tables_ok_def pde split: if_splits)
  qed (use t assms(4-7) fresh_frame_cr3 [OF t assms(3)] in \<open>auto simp: tables_ok_def pde split: if_splits\<close>)
  moreover have "tlb_coherent (tlb_flush u (new_table i w s))"
  proof (rule tlb_coherent_mono)
    show "tlb_coherent s" using assms(1) by (simp add: vmm_inv_def)
  qed (simp_all add: new_table_walk [OF t assms(2,3)] split: if_splits)
  ultimately show ?thesis using assms(1) by (simp add: vmm_inv_def)
qed


section \<open>The address space\<close>

text \<open>The abstract state: what each page outside the recursive window translates to.\<close>

definition address_space :: "'z vmm_scheme \<Rightarrow> 20 word \<Rightarrow> xlate option" where
  "address_space s n = (if PDX (frame_paddr n) = 1023 then None else mmu_walk s (frame_paddr n))"

lemma VPN_frame_paddr [simp]: "VPN (frame_paddr n) = n"
  using frame_of_paddr [of n] by (simp add: VPN_def frame_of_def)

lemma address_space_VPN: "address_space s (VPN v) = (if PDX v = 1023 then None else mmu_walk s v)"
  using walk_VPN [of "frame_paddr (VPN v)" v s] VPN_eq_iff [of "frame_paddr (VPN v)" v]
  by (simp add: address_space_def)

lemma address_space_ext: "(\<And>v. PDX v \<noteq> 1023 \<Longrightarrow> mmu_walk s v = mmu_walk t v) \<Longrightarrow> address_space s = address_space t"
  by (auto simp: address_space_def)

lemma address_space_flush [simp]: "address_space (tlb_flush v s) = address_space s"
  by (simp add: address_space_def fun_eq_iff)

lemma set_pte_space:
  assumes "tables_ok s" and "bit (pde s (PDX v)) 0" and "PDX v \<notin> {0, 768, 1023}"
  shows "address_space (set_pte v w s) = (address_space s)(VPN v := pte_xlate (pde s (PDX v)) w)"
proof
  fix n
  show "address_space (set_pte v w s) n = ((address_space s)(VPN v := pte_xlate (pde s (PDX v)) w)) n"
    using assms(3) VPN_eq_iff [of "frame_paddr n" v]
    by (auto simp: address_space_def set_pte_walk [OF assms])
qed

lemma tables_ok_transfer:
  assumes "tables_ok s" and "pmem t = pmem s" and "cr3 t = cr3 s" and "outstanding s \<subseteq> outstanding t"
  shows "tables_ok t"
  using assms by (auto simp: tables_ok_def recursive_def subset_iff)

text \<open>Entering a fresh frame into the directory and clearing it through the recursive window.\<close>

lemma enter_table:
  assumes "vmm_inv t" and "\<not> bit (pde t (PDX virt)) 0" and "PDX virt \<notin> {0, 768, 1023}"
    and "fresh_frame (frame_of p) t" and "w = word_of_Page ((Page_of_word (pde t (PDX virt)))\<lparr>present := 1, rw := 1, user := 1, frame := frame_of p\<rparr>)"
  shows "\<exists>t1. update_Page (GET_PDE_PTR virt) (\<lambda>q. q\<lparr>present := 1, rw := 1, user := 1, frame := ucast (drop_bit 12 p)\<rparr>) t = retK () t1
    \<and> clear_page (GET_PTE_PTR virt AND - 4096) (tlb_flush (GET_PTE_PTR virt AND - 4096) t1)
      = retK () (tlb_flush (GET_PTE_PTR virt AND - 4096) (new_table (PDX virt) w t))"
proof -
  let ?u = "GET_PTE_PTR virt AND - 4096"
  have rec: "recursive t" using assms(1) by (simp add: vmm_inv_def tables_ok_def)
  have w: "bit w 0" "bit w 1" "bit w 2" "ucast (drop_bit 12 w) = frame_of p"
    unfolding assms(5) frame_word_of_Page bit_word_of_Page by simp_all
  define t1 where "t1 = set_pmem (frame_of (cr3 t)) ((pmem t (frame_of (cr3 t)))(PDX virt := w)) t"
  have "tlb_coherent (tlb_flush ?u t1)"
  proof (rule tlb_coherent_mono)
    show "tlb_coherent t" using assms(1) by (simp add: vmm_inv_def)
  next
    fix v x assume "mmu_walk t v = Some x"
    then show "mmu_walk (tlb_flush ?u t1) v = Some x" using set_pde_walk [OF assms(2)] by (simp add: t1_def)
  qed (auto simp: t1_def split: if_splits)
  moreover have "recursive (tlb_flush ?u t1)" using rec assms(3) by (auto simp: recursive_def t1_def)
  ultimately have "clear_page ?u (tlb_flush ?u t1) = retK () (tlb_flush ?u (new_table (PDX virt) w t))"
    using access_PTE(3) [of "tlb_flush ?u t1" virt] w
    by (simp add: t1_def new_table_def) (simp add: tlb_flush_def set_pmem_def)
  moreover have "update_Page (GET_PDE_PTR virt)
      (\<lambda>q. q\<lparr>present := 1, rw := 1, user := 1, frame := ucast (drop_bit 12 p)\<rparr>) t = retK () t1"
    using assms(1) rec by (simp add: access_PDE vmm_inv_def t1_def assms(5) frame_of_def)
  ultimately show ?thesis by blast
qed

lemma vmm_create_table_spec:
  assumes "vmm_inv s" and "\<not> bit (pde s (PDX virt)) 0" and "PDX virt \<notin> {0, 768, 1023}"
  shows "\<exists>ok s'. vmm_create_table virt s = retK ok s' \<and> vmm_inv s' \<and> cr3 s' = cr3 s \<and> vmm.more s' = vmm.more s
    \<and> outstanding s \<subseteq> outstanding s' \<and> address_space s' = address_space s
    \<and> (if ok then bit (pde s' (PDX virt)) 0 else fst (pmm_alloc_page s) = NULL \<and> pmem s' = pmem s)"
proof -
  obtain p t where alloc: "pmm_alloc_page s = (p, t)" by fastforce
  have inv: "pmm_inv s" and tab: "tables_ok s" and coh: "tlb_coherent s" using assms(1) by (simp_all add: vmm_inv_def)
  from pmm_alloc_page_cases [OF inv alloc] have "pmm_inv t" "pmm.more t = pmm.more s" by simp_all
  note same = pmm_more_vmm [OF this(2)]
  have sub: "outstanding s \<subseteq> outstanding t" using page_alloc.alloc_held_mono [OF inv alloc] .
  have "tlb_coherent t" using coh same by (simp add: tlb_coherent_def walk_cong [of t s])
  with \<open>pmm_inv t\<close> tables_ok_transfer [OF tab same(1,2) sub] have t: "vmm_inv t" by (simp add: vmm_inv_def)
  then have tt: "tables_ok t" by (simp add: vmm_inv_def)
  have space: "address_space t = address_space s" using same by (intro address_space_ext walk_cong)
  show ?thesis
  proof (cases "p = NULL")
    case True
    with alloc t same sub space show ?thesis by (auto simp: vmm_create_table_def)
  next
    case False
    with page_alloc.alloc_fresh [OF inv alloc] have p: "p \<notin> outstanding s" "p \<in> outstanding t" by auto
    then have al: "frame_paddr (frame_of p) = p" by (simp add: frame_paddr_of outstanding_def used_frames_def)
    define w where "w = word_of_Page ((Page_of_word (pde t (PDX virt)))\<lparr>present := 1, rw := 1, user := 1, frame := frame_of p\<rparr>)"
    have w: "bit w 0" "bit w 1" "bit w 2" "ucast (drop_bit 12 w) = frame_of p"
      unfolding w_def frame_word_of_Page bit_word_of_Page by simp_all
    have fp: "fresh_frame (frame_of p) t"
      unfolding fresh_frame_def
    proof (intro allI impI notI)
      fix i assume "bit (pde t i) 0" "table t i = frame_of p"
      with tab same have "frame_paddr (frame_of p) \<in> outstanding s" by (auto simp: tables_ok_def)
      with p(1) al show False by simp
    qed
    then have fresh: "fresh_frame (ucast (drop_bit 12 w)) t" unfolding w(4) .
    have np: "\<not> bit (pde t (PDX virt)) 0" using assms(2) same by simp
    let ?s = "tlb_flush (GET_PTE_PTR virt AND - 4096) (new_table (PDX virt) w t)"
    have eq: "vmm_create_table virt s = retK True ?s"
      using alloc False enter_table [OF t np assms(3) fp w_def] by (auto simp: vmm_create_table_def)
    have "vmm_inv ?s" using new_table_inv [OF t np fresh] w p(2) al by simp
    moreover have "mmu_walk (new_table (PDX virt) w t) v = mmu_walk t v" if "PDX v \<noteq> 1023" for v
      using new_table_walk [OF tt np fresh] new_table_none [OF tt fresh that _ np] by (cases "mmu_walk t v") auto
    then have "address_space ?s = address_space s"
      unfolding space [symmetric] by (intro address_space_ext) simp
    ultimately show ?thesis using eq same sub w new_table_pde [OF tt fresh, of "PDX virt" "PDX virt"] by auto
  qed
qed

definition page_xlate :: "paddr \<Rightarrow> u32 \<Rightarrow> xlate" where
  "page_xlate phys flags = \<lparr>x_frame = frame_of phys, x_write = (flags AND 2 \<noteq> 0), x_user = (flags AND 4 \<noteq> 0)\<rparr>"

text \<open>Writing the entry of a page whose table is present.\<close>

lemma update_PTE_spec:
  assumes "vmm_inv s" and "bit (pde s (PDX v)) 0" and "PDX v \<notin> {0, 768, 1023}"
  shows "\<exists>s'. update_Page (GET_PTE_PTR v) g s = retK () s' \<and> vmm_inv (tlb_flush v s') \<and> cr3 s' = cr3 s
    \<and> vmm.more s' = vmm.more s \<and> outstanding s' = outstanding s
    \<and> address_space s' = (address_space s)(VPN v :=
        pte_xlate (pde s (PDX v)) (word_of_Page (g (Page_of_word (pmem s (table s (PDX v)) (PTX v))))))"
proof -
  have s: "tlb_coherent s" "recursive s" "tables_ok s" "bit (pde s (PDX v)) 1"
    using assms(1,2) by (simp_all add: vmm_inv_def tables_ok_def)
  let ?w = "word_of_Page (g (Page_of_word (pmem s (table s (PDX v)) (PTX v))))"
  have "update_Page (GET_PTE_PTR v) g s = retK () (set_pte v ?w s)"
    using access_PTE(2) [OF s(1,2) assms(2) s(4)] by (simp add: set_pte_def)
  with set_pte_inv [OF assms] set_pte_space [OF s(3) assms(2,3)] show ?thesis by auto
qed

lemma vmm_page_map_spec:
  assumes "vmm_inv s" and "PDX virt \<notin> {0, 768, 1023}"
  shows "\<exists>r s'. vmm_page_map phys virt flags s = retK r s' \<and> vmm_inv s' \<and> cr3 s' = cr3 s \<and> vmm.more s' = vmm.more s
    \<and> outstanding s \<subseteq> outstanding s'
    \<and> (r = 0 \<and> address_space s' = (address_space s)(VPN virt \<mapsto> page_xlate phys flags)
       \<or> r = ENOMEM \<and> fst (pmm_alloc_page s) = NULL \<and> pmem s' = pmem s \<and> address_space s' = address_space s)"
proof -
  let ?g = "\<lambda>p. p\<lparr>present := 1, rw := (if flags AND 2 \<noteq> 0 then 1 else 0),
                   user := (if flags AND 4 \<noteq> 0 then 1 else 0), frame := ucast (drop_bit 12 phys)\<rparr>"
  have PTE: "\<exists>s'. update_Page (GET_PTE_PTR virt) ?g t = retK () s' \<and> vmm_inv (tlb_flush virt s') \<and> cr3 s' = cr3 t
      \<and> vmm.more s' = vmm.more t \<and> outstanding s' = outstanding t
      \<and> address_space s' = (address_space t)(VPN virt \<mapsto> page_xlate phys flags)"
    if "vmm_inv t" and p: "bit (pde t (PDX virt)) 0" for t :: "'a vmm_scheme"
  proof -
    have "bit (pde t (PDX virt)) 1" "bit (pde t (PDX virt)) 2"
      using that assms(2) by (auto simp: vmm_inv_def tables_ok_def)
    then have "pte_xlate (pde t (PDX virt)) (word_of_Page (?g q)) = Some (page_xlate phys flags)" for q
      unfolding pte_xlate_def page_xlate_def frame_of_def frame_word_of_Page bit_word_of_Page by simp
    then show ?thesis using update_PTE_spec [OF that assms(2), of ?g] by simp
  qed
  have load: "load_Page (GET_PDE_PTR virt) s = retK (Page_of_word (pde s (PDX virt))) s"
    using assms(1) by (simp add: access_PDE vmm_inv_def tables_ok_def)
  show ?thesis
  proof (cases "bit (pde s (PDX virt)) 0")
    case True
    with PTE [OF assms(1) True] load show ?thesis by (auto simp: vmm_page_map_def Page_of_word_fields)
  next
    case False
    from vmm_create_table_spec [OF assms(1) False assms(2)] obtain ok t where
      t: "vmm_create_table virt s = retK ok t" "vmm_inv t" "cr3 t = cr3 s" "vmm.more t = vmm.more s"
        "outstanding s \<subseteq> outstanding t" "address_space t = address_space s"
        "if ok then bit (pde t (PDX virt)) 0 else fst (pmm_alloc_page s) = NULL \<and> pmem t = pmem s" by blast
    show ?thesis
    proof (cases ok)
      case True
      with t have "bit (pde t (PDX virt)) 0" by simp
      from PTE [OF t(2) this] load t False True show ?thesis by (auto simp: vmm_page_map_def Page_of_word_fields)
    next
      case ok: False
      with load t False show ?thesis by (auto simp: vmm_page_map_def Page_of_word_fields)
    qed
  qed
qed

lemma vmm_page_unmap_spec:
  assumes "vmm_inv s" and "PDX virt \<notin> {0, 768, 1023}"
  shows "\<exists>s'. vmm_page_unmap virt s = retK (if bit (pde s (PDX virt)) 0 then 0 else -1) s' \<and> vmm_inv s' \<and> cr3 s' = cr3 s
    \<and> vmm.more s' = vmm.more s \<and> outstanding s' = outstanding s
    \<and> address_space s' = (address_space s)(VPN virt := None)"
proof -
  have s: "tlb_coherent s" "recursive s" using assms(1) by (simp_all add: vmm_inv_def tables_ok_def)
  note load = access_PDE(1) [OF s]
  have gone: "mmu_walk s virt = None \<Longrightarrow> (address_space s)(VPN virt := None) = address_space s"
    using address_space_VPN [of s virt] by auto
  show ?thesis
  proof (cases "bit (pde s (PDX virt)) 0")
    case False
    with load assms(1) gone show ?thesis by (simp add: vmm_page_unmap_def Page_of_word_fields mmu_walk_pte)
  next
    case True
    then have w: "bit (pde s (PDX virt)) 1" using assms(1) by (simp add: vmm_inv_def tables_ok_def)
    note pte = access_PTE(1) [OF s True w]
    show ?thesis
    proof (cases "bit (pmem s (table s (PDX virt)) (PTX virt)) 0")
      case False
      with True load pte assms(1) gone show ?thesis
        by (simp add: vmm_page_unmap_def Page_of_word_fields mmu_walk_pte pte_xlate_def)
    next
      case present: True
      have "pte_xlate d (word_of_Page (p\<lparr>present := 0, frame := 0\<rparr>)) = None" for d p
        unfolding pte_xlate_def bit_word_of_Page by simp
      with update_PTE_spec [OF assms(1) True assms(2), of "\<lambda>p. p\<lparr>present := 0, frame := 0\<rparr>"] True present load pte
      show ?thesis by (auto simp: vmm_page_unmap_def Page_of_word_fields)
    qed
  qed
qed


text \<open>The rest of the kernel's state does not matter here.\<close>

lemma vmm_inv_cong:
  assumes "page_frames_state_bitmap t = page_frames_state_bitmap s" "pre_frames t = pre_frames s" "allocate t = allocate s"
    "pframe t = pframe s" "pmem t = pmem s" "cr3 t = cr3 s" "tlb t = tlb s"
  shows "vmm_inv t = vmm_inv s" and "outstanding t = outstanding s" and "address_space t = address_space s"
proof -
  have u: "used b t = used b s" for b using assms by (simp add: used_iff)
  have c: "cached t = cached s" using assms by (simp add: cached_def)
  have f: "used_frames t = used_frames s" using u by (simp add: used_frames_def)
  have w: "mmu_walk t v = mmu_walk s v" for v using assms by (simp add: mmu_walk_pte)
  show o: "outstanding t = outstanding s" using c f by (simp add: outstanding_def)
  show "address_space t = address_space s" using w by (simp add: address_space_def fun_eq_iff)
  show "vmm_inv t = vmm_inv s"
    using assms by (simp add: vmm_inv_def pmm_inv_def tables_ok_def recursive_def tlb_coherent_def u c f o w)
qed

section \<open>The mapper's interface\<close>

text \<open>
  What \<open>brk.c\<close> relies on: mapping a page either succeeds and is an update of the address space at
  that page, or fails and changes no translation; unmapping removes that page only. The laws speak
  of the pages for which \<open>ok\<close> holds.
\<close>

locale address_map =
  fixes map_page :: "paddr \<Rightarrow> vaddr \<Rightarrow> u32 \<Rightarrow> 's \<Rightarrow> (int, 's) kres option"
    and unmap_page :: "vaddr \<Rightarrow> 's \<Rightarrow> (int, 's) kres option"
    and inv :: "'s \<Rightarrow> bool"
    and space :: "'s \<Rightarrow> 20 word \<Rightarrow> xlate option"
    and ok :: "vaddr \<Rightarrow> bool"
  assumes map_result: "inv s \<Longrightarrow> ok v \<Longrightarrow> \<exists>r s'. map_page p v fl s = retK r s' \<and> inv s'
      \<and> (r = 0 \<and> space s' = (space s)(VPN v \<mapsto> page_xlate p fl) \<or> r \<noteq> 0 \<and> space s' = space s)"
    and unmap_result: "inv s \<Longrightarrow> ok v \<Longrightarrow> \<exists>r s'. unmap_page v s = retK r s' \<and> inv s'
      \<and> space s' = (space s)(VPN v := None)"
begin

lemma map_done:
  "inv s \<Longrightarrow> ok v \<Longrightarrow> map_page p v fl s = retK 0 s' \<Longrightarrow> inv s' \<and> space s' = (space s)(VPN v \<mapsto> page_xlate p fl)"
  using map_result [of s v p fl] by auto

lemma map_then_unmap:
  assumes "inv s" and "ok v" and "map_page p v fl s = retK 0 s'" and "space s (VPN v) = None"
  shows "\<exists>r s''. unmap_page v s' = retK r s'' \<and> inv s'' \<and> space s'' = space s"
  using map_done [OF assms(1-3)] unmap_result [of s' v] assms(2,4) fun_upd_idem [of "space s" "VPN v" None] by auto

lemma map_twice:
  assumes "inv s" and "ok v" and "map_page p v fl s = retK 0 s'"
  shows "\<exists>r s''. map_page p v fl s' = retK r s'' \<and> inv s'' \<and> space s'' = space s'"
  using map_done [OF assms] map_result [of s' v p fl] assms(2) by fastforce

end

abbreviation private_page :: "vaddr \<Rightarrow> bool" where
  "private_page v \<equiv> PDX v \<notin> {0, 768, 1023}"

interpretation page_tables: address_map vmm_page_map vmm_page_unmap "vmm_inv :: 'z vmm_scheme \<Rightarrow> bool" address_space private_page
proof
  fix s :: "'z vmm_scheme" and v p fl
  assume a: "vmm_inv s" "private_page v"
  show "\<exists>r s'. vmm_page_map p v fl s = retK r s' \<and> vmm_inv s'
      \<and> (r = 0 \<and> address_space s' = (address_space s)(VPN v \<mapsto> page_xlate p fl)
         \<or> r \<noteq> 0 \<and> address_space s' = address_space s)"
    using vmm_page_map_spec [OF a, of p fl] by auto
  show "\<exists>r s'. vmm_page_unmap v s = retK r s' \<and> vmm_inv s' \<and> address_space s' = (address_space s)(VPN v := None)"
    using vmm_page_unmap_spec [OF a] by auto
qed

lemma map_range_again:
  assumes "vmm_inv s" and "private_page v" and "address_space s (VPN v) = Some (page_xlate p fl)"
  shows "\<exists>r s'. vmm_page_map_range_loop n p v fl s = retK r s' \<and> address_space s' = address_space s"
  using assms
proof (induction n arbitrary: s)
  case (Suc n)
  from page_tables.map_result [OF Suc.prems(1,2), of p fl] obtain r t where
    t: "vmm_page_map p v fl s = retK r t" "vmm_inv t" "address_space t = address_space s"
    using Suc.prems(3) by (metis fun_upd_idem_iff)
  with Suc.IH [OF t(2) Suc.prems(2)] Suc.prems(3) show ?case by auto
qed simp

section \<open>Properties\<close>

text \<open>An address space with nothing mapped but the directory itself, in frame 0x20, and two frames
  (0x12 and 0x13) left to allocate, for the witnesses; \<open>z\<close> is the rest of the kernel's state.\<close>

definition empty_space :: "'z \<Rightarrow> 'z vmm_scheme" where
  "empty_space z = \<lparr>page_frames_state_bitmap = \<lambda>_. 0xFFFFFFFF, page_frames_len = MAX_PAGE_FRAME_COUNT,
     total_free_memory = 0, pre_frames = \<lambda>i. of_nat i * PAGE_SIZE, allocate = 0, pframe = 18,
     pmem = \<lambda>f i. if f = 0x20 \<and> i = 1023 then 0x20003 else 0, cr3 = 0x20000, tlb = \<lambda>_. None, page_directory = 0xC0020000, \<dots> = z\<rparr>"

lemma all_ones_bit: "n < 32 \<Longrightarrow> bit (0xFFFFFFFF :: u32) n"
proof -
  have "(0xFFFFFFFF :: u32) = - 1" by simp
  then show "n < 32 \<Longrightarrow> bit (0xFFFFFFFF :: u32) n" by (simp only: bit_minus_1_iff) simp
qed

lemma empty_space_used: "used b (empty_space z)"
  using unat_mod_32 [of b] all_ones_bit by (simp add: used_iff empty_space_def)

lemma empty_space_cached: "cached (empty_space z) = [0x12000, 0x13000]"
  by (simp add: cached_def empty_space_def upt_conv_Cons)

lemma empty_space_fields [simp]:
  "cr3 (empty_space z) = 0x20000" "tlb (empty_space z) n = None" "frame_of 0x20000 = 0x20"
  "pmem (empty_space z) f i = (if f = 0x20 \<and> i = 1023 then 0x20003 else 0)"
  by (simp_all add: empty_space_def frame_of_def)

lemma empty_space_inv: "vmm_inv (empty_space z)"
proof -
  have "pmm_inv (empty_space z)"
    unfolding pmm_inv_def empty_space_cached
    using empty_space_used [of _ z] by (simp add: used_frames_def page_aligned_def) (simp add: empty_space_def)
  moreover have "page_aligned (frame_paddr 0x20)" "frame_paddr 0x20 \<noteq> 0x12000" "frame_paddr 0x20 \<noteq> 0x13000"
    by (simp_all add: page_aligned_def frame_paddr_def)
  then have "frame_paddr 0x20 \<in> outstanding (empty_space z)"
    using empty_space_used [of _ z] by (simp add: outstanding_def empty_space_cached used_frames_def)
  then have "tables_ok (empty_space z)" by (simp add: tables_ok_def recursive_def)
  ultimately show ?thesis by (simp add: vmm_inv_def tlb_coherent_def)
qed

lemma empty_space_empty: "address_space (empty_space z) n = None"
  by (simp add: address_space_def mmu_walk_pte pte_xlate_def)


lemma empty_space_alloc: "fst (pmm_alloc_page (empty_space z)) = 0x12000"
  by (subst pmm_alloc_page_take) (simp_all add: empty_space_def)

text \<open>C2: mapping a page is a map update of the address space. For a page outside the shared boot
  table and the recursive window, \<open>vmm_page_map\<close> never faults; it returns 0 and then exactly this
  page's translation has changed, to the given frame with the rights of the flags, or it returns
  ENOMEM because no frame was left for a table, and then no translation and no table has changed.
  The structure of the tables is kept and no cached translation is stale.\<close>

theorem vmm_page_map_correct:
  assumes "vmm_inv s" and "PDX virt \<notin> {0, 768, 1023}"
  shows "\<exists>r s'. vmm_page_map phys virt flags s = retK r s' \<and> vmm_inv s' \<and> outstanding s \<subseteq> outstanding s'
    \<and> (r = 0 \<and> address_space s' = (address_space s)(VPN virt \<mapsto>
           \<lparr>x_frame = frame_of phys, x_write = (flags AND 2 \<noteq> 0), x_user = (flags AND 4 \<noteq> 0)\<rparr>)
       \<or> r = ENOMEM \<and> fst (pmm_alloc_page s) = NULL \<and> pmem s' = pmem s \<and> address_space s' = address_space s)"
  using vmm_page_map_spec [OF assms, of phys flags] unfolding page_xlate_def by blast

text \<open>Witness of C2: the first page of the heap above the boot table.\<close>

theorem vmm_page_map_correct_witness:
  "\<exists>s'. vmm_page_map 0x55000 0xC0400000 3 (empty_space ()) = retK 0 s'
     \<and> address_space s' (VPN 0xC0400000) = Some \<lparr>x_frame = 0x55, x_write = True, x_user = False\<rparr>"
proof -
  have "PDX 0xC0400000 \<notin> {0, 768, 1023}" "frame_of 0x55000 = 0x55" by (simp_all add: PDX_def frame_of_def)
  with vmm_page_map_correct [OF empty_space_inv [of "()"], of "0xC0400000" "0x55000" 3] show ?thesis
    by (auto simp: empty_space_alloc)
qed

text \<open>C29: unmapping removes exactly one page from the address space, returns -1 exactly when the
  page has no table, and restores the address space after a mapping of an unmapped page.\<close>

theorem vmm_page_unmap_correct:
  assumes "vmm_inv s" and "PDX virt \<notin> {0, 768, 1023}"
  shows "(\<exists>s'. vmm_page_unmap virt s = retK (if bit (pmem s (frame_of (cr3 s)) (PDX virt)) 0 then 0 else -1) s'
      \<and> vmm_inv s' \<and> address_space s' = (address_space s)(VPN virt := None))
    \<and> (\<forall>phys flags s1. vmm_page_map phys virt flags s = retK 0 s1 \<and> address_space s (VPN virt) = None \<longrightarrow>
         (\<exists>r s2. vmm_page_unmap virt s1 = retK r s2 \<and> vmm_inv s2 \<and> address_space s2 = address_space s))"
  using vmm_page_unmap_spec [OF assms] page_tables.map_then_unmap [OF assms] by blast

text \<open>Witness of C29.\<close>

theorem vmm_page_unmap_correct_witness:
  "\<exists>s'. vmm_page_unmap 0xC0400000 (empty_space ()) = retK (-1) s' \<and> address_space s' = address_space (empty_space ())"
proof -
  have "PDX 0xC0400000 \<notin> {0, 768, 1023}" by (simp add: PDX_def)
  with vmm_page_unmap_correct [OF empty_space_inv [of "()"], of "0xC0400000"]
    fun_upd_idem [of "address_space (empty_space ())" "VPN 0xC0400000" None] empty_space_empty [of "()" "VPN 0xC0400000"] show ?thesis by auto
qed

text \<open>The recursive window. Through \<open>GET_PDE_PTR\<close> the kernel reads the entry of the page
  directory, and through \<open>GET_PTE_PTR\<close> the entry of the page table, that the page walk for the same
  address uses; and a page reached through them translates as the two entries say.\<close>

theorem recursive_window:
  assumes "vmm_inv s"
  shows "\<exists>d. load_Page (GET_PDE_PTR virt) s = retK d s
    \<and> (if present d = 0 then mmu_walk s virt = None
       else \<exists>e. load_Page (GET_PTE_PTR virt) s = retK e s
          \<and> mmu_walk s virt = (if present e = 0 then None
               else Some \<lparr>x_frame = frame e, x_write = (rw d = 1 \<and> rw e = 1), x_user = (user d = 1 \<and> user e = 1)\<rparr>))"
proof -
  have s: "tlb_coherent s" "recursive s" "bit (pde s (PDX virt)) 0 \<Longrightarrow> bit (pde s (PDX virt)) 1"
    using assms by (simp_all add: vmm_inv_def tables_ok_def)
  have bits: "rw (Page_of_word w) = 1 \<longleftrightarrow> bit w 1" "user (Page_of_word w) = 1 \<longleftrightarrow> bit w 2" for w
    using ucast_1word_eq [of 1 w 1] ucast_1word_eq [of 2 w 1] by (simp_all add: Page_of_word_def)
  show ?thesis
    using access_PDE(1) [OF s(1,2)] access_PTE(1) [OF s(1,2)] s(3)
    by (auto simp: mmu_walk_pte pte_xlate_def Page_of_word_fields bits)
qed

text \<open>At a concrete state.\<close>

theorem recursive_window_witness:
  "\<exists>d e. load_Page (GET_PDE_PTR 0xFFFFF000) (empty_space ()) = retK d (empty_space ())
     \<and> load_Page (GET_PTE_PTR 0xFFFFF000) (empty_space ()) = retK e (empty_space ()) \<and> present d = 1"
proof -
  have "PDX 0xFFFFF000 = 1023" by (simp add: PDX_def)
  then have "load_Page (GET_PDE_PTR 0xFFFFF000) (empty_space ()) = retK (Page_of_word 0x20003) (empty_space ())"
    using access_PDE(1) [of "empty_space ()" "0xFFFFF000"] empty_space_inv [of "()"]
    by (simp add: vmm_inv_def tables_ok_def)
  moreover have "present (Page_of_word 0x20003) = 1" by (simp add: Page_of_word_def)
  ultimately show ?thesis
    using recursive_window [OF empty_space_inv [of "()"], of "0xFFFFF000"] by auto
qed

text \<open>The C bit-fields and the words in memory are in one-to-one correspondence, and the
  hardware's bits of a word are the fields \<open>present\<close>, \<open>rw\<close>, \<open>user\<close> and \<open>frame\<close>.\<close>

theorem Page_layout:
  "Page_of_word (word_of_Page p) = p \<and> word_of_Page (Page_of_word w) = w
   \<and> (bit (word_of_Page p) 0 \<longleftrightarrow> present p = 1) \<and> (bit (word_of_Page p) 1 \<longleftrightarrow> rw p = 1)
   \<and> (bit (word_of_Page p) 2 \<longleftrightarrow> user p = 1) \<and> ucast (drop_bit 12 (word_of_Page p)) = frame p"
proof -
  have one: "x \<noteq> 0 \<longleftrightarrow> x = 1" for x :: "1 word" using word1_cases [of x] by auto
  have "bit (word_of_Page (Page_of_word w)) n \<longleftrightarrow> bit w n" if "n < 32" for n
  proof -
    have field: "ucast (drop_bit k w) = (0 :: 1 word) \<longleftrightarrow> \<not> bit w k" for k using ucast_1word_eq [of k w 0] by simp
    consider "n = 0 \<or> n = 1 \<or> n = 2 \<or> n = 3 \<or> n = 4 \<or> n = 5 \<or> n = 6 \<or> n = 7 \<or> n = 8" | "9 \<le> n" by linarith
    then show ?thesis
      using that field [of 0] by cases (auto simp: bit_word_of_Page Page_of_word_def field bit_ucast_iff bit_drop_bit_eq)
  qed
  then have "word_of_Page (Page_of_word w) = w" by (intro bit_word_eqI) simp
  then show ?thesis by (simp add: bit_word_of_Page one)
qed

text \<open>\<open>vmm_page_map_range\<close> advances neither address: whatever the count, a call that starts with
  a successful mapping changes the translation of the first page only.\<close>

theorem vmm_page_map_range_single:
  assumes "vmm_inv s" and "PDX virt \<notin> {0, 768, 1023}" and "0 < count" and "vmm_page_map phys virt flags s = retK 0 s1"
  shows "\<exists>r s'. vmm_page_map_range phys virt count flags s = retK r s'
    \<and> address_space s' = (address_space s)(VPN virt \<mapsto>
        \<lparr>x_frame = frame_of phys, x_write = (flags AND 2 \<noteq> 0), x_user = (flags AND 4 \<noteq> 0)\<rparr>)"
proof -
  obtain n where n: "unat count = Suc n" using assms(3) by (cases "unat count") (simp_all add: word_nat)
  have "vmm_inv s1" and sp: "address_space s1 = (address_space s)(VPN virt \<mapsto> page_xlate phys flags)"
    using page_tables.map_done [OF assms(1,2,4)] by simp_all
  with map_range_again [of s1 virt phys flags n] assms(2,4) n show ?thesis
    by (simp add: vmm_page_map_range_def page_xlate_def)
qed

text \<open>Asked for eight pages, it maps the first.\<close>

theorem vmm_page_map_range_single_witness:
  "\<exists>r s'. vmm_page_map_range 0x55000 0xC0400000 8 3 (empty_space ()) = retK r s'
     \<and> address_space s' (VPN 0xC0400000) \<noteq> None \<and> address_space s' (VPN 0xC0401000) = None"
proof -
  have ok: "PDX 0xC0400000 \<notin> {0, 768, 1023}" by (simp add: PDX_def)
  obtain s1 where "vmm_page_map 0x55000 0xC0400000 3 (empty_space ()) = retK 0 s1"
    using vmm_page_map_spec [OF empty_space_inv [of "()"] ok, of "0x55000" 3] empty_space_alloc [of "()"] by auto
  moreover have "VPN 0xC0401000 \<noteq> VPN 0xC0400000" by (simp add: VPN_def)
  ultimately show ?thesis
    using vmm_page_map_range_single [OF empty_space_inv [of "()"] ok, of 8 "0x55000" 3] by (auto simp: empty_space_empty)
qed

end
