(* ===== verification/Paging_Init.thy ===== *)
theory Paging_Init
  imports Pmm_Init Vmm
begin

text \<open>
  \<open>pmm_directory_init\<close> (\<open>paging.c\<close>): the kernel's page directory and its first table are built in
  two frames of the new frame allocator, reached at their physical addresses through the identity
  mapping that \<open>boot.S\<close> has set up, and the directory is loaded.
\<close>

section \<open>Definitions\<close>

abbreviation (input) MULTIBOOT_BOOTLOADER_MAGIC :: u32 where "MULTIBOOT_BOOTLOADER_MAGIC \<equiv> 0x2BADB002"
abbreviation (input) PAGES_PER_TABLE :: u32 where "PAGES_PER_TABLE \<equiv> 1024"

function first_table_loop :: "u32 \<Rightarrow> paddr \<Rightarrow> 'z vmm_scheme \<Rightarrow> (unit, 'z vmm_scheme) kres option" where
  "first_table_loop i first_page_table s =
     (if i < PAGES_PER_TABLE then
        bindK (update_Page (first_page_table + i * 4)
                 (\<lambda>p. p\<lparr>present := 1, rw := 1, user := 0, frame := ucast i\<rparr>) s) (\<lambda>_ s.
        first_table_loop (i + 1) first_page_table s)
      else retK () s)"
  by pat_completeness auto
termination
  by (relation "measure (\<lambda>(i, t, s). 1024 - unat i)") (auto simp: unat_inc32 word_nat)

declare first_table_loop.simps [simp del]

text \<open>\<open>page_directory_phys[i]\<close> is made to point to a table or to the directory itself.\<close>

definition set_directory_entry :: "paddr \<Rightarrow> u32 \<Rightarrow> paddr \<Rightarrow> 'z vmm_scheme \<Rightarrow> (unit, 'z vmm_scheme) kres option" where
  "set_directory_entry page_directory_phys i tbl s =
     update_Page (page_directory_phys + i * 4)
       (\<lambda>p. p\<lparr>present := 1, rw := 1, user := 0, frame := ucast (drop_bit 12 tbl)\<rparr>) s"

text \<open>Loading CR3 drops every cached translation.\<close>

definition load_page_directory :: "paddr \<Rightarrow> 'z vmm_scheme \<Rightarrow> 'z vmm_scheme" where
  "load_page_directory a s = s\<lparr>cr3 := a, tlb := \<lambda>_. None\<rparr>"

definition pmm_directory_init ::
  "(u32 \<Rightarrow> mmap_entry) \<Rightarrow> paddr \<Rightarrow> vaddr \<Rightarrow> u32 \<Rightarrow> multiboot_info \<Rightarrow> 'z vmm_scheme
   \<Rightarrow> (unit, 'z vmm_scheme) kres option" where
  "pmm_directory_init mm kernel_start kernel_end magic mbd s =
     (if magic \<noteq> MULTIBOOT_BOOTLOADER_MAGIC then
        panicK (Abort ''KMALLOC_FAILED_TO_ALLOCATE_ERR: invalid memory map given by grub bootloader'')
      else if drop_bit 6 (mb_flags mbd) AND 1 = 0 then
        panicK (Abort ''KMALLOC_FAILED_TO_ALLOCATE_ERR: invalid memory map given by grub bootloader'')
      else case pmm_frames_init mm mbd kernel_start kernel_end s of None \<Rightarrow> None | Some s \<Rightarrow>
      case pmm_alloc_frame_int s of (page_directory_phys, s) \<Rightarrow>
      if page_directory_phys = NULL then
        panicK (Abort ''KMALLOC_FAILED_TO_ALLOCATE_ERR: failed to allocate frame for page directory'')
      else let s = s\<lparr>page_directory := P2V page_directory_phys\<rparr> in
      bindK (clear_page page_directory_phys s) (\<lambda>_ s.
      case pmm_alloc_frame_int s of (first_page_table, s) \<Rightarrow>
      if first_page_table = NULL then
        panicK (Abort ''KMALLOC_FAILED_TO_ALLOCATE_ERR: failed to allocate frame for first page table'')
      else
      bindK (clear_page first_page_table s) (\<lambda>_ s.
      bindK (first_table_loop 0 first_page_table s) (\<lambda>_ s.
      bindK (set_directory_entry page_directory_phys 0 first_page_table s) (\<lambda>_ s.
      bindK (set_directory_entry page_directory_phys 768 first_page_table s) (\<lambda>_ s.
      bindK (set_directory_entry page_directory_phys 1023 page_directory_phys s) (\<lambda>_ s.
      retK () (load_page_directory page_directory_phys s))))))))"

section \<open>Running on the boot tables\<close>

text \<open>The directory \<open>d\<close> and the table \<open>t\<close> of \<open>boot.S\<close>: the first 1023 frames, at 0 and at
  \<open>KERNEL_VIRT_OFFSET\<close>, writable by the kernel; the last entry is the frame of the text screen.\<close>

definition boot_entry :: "20 word \<Rightarrow> u32" where
  "boot_entry f = frame_paddr f OR 3"

definition boot_space :: "20 word \<Rightarrow> 20 word \<Rightarrow> 'z vmm_scheme \<Rightarrow> bool" where
  "boot_space d t s \<longleftrightarrow> d \<noteq> t \<and> cr3 s = frame_paddr d
     \<and> (\<forall>i. pmem s d i = (if i = 0 \<or> i = 768 then boot_entry t else 0))
     \<and> (\<forall>i. pmem s t i = boot_entry (if i = 1023 then 0xB8 else ucast i))
     \<and> tlb_coherent s"

lemma boot_entry_fields [simp]:
  "bit (boot_entry f) 0" "bit (boot_entry f) 1" "bit (boot_entry f) (Suc 0)" "\<not> bit (boot_entry f) 2"
  "ucast (drop_bit 12 (boot_entry f)) = f"
proof -
  show "bit (boot_entry f) 0" "bit (boot_entry f) 1" "bit (boot_entry f) (Suc 0)" "\<not> bit (boot_entry f) 2"
    unfolding boot_entry_def frame_paddr_def bit_or_iff bit_push_bit_iff by simp_all
  have "drop_bit 12 (boot_entry f) = drop_bit 12 (frame_paddr f)"
    unfolding boot_entry_def drop_bit_or by simp
  then show "ucast (drop_bit 12 (boot_entry f)) = f"
    using frame_of_paddr [of f] by (simp only: frame_of_def)
qed

lemma unat_frame_paddr: "unat (frame_paddr f) = unat f * 4096"
proof -
  have "unat f < 2 ^ 20" using unsigned_less [of f, where ?'a = nat] by simp
  then show ?thesis
    by (simp add: frame_paddr_def push_bit_eq_mult unat_word_ariths(2) unsigned_ucast_eq take_bit_eq_mod)
qed

lemma entry_addr:
  assumes "(i :: u32) < 1024"
  shows "VPN (frame_paddr f + i * 4) = f" "WDX (frame_paddr f + i * 4) = ucast i"
    "unat (frame_paddr f + i * 4) div 4096 = unat f"
proof -
  have f: "unat f < 1048576" using unsigned_less [of f, where ?'a = nat] by simp
  have i: "unat i < 1024" using assms by (simp add: word_nat)
  have "unat (frame_paddr f + i * 4) = unat f * 4096 + unat i * 4"
    using f i by (simp add: unat_word_ariths unat_frame_paddr)
  then have a: "unat (frame_paddr f + i * 4) = (unat f * 1024 + unat i) * 4" by simp
  have "(unat f * 1024 + unat i) * 4 div 4096 = (unat f * 1024 + unat i) div 1024"
    using div_mult_mult2 [of 4 "unat f * 1024 + unat i" 1024] by simp
  also have "\<dots> = unat f" using i by simp
  finally show d: "unat (frame_paddr f + i * 4) div 4096 = unat f" unfolding a .
  then show "VPN (frame_paddr f + i * 4) = f" unfolding word_unat_eq_iff unat_parts .
  show "WDX (frame_paddr f + i * 4) = ucast i"
    using i unfolding word_unat_eq_iff unat_parts a by (simp add: unsigned_ucast_eq take_bit_eq_mod)
qed

lemma boot_translate:
  assumes "boot_space d t s" and "unat v div 4096 < 0x3FF"
  shows "translate s v = Some \<lparr>x_frame = VPN v, x_write = True, x_user = False\<rparr>"
proof -
  have s: "tlb_coherent s" "cr3 s = frame_paddr d" "pmem s d 0 = boot_entry t"
    "\<And>i. i \<noteq> 1023 \<Longrightarrow> pmem s t i = boot_entry (ucast i)"
    using assms(1) by (simp_all add: boot_space_def)
  have "PDX v = 0" "PTX v \<noteq> 1023" and p: "ucast (PTX v) = VPN v"
    using assms(2) unfolding word_unat_eq_iff unsigned_ucast_eq unat_parts div_4M by (simp_all add: take_bit_eq_mod)
  with s have "mmu_walk s v = Some \<lparr>x_frame = VPN v, x_write = True, x_user = False\<rparr>"
    by (simp add: mmu_walk_def Let_def)
  with translate_walk [OF s(1)] show ?thesis by simp
qed

lemma boot_space_cong:
  assumes "boot_space d t s" and "pmem s' d = pmem s d" "pmem s' t = pmem s t" "cr3 s' = cr3 s" "tlb s' = tlb s"
  shows "boot_space d t s'"
proof -
  have "mmu_walk s' v = mmu_walk s v" for v
    using assms by (simp add: mmu_walk_pte boot_space_def)
  then show ?thesis using assms by (simp add: boot_space_def tlb_coherent_def)
qed

lemma boot_space_set: "boot_space d t s \<Longrightarrow> f \<noteq> d \<Longrightarrow> f \<noteq> t \<Longrightarrow> boot_space d t (set_pmem f c s)"
  by (rule boot_space_cong) auto

lemma boot_update:
  assumes "boot_space d t s" and "unat f < 0x3FF" and "i < 1024"
  shows "update_Page (frame_paddr f + i * 4) g s = retK () (set_pmem f ((pmem s f)(ucast i :=
           word_of_Page (g (Page_of_word (pmem s f (ucast i)))))) s)"
    and "clear_page (frame_paddr f) s = retK () (set_pmem f (\<lambda>_. 0) s)"
  using boot_translate [OF assms(1), of "frame_paddr f + i * 4"] boot_translate [OF assms(1), of "frame_paddr f"]
    entry_addr [OF assms(3), of f] entry_addr [of 0 f] assms(2)
  by (simp_all add: update_Page_def clear_page_def)

lemma set_pmem_twice: "set_pmem f c (set_pmem f c' s) = set_pmem f c s"
  by (simp add: set_pmem_def)

lemma set_pmem_id: "set_pmem f (pmem s f) s = s"
  by (simp add: set_pmem_def)

definition table_entry :: "20 word \<Rightarrow> u32" where
  "table_entry f = word_of_Page ((Page_of_word 0)\<lparr>present := 1, rw := 1, user := 0, frame := f\<rparr>)"

lemma first_table_loop_eq:
  assumes "boot_space d t s" and "unat f < 0x3FF" and "f \<noteq> d" "f \<noteq> t" and "i \<le> 1024"
    and "\<And>k. i \<le> ucast k \<Longrightarrow> pmem s f k = 0"
  shows "first_table_loop i (frame_paddr f) s =
    retK () (set_pmem f (\<lambda>k. if i \<le> ucast k then table_entry (ucast k) else pmem s f k) s)"
  using assms
proof (induction i "frame_paddr f" s rule: first_table_loop.induct)
  case (1 i s)
  have small: "ucast (k :: 10 word) < (1024 :: u32)" for k
    using unsigned_less [of k, where ?'a = nat] by (simp add: word_nat unsigned_ucast_eq take_bit_eq_mod)
  show ?case
  proof (cases "i < 1024")
    case False
    then have "\<not> i \<le> ucast (k :: 10 word)" for k using small [of k] by (simp add: not_le not_less)
    with False set_pmem_id [of f s] show ?thesis by (simp add: first_table_loop.simps [of i])
  next
    case True
    let ?s = "set_pmem f ((pmem s f)(ucast i := table_entry (ucast i))) s"
    have uc: "ucast (ucast i :: 10 word) = i" using True
      by (simp add: word_unat_eq_iff [where 'a = 32] unsigned_ucast_eq unat_mod take_bit_eq_mod word_nat)
    have uc20: "ucast (ucast i :: 10 word) = (ucast i :: 20 word)"
      by (subst (2) uc [symmetric], rule bit_word_eqI) (auto simp: bit_ucast_iff dest: bit_word_bound)
    have upd: "update_Page (frame_paddr f + i * 4) (\<lambda>p. p\<lparr>present := 1, rw := 1, user := 0, frame := ucast i\<rparr>) s = retK () ?s"
      using boot_update(1) [OF "1.prems"(1,2) True] "1.prems"(6) [of "ucast i"] uc by (simp add: table_entry_def)
    have le: "i \<le> ucast k \<longleftrightarrow> k = ucast i \<or> i + 1 \<le> ucast k" for k :: "10 word"
    proof -
      have "ucast (ucast k :: u32) = k" by (rule bit_word_eqI) (simp add: bit_ucast_iff)
      then show ?thesis using word_le_inc [OF True, of "ucast k"] uc by metis
    qed
    have "boot_space d t ?s" using "1.prems"(3,4) by (rule boot_space_set [OF "1.prems"(1)])
    then have "first_table_loop (i + 1) (frame_paddr f) ?s =
        retK () (set_pmem f (\<lambda>k. if i + 1 \<le> ucast k then table_entry (ucast k) else pmem ?s f k) ?s)"
      using "1.prems" True le unat_inc32 [of i]
      by (intro "1.hyps" [OF True upd [unfolded retK_def]]) (auto simp: word_nat uc)
    also have "\<dots> = retK () (set_pmem f (\<lambda>k. if i \<le> ucast k then table_entry (ucast k) else pmem s f k) s)"
      unfolding set_pmem_twice le
      by (intro arg_cong [where f = "\<lambda>c. retK () (set_pmem f c s)"]) (auto simp: uc uc20 fun_eq_iff)
    finally show ?thesis using True upd by (simp add: first_table_loop.simps [of i])
  qed
qed


lemma table_entry_fields [simp]:
  "bit (table_entry f) 0" "bit (table_entry f) 1" "bit (table_entry f) (Suc 0)" "\<not> bit (table_entry f) 2"
  "ucast (drop_bit 12 (table_entry f)) = f"
  by (simp_all add: table_entry_def bit_word_of_Page)

definition directory_words :: "20 word \<Rightarrow> 20 word \<Rightarrow> 10 word \<Rightarrow> u32" where
  "directory_words f1 f2 i = (if i = 0 \<or> i = 768 then table_entry f2 else if i = 1023 then table_entry f1 else 0)"

lemma set_directory_entry_eq:
  assumes "boot_space d t s" and "unat f < 0x3FF" and "i < 1024" and "pmem s f (ucast i) = 0"
  shows "set_directory_entry (frame_paddr f) i (frame_paddr g) s =
    retK () (set_pmem f ((pmem s f)(ucast i := table_entry g)) s)"
  using boot_update(1) [OF assms(1-3)] assms(4) frame_of_paddr [of g]
  by (simp add: set_directory_entry_def table_entry_def frame_of_def)

lemma build_tables:
  assumes "boot_space d t s" and "f1 \<noteq> f2" "f1 \<notin> {d, t}" "f2 \<notin> {d, t}" and "unat f1 < 0x3FF" "unat f2 < 0x3FF"
    and "pmem s f1 = (\<lambda>_. 0)"
  shows "bindK (clear_page (frame_paddr f2) s) (\<lambda>_ s.
      bindK (first_table_loop 0 (frame_paddr f2) s) (\<lambda>_ s.
      bindK (set_directory_entry (frame_paddr f1) 0 (frame_paddr f2) s) (\<lambda>_ s.
      bindK (set_directory_entry (frame_paddr f1) 768 (frame_paddr f2) s) (\<lambda>_ s.
      bindK (set_directory_entry (frame_paddr f1) 1023 (frame_paddr f1) s) (\<lambda>_ s.
      retK () (load_page_directory (frame_paddr f1) s))))))
    = retK () (load_page_directory (frame_paddr f1)
        (set_pmem f1 (directory_words f1 f2) (set_pmem f2 (\<lambda>k. table_entry (ucast k)) s)))"
proof -
  have keep: "boot_space d t (set_pmem f1 c u)" "boot_space d t (set_pmem f2 c u)" if "boot_space d t u" for c and u :: "'a vmm_scheme"
    using assms(3,4) by (auto intro: boot_space_set [OF that])
  define s2 where "s2 = set_pmem f2 (\<lambda>_. 0) s"
  define s3 where "s3 = set_pmem f2 (\<lambda>k. table_entry (ucast k)) s"
  define s4 where "s4 = set_pmem f1 ((pmem s3 f1)(0 := table_entry f2)) s3"
  define s5 where "s5 = set_pmem f1 ((pmem s4 f1)(768 := table_entry f2)) s4"
  define s6 where "s6 = set_pmem f1 ((pmem s5 f1)(1023 := table_entry f1)) s5"
  have b: "boot_space d t s2" "boot_space d t s3" "boot_space d t s4" "boot_space d t s5"
    using assms(1) keep by (simp_all add: s2_def s3_def s4_def s5_def)
  have "clear_page (frame_paddr f2) s = retK () s2"
    using boot_update(2) [OF assms(1,6), of 0] by (simp add: s2_def)
  moreover have "first_table_loop 0 (frame_paddr f2) s2 = retK () s3"
    using first_table_loop_eq [OF b(1) assms(6), of 0] assms(4) by (simp add: s2_def s3_def set_pmem_twice)
  moreover have "set_directory_entry (frame_paddr f1) 0 (frame_paddr f2) s3 = retK () s4"
    using set_directory_entry_eq [OF b(2) assms(5), of 0 f2] assms(2,7) by (simp add: s3_def s4_def)
  moreover have "set_directory_entry (frame_paddr f1) 768 (frame_paddr f2) s4 = retK () s5"
    using set_directory_entry_eq [OF b(3) assms(5), of 768 f2] assms(2,7) by (simp add: s3_def s4_def s5_def)
  moreover have "set_directory_entry (frame_paddr f1) 1023 (frame_paddr f1) s5 = retK () s6"
    using set_directory_entry_eq [OF b(4) assms(5), of 1023 f1] assms(2,7) by (simp add: s3_def s4_def s5_def s6_def)
  moreover have "s6 = set_pmem f1 (directory_words f1 f2) s3"
    unfolding s6_def s5_def s4_def set_pmem_twice
    using assms(2,7) by (intro arg_cong [where f = "\<lambda>c. set_pmem f1 c s3"]) (auto simp: directory_words_def s3_def fun_eq_iff)
  ultimately show ?thesis by (simp add: s3_def)
qed


lemma loaded_space:
  assumes "f1 \<noteq> f2" and "v < 0xFFC00000"
    and "pmem s f1 = directory_words f1 f2" "pmem s f2 = (\<lambda>k. table_entry (ucast k))" "cr3 s = frame_paddr f1"
  shows "mmu_walk s v =
    (if v < 0x400000 then Some \<lparr>x_frame = frame_of v, x_write = True, x_user = False\<rparr>
     else if KERNEL_VIRT_OFFSET \<le> v \<and> v < 0xC0400000 then
       Some \<lparr>x_frame = frame_of (V2P v), x_write = True, x_user = False\<rparr>
     else None)"
proof -
  have zero: "v < 0x400000 \<longleftrightarrow> PDX v = 0" and high: "KERNEL_VIRT_OFFSET \<le> v \<and> v < 0xC0400000 \<longleftrightarrow> PDX v = 768"
    and rec: "PDX v \<noteq> 1023"
    using assms(2) unfolding PDX_eq by (auto simp: word_nat)
  have f: "frame_of v = ucast (PTX v)" if "PDX v = 0"
    using that unfolding PDX_eq word_unat_eq_iff unat_frame_of
    by (simp add: unsigned_ucast_eq take_bit_eq_mod unat_parts less_mult_imp_div_less)
  have "frame_of (V2P v) = ucast (PTX v)" if "PDX v = 768"
  proof -
    have v: "3221225472 \<le> unat v" "unat v < 3225419776" using that unfolding PDX_eq by simp_all
    then have "unat v = unat (V2P v) + 768 * 1024 * 4096" "unat (V2P v) < 4194304"
      by (simp_all add: V2P_def unat_sub32 word_nat)
    moreover from this have "unat v div 4096 = unat (V2P v) div 4096 + 768 * 1024"
      by (simp only: div_mult_self1)
    then have "unat v div 4096 mod 1024 = unat (V2P v) div 4096 mod 1024" by (simp only: mod_mult_self1)
    ultimately show ?thesis unfolding word_unat_eq_iff unat_frame_of
      by (simp add: unsigned_ucast_eq take_bit_eq_mod unat_parts less_mult_imp_div_less)
  qed
  with f rec assms(1,3-5) show ?thesis unfolding zero high
    by (auto simp: mmu_walk_pte pte_xlate_def directory_words_def)
qed


section \<open>Properties\<close>

text \<open>The frames that are free when \<open>pmm_frames_init\<close> is done.\<close>

definition initially_free :: "mmap_entry list \<Rightarrow> paddr \<Rightarrow> vaddr \<Rightarrow> 20 word \<Rightarrow> bool" where
  "initially_free es kernel_start kernel_end f \<longleftrightarrow>
     (\<exists>e \<in> set es. region_available e \<and> frame_in (ucast f) e) \<and> 256 \<le> unat f
     \<and> \<not> (unat kernel_start div 4096 \<le> unat f \<and> unat f \<le> unat (kernel_end - KERNEL_VIRT_OFFSET) div 4096)"

lemma unat_ucast20: "unat (ucast (f :: 20 word) :: u32) = unat f"
  using unsigned_less [of f, where ?'a = nat] by (simp add: unsigned_ucast_eq take_bit_eq_mod)

lemma alloc_lowest:
  assumes "\<not> used (ucast f) s" and "\<And>g. g < f \<Longrightarrow> used (ucast (g :: 20 word)) s"
  shows "pmm_alloc_frame_int s = (frame_paddr f, internal_page_frames_state_bitmap_set (ucast f) s)"
proof -
  have lt: "unat f < 2 ^ 20" using unsigned_less [of f, where ?'a = nat] by simp
  have low: "used c s" if "c < ucast f" for c :: u32
  proof -
    have "unat c < unat f" using that by (simp add: word_nat unat_ucast20)
    then have "ucast (ucast c :: 20 word) = c" "(ucast c :: 20 word) < f"
      using lt by (simp_all add: word_unat_eq_iff [where 'a = 32] word_nat unat_ucast20 unsigned_ucast_eq take_bit_eq_mod unat_mod)
    with assms(2) [of "ucast c"] show ?thesis by simp
  qed
  have addr: "ucast f * PAGE_SIZE = frame_paddr f" by (simp add: frame_paddr_def push_bit_eq_mult)
  show ?thesis
  proof (cases s rule: pmm_alloc_frame_int_cases)
    case (found b)
    then have "b = ucast f" using assms(1) low by (metis less_linear)
    with found addr show ?thesis by simp
  next
    case full
    with assms(1) lt show ?thesis by (simp add: unat_ucast20)
  qed
qed

lemma frame_paddr_eq_0: "frame_paddr f = 0 \<longleftrightarrow> f = 0"
  unfolding word_unat_eq_iff unat_frame_paddr by simp

lemma used_vmm [simp]:
  "used b (set_pmem f c s) = used b s" "used b (s\<lparr>page_directory := x\<rparr>) = used b s"
  by (simp_all add: used_iff set_pmem_def)

lemma frames_init_free:
  assumes "mmap_chain mm (mmap_addr mbd + mmap_length mbd) (mmap_addr mbd) es"
    "\<forall>e \<in> set es. region_available e \<longrightarrow> region_ok e"
  shows "\<exists>s1. pmm_frames_init mm mbd ks ke s = Some s1 \<and> allocate s1 = allocate s \<and> pframe s1 = pframe s
    \<and> pmm.more s1 = pmm.more s \<and> (\<forall>f. used (ucast f) s1 \<longleftrightarrow> \<not> initially_free es ks ke f)"
proof -
  obtain s1 where s1: "pmm_frames_init mm mbd ks ke s = Some s1" "allocate s1 = allocate s" "pframe s1 = pframe s"
      "pmm.more s1 = pmm.more s"
    and u: "\<forall>f. unat f < 2 ^ 20 \<longrightarrow> (\<not> used f s1 \<longleftrightarrow>
      (\<exists>e \<in> set es. region_available e \<and> frame_in f e) \<and> 256 \<le> unat f
      \<and> \<not> (unat ks div 4096 \<le> unat f \<and> unat f \<le> unat (ke - KERNEL_VIRT_OFFSET) div 4096))"
    using pmm_frames_init_spec [OF assms, of ks ke s] by auto
  have "unat f < 2 ^ 20" for f :: "20 word" using unsigned_less [of f, where ?'a = nat] by simp
  then have "used (ucast f) s1 \<longleftrightarrow> \<not> initially_free es ks ke f" for f
    using spec [OF u, of "ucast f"] unfolding initially_free_def unat_ucast20 by blast
  with s1 show ?thesis by blast
qed

lemma pmm_directory_init_spec:
  assumes map: "mmap_chain mm (mmap_addr mbd + mmap_length mbd) (mmap_addr mbd) es"
    "\<forall>e \<in> set es. region_available e \<longrightarrow> region_ok e"
    and magic: "magic = MULTIBOOT_BOOTLOADER_MAGIC" "drop_bit 6 (mb_flags mbd) AND 1 \<noteq> 0"
    and boot: "boot_space d t s" "\<not> initially_free es ks ke d" "\<not> initially_free es ks ke t" "allocate s = 1" "pframe s = 0"
    and f1: "initially_free es ks ke f1" "\<And>g. g < f1 \<Longrightarrow> \<not> initially_free es ks ke g"
    and f2: "initially_free es ks ke f2" "f1 < f2" "\<And>g. f1 < g \<Longrightarrow> g < f2 \<Longrightarrow> \<not> initially_free es ks ke g"
    and low: "unat f2 < 0x3FF"
  shows "\<exists>u. pmm_directory_init mm ks ke magic mbd s = retK () (load_page_directory (frame_paddr f1) u)
    \<and> pmm_inv u \<and> cached u = [] \<and> pmem u f1 = directory_words f1 f2 \<and> pmem u f2 = (\<lambda>k. table_entry (ucast k))
    \<and> page_directory u = P2V (frame_paddr f1)
    \<and> (\<forall>f. used (ucast f) u \<longleftrightarrow> f = f1 \<or> f = f2 \<or> \<not> initially_free es ks ke f)
    \<and> vmm.more u = vmm.more s"
proof -
  obtain s1 where s1: "pmm_frames_init mm mbd ks ke s = Some s1" "allocate s1 = 1" "pframe s1 = 0" "pmm.more s1 = pmm.more s"
    and free: "\<And>f. used (ucast f) s1 \<longleftrightarrow> \<not> initially_free es ks ke f"
    using frames_init_free [OF map, of ks ke s] boot(4,5) by auto
  define s2 where "s2 = (internal_page_frames_state_bitmap_set (ucast f1) s1)\<lparr>page_directory := P2V (frame_paddr f1)\<rparr>"
  define s3 where "s3 = set_pmem f1 (\<lambda>_. 0) s2"
  define s4 where "s4 = internal_page_frames_state_bitmap_set (ucast f2) s3"
  define u where "u = set_pmem f1 (directory_words f1 f2) (set_pmem f2 (\<lambda>k. table_entry (ucast k)) s4)"
  have bs: "boot_space d t s1"
    using boot_space_cong [OF boot(1)] pmm_more_vmm [OF s1(4)] by metis
  have keep: "boot_space d t v \<Longrightarrow> boot_space d t (internal_page_frames_state_bitmap_set b v)" for b and v :: "'a vmm_scheme"
    using boot_space_cong pmm_more_vmm [OF bitmap_set_fields(4)] by metis
  have b2: "boot_space d t s2"
    using boot_space_cong [OF keep [OF bs, of "ucast f1"], of s2] by (simp add: s2_def)
  have ne: "f1 \<noteq> d" "f1 \<noteq> t" "f2 \<noteq> d" "f2 \<noteq> t" "f1 \<noteq> f2" "f1 \<noteq> 0" "f2 \<noteq> 0" and low1: "unat f1 < 0x3FF"
    using boot f1(1) f2(1,2) low by (auto simp: initially_free_def word_nat)
  have b4: "boot_space d t s4" unfolding s4_def s3_def using ne by (intro keep boot_space_set b2)
  have "clear_page (frame_paddr f1) s2 = retK () s3"
    using boot_update(2) [OF b2 low1, of 0] by (simp add: s3_def)
  moreover have "pmm_alloc_frame_int s1 = (frame_paddr f1, internal_page_frames_state_bitmap_set (ucast f1) s1)"
    using f1 free by (intro alloc_lowest) auto
  moreover have used3: "used (ucast g) s3 \<longleftrightarrow> g = f1 \<or> \<not> initially_free es ks ke g" for g
    using free [of g] by (simp add: s3_def s2_def word_unat_eq_iff [of "ucast g"] word_unat_eq_iff [of g] unat_ucast20)
  then have "pmm_alloc_frame_int s3 = (frame_paddr f2, s4)"
    unfolding s4_def using f1 f2 ne by (intro alloc_lowest) (metis less_linear used3)+
  moreover have "pmem s4 f1 = (\<lambda>_. 0)"
    using pmm_more_vmm(1) [OF bitmap_set_fields(4), of "ucast f2" s3] by (simp add: s4_def s3_def)
  note build_tables [OF b4 ne(5) _ _ low1 low this]
  ultimately have "pmm_directory_init mm ks ke magic mbd s = retK () (load_page_directory (frame_paddr f1) u)"
    using magic s1(1) ne by (simp add: pmm_directory_init_def frame_paddr_eq_0 u_def flip: s2_def)
  moreover have used: "used (ucast g) u \<longleftrightarrow> g = f1 \<or> g = f2 \<or> \<not> initially_free es ks ke g" for g
    using used3 [of g] by (auto simp: u_def s4_def word_unat_eq_iff [of "ucast g"] word_unat_eq_iff [of g] unat_ucast20)
  moreover have more: "vmm.more u = vmm.more s" "page_directory u = P2V (frame_paddr f1)"
    "cached u = []" "pframe u = 0" "allocate u = 1"
    using s1(2,3) pmm_more_vmm(4) [OF s1(4)]
    by (simp_all add: u_def s4_def s3_def s2_def set_pmem_def internal_page_frames_state_bitmap_set_def cached_def)
  moreover have "used 0 u" using used [of 0] by (simp add: initially_free_def)
  moreover have "pmem u f1 = directory_words f1 f2" "pmem u f2 = (\<lambda>k. table_entry (ucast k))"
    using ne by (simp_all add: u_def)
  ultimately show ?thesis by (auto simp: pmm_inv_def)
qed


lemma frame_paddr_div: "frame_paddr f div PAGE_SIZE = ucast f" and frame_paddr_aligned: "page_aligned (frame_paddr f)"
  unfolding word_unat_eq_iff unat_div unat_ucast20 page_aligned_def by (simp_all add: unat_frame_paddr)

lemma loaded_inv:
  assumes "pmm_inv u" and "cached u = []" and "pmem u f1 = directory_words f1 f2" and "f1 \<noteq> f2"
    and "used (ucast f1) u" "used (ucast f2) u"
  shows "vmm_inv (load_page_directory (frame_paddr f1) u)"
proof -
  let ?s = "load_page_directory (frame_paddr f1) u"
  have same: "pmm_inv ?s = pmm_inv u" "outstanding ?s = outstanding u" "pmem ?s = pmem u" "cr3 ?s = frame_paddr f1" "tlb ?s = (\<lambda>_. None)"
    by (simp_all add: load_page_directory_def pmm_inv_def outstanding_def used_frames_def cached_def used_iff)
  have "frame_paddr f1 \<in> outstanding u" "frame_paddr f2 \<in> outstanding u"
    using assms(2,5,6) by (simp_all add: outstanding_def used_frames_def frame_paddr_div frame_paddr_aligned)
  then have "tables_ok ?s"
    using assms(3,4) by (auto simp: tables_ok_def recursive_def same directory_words_def split: if_splits)
  then show ?thesis using assms(1) by (simp add: vmm_inv_def tlb_coherent_def same)
qed

text \<open>C11: \<open>pmm_directory_init\<close> establishes the page tables' invariant. When the boot loader's magic and
  flags are right, the memory map is well-formed, the boot tables lie in frames that are not free,
  and the two lowest free frames lie below 0x3FF000 (where \<open>boot.S\<close> maps them), it returns without a
  fault; the directory is the lowest free frame, the first 4 MB are mapped at 0 and at
  \<open>KERNEL_VIRT_OFFSET\<close>, writable and for the kernel only, and nothing else below the recursive window
  is mapped.\<close>

theorem pmm_directory_init_correct:
  assumes "mmap_chain mm (mmap_addr mbd + mmap_length mbd) (mmap_addr mbd) es"
    and "\<forall>e \<in> set es. region_available e \<longrightarrow> region_ok e"
    and "magic = MULTIBOOT_BOOTLOADER_MAGIC" and "drop_bit 6 (mb_flags mbd) AND 1 \<noteq> 0"
    and "boot_space d t s" and "\<not> initially_free es kernel_start kernel_end d" and "\<not> initially_free es kernel_start kernel_end t"
    and "allocate s = 1" and "pframe s = 0"
    and "initially_free es kernel_start kernel_end f1" and "\<forall>g < f1. \<not> initially_free es kernel_start kernel_end g"
    and "initially_free es kernel_start kernel_end f2" and "f1 < f2"
    and "\<forall>g. f1 < g \<and> g < f2 \<longrightarrow> \<not> initially_free es kernel_start kernel_end g" and "unat f2 < 0x3FF"
  shows "\<exists>s'. pmm_directory_init mm kernel_start kernel_end magic mbd s = retK () s'
    \<and> vmm_inv s' \<and> cr3 s' = frame_paddr f1 \<and> page_directory s' = P2V (frame_paddr f1)
    \<and> (\<forall>v. v < 0xFFC00000 \<longrightarrow> mmu_walk s' v =
         (if v < 0x400000 then Some \<lparr>x_frame = frame_of v, x_write = True, x_user = False\<rparr>
          else if KERNEL_VIRT_OFFSET \<le> v \<and> v < 0xC0400000 then
            Some \<lparr>x_frame = frame_of (V2P v), x_write = True, x_user = False\<rparr>
          else None))"
proof -
  obtain u where u: "pmm_directory_init mm kernel_start kernel_end magic mbd s = retK () (load_page_directory (frame_paddr f1) u)"
    "pmm_inv u" "cached u = []" "pmem u f1 = directory_words f1 f2" "pmem u f2 = (\<lambda>k. table_entry (ucast k))"
    "page_directory u = P2V (frame_paddr f1)" "used (ucast f1) u" "used (ucast f2) u"
    using pmm_directory_init_spec [OF assms(1-10) _ assms(12,13) _ assms(15)] assms(11,14) by blast
  let ?s = "load_page_directory (frame_paddr f1) u"
  have "f1 \<noteq> f2" using assms(13) by simp
  note loaded_space [OF this, of _ ?s] loaded_inv [OF u(2-4) this u(7,8)]
  with u show ?thesis by (auto simp: load_page_directory_def)
qed

text \<open>The state \<open>boot.S\<close> leaves, with its tables in frames 0x110 and 0x111, for the witness.\<close>

definition boot_state :: vmm where
  "boot_state = \<lparr>page_frames_state_bitmap = \<lambda>_. 0, page_frames_len = 0, total_free_memory = 0,
     pre_frames = \<lambda>_. 0, allocate = 1, pframe = 0,
     pmem = \<lambda>f i. if f = 0x110 then (if i = 0 \<or> i = 768 then boot_entry 0x111 else 0)
              else if f = 0x111 then boot_entry (if i = 1023 then 0xB8 else ucast i) else 0,
     cr3 = frame_paddr 0x110, tlb = \<lambda>_. None, page_directory = 0\<rparr>"

definition example_entries :: "mmap_entry list" where
  "example_entries = [example_mmap 0x100, example_mmap 0x118]"

lemma example_free: "initially_free example_entries 0x100000 0xC0120008 f \<longleftrightarrow> 0x121 \<le> unat f \<and> unat f < 0x7FE0"
  by (auto simp: initially_free_def example_entries_def example_mmap_def region_available_def frame_in_def mm_base_def mm_limit_def unat_ucast20)

text \<open>Witness of C11: a kernel image of 0x20008 bytes at 1 MB; the directory is frame 0x121.\<close>

theorem pmm_directory_init_correct_witness:
  "\<exists>s'. pmm_directory_init example_mmap 0x100000 0xC0120008 MULTIBOOT_BOOTLOADER_MAGIC
       \<lparr>mb_flags = 64, mmap_length = 48, mmap_addr = 0x100\<rparr> boot_state = retK () s'
     \<and> vmm_inv s' \<and> cr3 s' = frame_paddr 0x121
     \<and> mmu_walk s' 0xC0000000 = Some \<lparr>x_frame = 0, x_write = True, x_user = False\<rparr> \<and> mmu_walk s' 0x400000 = None"
proof -
  let ?mbd = "\<lparr>mb_flags = 64, mmap_length = 48, mmap_addr = 0x100\<rparr> :: multiboot_info"
  have "mmap_chain example_mmap (mmap_addr ?mbd + mmap_length ?mbd) (mmap_addr ?mbd) example_entries"
    and "\<forall>e \<in> set example_entries. region_available e \<longrightarrow> region_ok e"
    by (simp_all add: example_mmap_def example_entries_def region_ok_def mm_base_def mm_limit_def)
  moreover have "boot_space 0x110 0x111 boot_state"
    by (simp add: boot_space_def boot_state_def tlb_coherent_def)
  moreover have "allocate boot_state = 1" "pframe boot_state = 0" by (simp_all add: boot_state_def)
  moreover have "drop_bit 6 (mb_flags ?mbd) AND 1 \<noteq> 0" by simp
  moreover have "f2 = g" if "unat f2 = unat g" for f2 g :: "20 word" using that by (simp add: word_unat_eq_iff)
  moreover have "frame_of (V2P 0xC0000000) = 0" by (simp add: frame_of_def V2P_def)
  ultimately show ?thesis
    using pmm_directory_init_correct [of example_mmap ?mbd example_entries MULTIBOOT_BOOTLOADER_MAGIC "0x110" "0x111"
        boot_state "0x100000" "0xC0120008" "0x121" "0x122"]
    unfolding example_free by (auto simp: word_nat)
qed

text \<open>Without the loader's magic number or without a memory map \<open>pmm_directory_init\<close> aborts before
  it touches the bitmap, and it aborts when the map leaves no free frame.\<close>

theorem pmm_directory_init_abort:
  assumes "magic \<noteq> MULTIBOOT_BOOTLOADER_MAGIC \<or> drop_bit 6 (mb_flags mbd) AND 1 = 0
    \<or> (mmap_chain mm (mmap_addr mbd + mmap_length mbd) (mmap_addr mbd) es
       \<and> (\<forall>e \<in> set es. region_available e \<longrightarrow> region_ok e) \<and> (\<forall>f. \<not> initially_free es kernel_start kernel_end f))"
  shows "\<exists>msg. pmm_directory_init mm kernel_start kernel_end magic mbd s = panicK (Abort msg)"
proof (cases "magic \<noteq> MULTIBOOT_BOOTLOADER_MAGIC \<or> drop_bit 6 (mb_flags mbd) AND 1 = 0")
  case True
  then show ?thesis by (auto simp: pmm_directory_init_def)
next
  case False
  with assms have map: "mmap_chain mm (mmap_addr mbd + mmap_length mbd) (mmap_addr mbd) es"
    "\<forall>e \<in> set es. region_available e \<longrightarrow> region_ok e" and none: "\<And>f. \<not> initially_free es kernel_start kernel_end f" by auto
  obtain s1 where s1: "pmm_frames_init mm mbd kernel_start kernel_end s = Some s1"
    and used: "\<And>f :: 20 word. used (ucast f) s1"
    using frames_init_free [OF map, of kernel_start kernel_end s] none by auto
  have full: "used f s1" if "unat f < 2 ^ 20" for f
  proof -
    have "ucast (ucast f :: 20 word) = f"
      using that by (simp add: word_unat_eq_iff [where 'a = 32] unsigned_ucast_eq unat_mod take_bit_eq_mod)
    then show ?thesis using used [of "ucast f"] by simp
  qed
  have "pmm_alloc_frame_int s1 = (NULL, s1)"
    using full by (cases s1 rule: pmm_alloc_frame_int_cases) auto
  with False s1 show ?thesis by (auto simp: pmm_directory_init_def)
qed

text \<open>At a concrete state.\<close>

theorem pmm_directory_init_abort_witness:
  "\<exists>msg. pmm_directory_init example_mmap 0x100000 0xC0120008 MULTIBOOT_BOOTLOADER_MAGIC
       \<lparr>mb_flags = 0, mmap_length = 48, mmap_addr = 0x100\<rparr> boot_state = panicK (Abort msg)"
  using pmm_directory_init_abort [of MULTIBOOT_BOOTLOADER_MAGIC "\<lparr>mb_flags = 0, mmap_length = 48, mmap_addr = 0x100\<rparr>"] by simp

end
