(* ===== verification/Scheduler.thy ===== *)
theory Scheduler
  imports Vmm
begin

text \<open>
  The core of the scheduler (\<open>scheduler/scheduler.c\<close>, \<open>scheduler/switch_to_task.S\<close>): the scheduler
  lock, the ready queue and the task switch. Task control blocks live in a typed store indexed by
  their addresses. The saved stack pointer of a suspended task stands for the place where it goes
  on; the model keeps that place as \<open>resume\<close>: a new task starts in \<open>task_start_up\<close>, a task
  suspended by the \<open>schedule\<close> inside \<open>unlock_scheduler\<close> goes on with the rest of that function, any
  other returns from \<open>schedule\<close>.
\<close>

section \<open>State\<close>

abbreviation (input) TASK_STATE_TERMINATED :: u32 where "TASK_STATE_TERMINATED \<equiv> - 2"
abbreviation (input) TASK_STATE_NOT_FOUND :: u32 where "TASK_STATE_NOT_FOUND \<equiv> - 1"
abbreviation (input) TASK_STATE_DEAD :: u32 where "TASK_STATE_DEAD \<equiv> 0"
abbreviation (input) TASK_STATE_READY_TO_RUN :: u32 where "TASK_STATE_READY_TO_RUN \<equiv> 1"
abbreviation (input) TASK_STATE_RUNNING :: u32 where "TASK_STATE_RUNNING \<equiv> 2"
abbreviation (input) TASK_STATE_SLEEPING :: u32 where "TASK_STATE_SLEEPING \<equiv> 3"

text \<open>\<open>state\<close> is the C \<open>int\<close> as a word; \<open>tid\<close>, \<open>tcb_cr3\<close> and \<open>tnext\<close> are the source's \<open>id\<close>, \<open>cr3\<close>
  and \<open>next\<close>.\<close>

record TaskControlBlock =
  tid :: u32
  esp :: u32
  esp0 :: u32
  tcb_cr3 :: u32
  tnext :: u32
  state :: u32
  time_used :: u64
  stack_base :: u32
  target_wakeup_time :: u64

datatype resume_point = Fresh | InUnlock | Plain

record sched = vmm +
  last_tick :: u64
  current_pid :: u64
  IRQ_disable_counter :: u32
  postpone_task_switches_counter :: u32
  task_switches_postponed_flag :: u8
  current_task_PCB :: u32
  first_ready_to_run_task :: u32
  last_ready_to_run_task :: u32
  dead_tasks :: u32
  sleeping_taskes :: u32
  tcb :: "u32 \<Rightarrow> TaskControlBlock"
  resume :: "u32 \<Rightarrow> resume_point"
  tss_esp0 :: u32
  ticks_since_boot :: u64
  irq_enabled :: bool

definition upd_tcb :: "u32 \<Rightarrow> (TaskControlBlock \<Rightarrow> TaskControlBlock) \<Rightarrow> 'z sched_scheme \<Rightarrow> 'z sched_scheme" where
  "upd_tcb p f s = s\<lparr>tcb := (tcb s)(p := f (tcb s p))\<rparr>"

section \<open>Operations\<close>

definition read_ticks_since_boot :: "'z sched_scheme \<Rightarrow> u64" where
  "read_ticks_since_boot s = ticks_since_boot s"

definition update_time_used :: "'z sched_scheme \<Rightarrow> 'z sched_scheme" where
  "update_time_used s =
     (let current_tick = read_ticks_since_boot s;
          elapsed = current_tick - last_tick s;
          s = s\<lparr>last_tick := current_tick\<rparr>
      in upd_tcb (current_task_PCB s) (\<lambda>t. t\<lparr>time_used := time_used t + elapsed\<rparr>) s)"

definition lock_scheduler :: "'z sched_scheme \<Rightarrow> 'z sched_scheme" where
  "lock_scheduler s =
     s\<lparr>IRQ_disable_counter := IRQ_disable_counter s + 1,
       postpone_task_switches_counter := postpone_task_switches_counter s + 1, irq_enabled := False\<rparr>"

text \<open>The last lines of \<open>unlock_scheduler\<close>.\<close>

definition unlock_tail :: "'z sched_scheme \<Rightarrow> 'z sched_scheme" where
  "unlock_tail s =
     (let s = s\<lparr>IRQ_disable_counter := IRQ_disable_counter s - 1\<rparr>
      in if IRQ_disable_counter s = 0 then s\<lparr>irq_enabled := True\<rparr> else s)"

text \<open>What the resumed task does before it is back in its own code.\<close>

definition resume_task :: "'z sched_scheme \<Rightarrow> 'z sched_scheme" where
  "resume_task s =
     (let p = resume s (current_task_PCB s);
          s = s\<lparr>resume := (resume s)(current_task_PCB s := Plain)\<rparr>
      in case p of Fresh \<Rightarrow> s\<lparr>irq_enabled := True\<rparr> | InUnlock \<Rightarrow> unlock_tail s | Plain \<Rightarrow> s)"

text \<open>Suspending the current task and loading the next one; \<open>movb\<close> writes the low byte of \<open>state\<close>.\<close>

definition load_task :: "resume_point \<Rightarrow> u32 \<Rightarrow> 'z sched_scheme \<Rightarrow> 'z sched_scheme" where
  "load_task r nxt s =
     (let s = s\<lparr>resume := (resume s)(current_task_PCB s := r)\<rparr>;
          s = s\<lparr>current_task_PCB := nxt\<rparr>;
          s = upd_tcb nxt (\<lambda>t. t\<lparr>state := (state t AND NOT 0xFF) OR TASK_STATE_RUNNING\<rparr>) s;
          s = s\<lparr>tss_esp0 := esp0 (tcb s nxt)\<rparr>
      in if tcb_cr3 (tcb s nxt) = cr3 s then s else s\<lparr>cr3 := tcb_cr3 (tcb s nxt), tlb := \<lambda>_. None\<rparr>)"

definition switch_to_task :: "resume_point \<Rightarrow> u32 \<Rightarrow> 'z sched_scheme \<Rightarrow> (unit, 'z sched_scheme) kres option" where
  "switch_to_task r nxt s =
     (if postpone_task_switches_counter s \<noteq> 0 then retK () (s\<lparr>task_switches_postponed_flag := 1\<rparr>)
      else switchK (resume_task (load_task r nxt s)))"

definition enqueue_current :: "'z sched_scheme \<Rightarrow> 'z sched_scheme" where
  "enqueue_current s =
     (let c = current_task_PCB s;
          s = upd_tcb c (\<lambda>t. t\<lparr>tnext := NULL, state := TASK_STATE_READY_TO_RUN\<rparr>) s
      in if last_ready_to_run_task s \<noteq> NULL then
           (upd_tcb (last_ready_to_run_task s) (\<lambda>t. t\<lparr>tnext := c\<rparr>) s)\<lparr>last_ready_to_run_task := c\<rparr>
         else s\<lparr>first_ready_to_run_task := c, last_ready_to_run_task := c\<rparr>)"

definition schedule_from :: "resume_point \<Rightarrow> 'z sched_scheme \<Rightarrow> (unit, 'z sched_scheme) kres option" where
  "schedule_from r s =
     (if postpone_task_switches_counter s \<noteq> 0 then retK () (s\<lparr>task_switches_postponed_flag := 1\<rparr>)
      else if first_ready_to_run_task s = NULL then retK () s
      else
        let next_task = first_ready_to_run_task s;
            s = s\<lparr>first_ready_to_run_task := tnext (tcb s next_task)\<rparr>;
            s = (if first_ready_to_run_task s = NULL then s\<lparr>last_ready_to_run_task := NULL\<rparr> else s);
            s = update_time_used s;
            s = (if state (tcb s (current_task_PCB s)) = TASK_STATE_RUNNING
                    \<or> state (tcb s (current_task_PCB s)) = TASK_STATE_READY_TO_RUN
                 then enqueue_current s else s)
        in switch_to_task r next_task s)"

definition schedule :: "'z sched_scheme \<Rightarrow> (unit, 'z sched_scheme) kres option" where
  "schedule s = schedule_from Plain s"

definition unlock_scheduler :: "'z sched_scheme \<Rightarrow> (unit, 'z sched_scheme) kres option" where
  "unlock_scheduler s =
     (let s = s\<lparr>postpone_task_switches_counter := postpone_task_switches_counter s - 1\<rparr>
      in bindK (if postpone_task_switches_counter s = 0 \<and> task_switches_postponed_flag s \<noteq> 0
                then schedule_from InUnlock (s\<lparr>task_switches_postponed_flag := 0\<rparr>) else retK () s) (\<lambda>_ s.
         retK () (unlock_tail s)))"

section \<open>The lock\<close>

text \<open>No switch is pending while the scheduler is not locked, and \<open>k\<close> more locks do not overflow the
  counters.\<close>

definition lock_ok :: "nat \<Rightarrow> 'z sched_scheme \<Rightarrow> bool" where
  "lock_ok k s \<longleftrightarrow> (postpone_task_switches_counter s = 0 \<longrightarrow> task_switches_postponed_flag s = 0)
     \<and> unat (postpone_task_switches_counter s) + k < 2 ^ 32 \<and> unat (IRQ_disable_counter s) + k < 2 ^ 32"

text \<open>The scheduler's fields after a locked section that leaves them alone.\<close>

definition unlocked :: "'z sched_scheme \<Rightarrow> 'z sched_scheme \<Rightarrow> 'z sched_scheme" where
  "unlocked s t = t\<lparr>IRQ_disable_counter := IRQ_disable_counter s,
     postpone_task_switches_counter := postpone_task_switches_counter s,
     irq_enabled := (IRQ_disable_counter s = 0)\<rparr>"

lemma lock_ok_lock: "lock_ok (Suc k) s \<Longrightarrow> lock_ok k (lock_scheduler s)"
proof -
  assume a: "lock_ok (Suc k) s"
  then have "unat (postpone_task_switches_counter s + 1) = Suc (unat (postpone_task_switches_counter s))"
    by (intro unat_inc32) (simp add: lock_ok_def)
  moreover from a have "unat (IRQ_disable_counter s + 1) = Suc (unat (IRQ_disable_counter s))"
    by (intro unat_inc32) (simp add: lock_ok_def)
  ultimately show ?thesis using a by (auto simp: lock_ok_def lock_scheduler_def)
qed

lemma lock_ok_Suc: "lock_ok (Suc k) s \<Longrightarrow> lock_ok k s"
  by (simp add: lock_ok_def)

definition same_lock :: "'z sched_scheme \<Rightarrow> 'z sched_scheme \<Rightarrow> bool" where
  "same_lock s t \<longleftrightarrow> IRQ_disable_counter t = IRQ_disable_counter s
     \<and> postpone_task_switches_counter t = postpone_task_switches_counter s
     \<and> task_switches_postponed_flag t = task_switches_postponed_flag s \<and> irq_enabled t = irq_enabled s"

lemma unlock_locked:
  assumes "lock_ok k s" and "same_lock (lock_scheduler s) t"
  shows "unlock_scheduler t = retK () (unlocked s t)"
proof -
  have "postpone_task_switches_counter t = 1 \<Longrightarrow> task_switches_postponed_flag t = 0"
    using assms by (auto simp: lock_ok_def same_lock_def lock_scheduler_def)
  moreover have "t = t\<lparr>irq_enabled := False\<rparr>" using assms(2) by (simp add: same_lock_def lock_scheduler_def)
  ultimately show ?thesis
    using assms(2)
    by (auto simp: unlock_scheduler_def unlock_tail_def unlocked_def same_lock_def lock_scheduler_def Let_def)
qed


section \<open>The ready queue\<close>

abbreviation tnexts :: "'z sched_scheme \<Rightarrow> u32 \<Rightarrow> u32" where
  "tnexts s \<equiv> \<lambda>p. tnext (tcb s p)"

definition ready_queue :: "'z sched_scheme \<Rightarrow> u32 list \<Rightarrow> bool" where
  "ready_queue s xs \<longleftrightarrow> chain (tnexts s) (first_ready_to_run_task s) xs
     \<and> last_ready_to_run_task s = (if xs = [] then NULL else last xs)"

definition runnable :: "'z sched_scheme \<Rightarrow> bool" where
  "runnable s \<longleftrightarrow> state (tcb s (current_task_PCB s)) = TASK_STATE_RUNNING
     \<or> state (tcb s (current_task_PCB s)) = TASK_STATE_READY_TO_RUN"

lemma upd_tcb_simps [simp]:
  "tcb (upd_tcb p f s) = (tcb s)(p := f (tcb s p))"
  "current_task_PCB (upd_tcb p f s) = current_task_PCB s"
  "first_ready_to_run_task (upd_tcb p f s) = first_ready_to_run_task s"
  "last_ready_to_run_task (upd_tcb p f s) = last_ready_to_run_task s"
  "dead_tasks (upd_tcb p f s) = dead_tasks s" "sleeping_taskes (upd_tcb p f s) = sleeping_taskes s"
  "postpone_task_switches_counter (upd_tcb p f s) = postpone_task_switches_counter s"
  "task_switches_postponed_flag (upd_tcb p f s) = task_switches_postponed_flag s"
  "IRQ_disable_counter (upd_tcb p f s) = IRQ_disable_counter s" "irq_enabled (upd_tcb p f s) = irq_enabled s"
  "resume (upd_tcb p f s) = resume s" "ticks_since_boot (upd_tcb p f s) = ticks_since_boot s"
  "last_tick (upd_tcb p f s) = last_tick s" "sched.more (upd_tcb p f s) = sched.more s" "cr3 (upd_tcb p f s) = cr3 s"
  by (simp_all add: upd_tcb_def)

lemma resume_task_simps [simp]:
  "tcb (resume_task s) = tcb s" "current_task_PCB (resume_task s) = current_task_PCB s"
  "first_ready_to_run_task (resume_task s) = first_ready_to_run_task s"
  "last_ready_to_run_task (resume_task s) = last_ready_to_run_task s"
  "dead_tasks (resume_task s) = dead_tasks s" "sleeping_taskes (resume_task s) = sleeping_taskes s"
  "postpone_task_switches_counter (resume_task s) = postpone_task_switches_counter s"
  "task_switches_postponed_flag (resume_task s) = task_switches_postponed_flag s"
  "ticks_since_boot (resume_task s) = ticks_since_boot s" "last_tick (resume_task s) = last_tick s"
  "sched.more (resume_task s) = sched.more s" "cr3 (resume_task s) = cr3 s" "tss_esp0 (resume_task s) = tss_esp0 s"
  by (simp_all add: resume_task_def unlock_tail_def Let_def split: resume_point.split)

text \<open>Appending the running task to the queue.\<close>

lemma enqueue_current_queue:
  assumes "ready_queue s xs" and "current_task_PCB s \<noteq> NULL" and "current_task_PCB s \<notin> set xs"
  shows "ready_queue (enqueue_current s) (xs @ [current_task_PCB s])"
proof (cases "xs = []")
  case True
  with assms show ?thesis by (simp add: ready_queue_def enqueue_current_def Let_def)
next
  case False
  let ?c = "current_task_PCB s"
  have l: "last xs \<in> set xs" using False by simp
  then have ne: "last xs \<noteq> ?c" "last xs \<noteq> NULL"
    using assms chain_not_NULL by (auto simp: ready_queue_def)
  have "tnexts (enqueue_current s) = (tnexts s)(last xs := ?c, ?c := NULL)"
    using assms(1) False ne by (auto simp: ready_queue_def enqueue_current_def Let_def)
  with chain_snoc [of "tnexts s" "first_ready_to_run_task s" xs ?c] assms False ne show ?thesis
    by (simp add: ready_queue_def enqueue_current_def Let_def del: fun_upd_apply)
qed

definition popped :: "'z sched_scheme \<Rightarrow> 'z sched_scheme" where
  "popped s =
     (let s = s\<lparr>first_ready_to_run_task := tnext (tcb s (first_ready_to_run_task s))\<rparr>;
          s = (if first_ready_to_run_task s = NULL then s\<lparr>last_ready_to_run_task := NULL\<rparr> else s)
      in update_time_used s)"

lemma popped_simps [simp]:
  "current_task_PCB (popped s) = current_task_PCB s" "dead_tasks (popped s) = dead_tasks s"
  "sleeping_taskes (popped s) = sleeping_taskes s"
  "postpone_task_switches_counter (popped s) = postpone_task_switches_counter s"
  "task_switches_postponed_flag (popped s) = task_switches_postponed_flag s"
  "state (tcb (popped s) p) = state (tcb s p)" "tnext (tcb (popped s) p) = tnext (tcb s p)"
  "IRQ_disable_counter (popped s) = IRQ_disable_counter s" "resume (popped s) = resume s"
  by (simp_all add: popped_def update_time_used_def Let_def)

lemma popped_queue: "ready_queue s (n # xs) \<Longrightarrow> ready_queue (popped s) xs"
  using chain_NULL [of "tnexts s" "tnext (tcb s n)" xs]
  by (auto simp: ready_queue_def popped_def Let_def update_time_used_def cong: if_cong intro: iffD1 [OF chain_cong, rotated])

lemma schedule_from_eq:
  assumes "postpone_task_switches_counter s = 0" and "first_ready_to_run_task s \<noteq> NULL"
  shows "schedule_from r s = switch_to_task r (first_ready_to_run_task s)
    (if runnable s then enqueue_current (popped s) else popped s)"
proof -
  have "runnable (popped s) = runnable s" by (simp add: runnable_def)
  then show ?thesis
    using assms by (simp add: schedule_from_def popped_def runnable_def Let_def)
qed


lemma enqueue_current_simps [simp]:
  "current_task_PCB (enqueue_current s) = current_task_PCB s" "dead_tasks (enqueue_current s) = dead_tasks s"
  "sleeping_taskes (enqueue_current s) = sleeping_taskes s"
  "postpone_task_switches_counter (enqueue_current s) = postpone_task_switches_counter s"
  "task_switches_postponed_flag (enqueue_current s) = task_switches_postponed_flag s"
  "state (tcb (enqueue_current s) p) = (if p = current_task_PCB s then TASK_STATE_READY_TO_RUN else state (tcb s p))"
  "time_used (tcb (enqueue_current s) p) = time_used (tcb s p)"
  "IRQ_disable_counter (enqueue_current s) = IRQ_disable_counter s" "resume (enqueue_current s) = resume s"
  by (simp_all add: enqueue_current_def Let_def)

lemma load_task_simps [simp]:
  "resume (load_task r n s) = (resume s)(current_task_PCB s := r)" "current_task_PCB (load_task r n s) = n"
  "IRQ_disable_counter (load_task r n s) = IRQ_disable_counter s"
  "postpone_task_switches_counter (load_task r n s) = postpone_task_switches_counter s"
  "task_switches_postponed_flag (load_task r n s) = task_switches_postponed_flag s"
  by (simp_all add: load_task_def Let_def)

lemma switch_to_task_spec:
  assumes "postpone_task_switches_counter s = 0"
  shows "\<exists>s'. switch_to_task r n s = switchK s' \<and> current_task_PCB s' = n
    \<and> (\<forall>p. state (tcb s' p) = (if p = n then (state (tcb s n) AND NOT 0xFF) OR TASK_STATE_RUNNING else state (tcb s p)))
    \<and> (\<forall>p. tnext (tcb s' p) = tnext (tcb s p) \<and> time_used (tcb s' p) = time_used (tcb s p))
    \<and> first_ready_to_run_task s' = first_ready_to_run_task s \<and> last_ready_to_run_task s' = last_ready_to_run_task s
    \<and> sleeping_taskes s' = sleeping_taskes s \<and> dead_tasks s' = dead_tasks s
    \<and> postpone_task_switches_counter s' = 0 \<and> task_switches_postponed_flag s' = task_switches_postponed_flag s
    \<and> tss_esp0 s' = esp0 (tcb s n) \<and> cr3 s' = tcb_cr3 (tcb s n)"
  using assms by (simp add: switch_to_task_def load_task_def Let_def)

lemma schedule_from_spec:
  assumes "postpone_task_switches_counter s = 0" and "ready_queue s (n # xs)"
    and "current_task_PCB s \<noteq> NULL" and "current_task_PCB s \<notin> set (n # xs)"
  shows "\<exists>s'. schedule_from r s = switchK s' \<and> current_task_PCB s' = n
    \<and> ready_queue s' (if runnable s then xs @ [current_task_PCB s] else xs)
    \<and> (\<forall>p. state (tcb s' p) = (if p = n then (state (tcb s n) AND NOT 0xFF) OR TASK_STATE_RUNNING
         else if p = current_task_PCB s \<and> runnable s then TASK_STATE_READY_TO_RUN else state (tcb s p)))
    \<and> (\<forall>p. time_used (tcb s' p) = (if p = current_task_PCB s
         then time_used (tcb s p) + (ticks_since_boot s - last_tick s) else time_used (tcb s p)))
    \<and> sleeping_taskes s' = sleeping_taskes s \<and> dead_tasks s' = dead_tasks s
    \<and> postpone_task_switches_counter s' = 0 \<and> task_switches_postponed_flag s' = task_switches_postponed_flag s"
proof -
  let ?t = "if runnable s then enqueue_current (popped s) else popped s"
  have first: "first_ready_to_run_task s = n" "n \<noteq> NULL" using assms(2) by (auto simp: ready_queue_def)
  have q: "ready_queue ?t (if runnable s then xs @ [current_task_PCB s] else xs)"
    using popped_queue [OF assms(2)] enqueue_current_queue [of "popped s" xs] assms(3,4) by auto
  have time: "time_used (tcb (popped s) p) = (if p = current_task_PCB s
      then time_used (tcb s p) + (ticks_since_boot s - last_tick s) else time_used (tcb s p))" for p
    by (simp add: popped_def update_time_used_def read_ticks_since_boot_def Let_def)
  have "postpone_task_switches_counter ?t = 0" using assms(1) by simp
  from switch_to_task_spec [OF this, of r n] obtain s' where s': "switch_to_task r n ?t = switchK s'"
    "current_task_PCB s' = n" "\<And>p. state (tcb s' p) = (if p = n then (state (tcb ?t n) AND NOT 0xFF) OR TASK_STATE_RUNNING else state (tcb ?t p))"
    "\<And>p. tnext (tcb s' p) = tnext (tcb ?t p)" "\<And>p. time_used (tcb s' p) = time_used (tcb ?t p)"
    "first_ready_to_run_task s' = first_ready_to_run_task ?t" "last_ready_to_run_task s' = last_ready_to_run_task ?t"
    "sleeping_taskes s' = sleeping_taskes ?t" "dead_tasks s' = dead_tasks ?t"
    "postpone_task_switches_counter s' = 0" "task_switches_postponed_flag s' = task_switches_postponed_flag ?t" by blast
  have "ready_queue s' (if runnable s then xs @ [current_task_PCB s] else xs)"
    using q s'(4,6,7) by (simp add: ready_queue_def)
  moreover have "n \<noteq> current_task_PCB s" using assms(4) by auto
  ultimately show ?thesis
    using schedule_from_eq [OF assms(1), of r] first s' by (intro exI [of _ s']) (simp add: time)
qed

section \<open>Round robin\<close>

text \<open>The scheduler is unlocked, the current task runs and the tasks \<open>xs\<close> wait for the CPU.\<close>

definition running :: "'z sched_scheme \<Rightarrow> u32 \<Rightarrow> u32 list \<Rightarrow> bool" where
  "running s c xs \<longleftrightarrow> postpone_task_switches_counter s = 0 \<and> current_task_PCB s = c \<and> c \<noteq> NULL \<and> c \<notin> set xs
     \<and> state (tcb s c) = TASK_STATE_RUNNING \<and> ready_queue s xs
     \<and> (\<forall>p \<in> set xs. state (tcb s p) = TASK_STATE_READY_TO_RUN)"

text \<open>The CPU after \<open>k\<close> calls of \<open>schedule\<close>, each made by the task then running.\<close>

primrec schedules :: "nat \<Rightarrow> 'z sched_scheme \<Rightarrow> 'z sched_scheme" where
  "schedules 0 s = s"
| "schedules (Suc k) s = schedules k (case schedule s of Some (Switched s') \<Rightarrow> s' | Some (Ret x s') \<Rightarrow> s' | _ \<Rightarrow> s)"

lemma schedule_running:
  assumes "running s c (n # xs)"
  shows "\<exists>s'. schedule s = switchK s' \<and> running s' n (xs @ [c])"
proof -
  have s: "postpone_task_switches_counter s = 0" "ready_queue s (n # xs)" "current_task_PCB s = c" "c \<noteq> NULL" "c \<notin> set (n # xs)"
    and st: "state (tcb s c) = TASK_STATE_RUNNING" "\<forall>p \<in> set (n # xs). state (tcb s p) = TASK_STATE_READY_TO_RUN"
    using assms by (auto simp: running_def)
  have "distinct (n # xs)" using s(2) unfolding ready_queue_def by (intro chain_distinct) (rule conjunct1)
  moreover have "n \<noteq> NULL" using s(2) by (simp add: ready_queue_def)
  ultimately have d: "distinct (n # xs)" "n \<noteq> NULL" by simp_all
  have r: "runnable s" using st s(3) by (simp add: runnable_def)
  obtain s' where s': "schedule_from Plain s = switchK s'" "current_task_PCB s' = n" "ready_queue s' (xs @ [c])"
    "\<And>p. state (tcb s' p) = (if p = n then (state (tcb s n) AND NOT 0xFF) OR TASK_STATE_RUNNING
         else if p = c then TASK_STATE_READY_TO_RUN else state (tcb s p))"
    "postpone_task_switches_counter s' = 0"
    using schedule_from_spec [OF s(1,2), of Plain] s r by auto
  have "running s' n (xs @ [c])"
    using s' st s d unfolding running_def by auto
  with s'(1) show ?thesis by (simp add: schedule_def)
qed

lemma schedules_rotate:
  "running s c xs \<Longrightarrow> \<exists>c' xs'. running (schedules k s) c' xs' \<and> c' # xs' = rotate k (c # xs)"
proof (induction k arbitrary: s c xs)
  case (Suc k)
  show ?case
  proof (cases xs)
    case Nil
    with Suc.prems have "schedule s = retK () s"
      by (simp add: running_def ready_queue_def schedule_def schedule_from_def)
    with Suc.IH [OF Suc.prems] Nil show ?thesis by (simp add: retK_def)
  next
    case (Cons n ys)
    with schedule_running [of s c n ys] Suc.prems obtain s' where
      "schedule s = switchK s'" "running s' n (ys @ [c])" by auto
    with Suc.IH [of s' n "ys @ [c]"] Cons show ?thesis by (simp add: switchK_def rotate1_rotate_swap)
  qed
qed auto


section \<open>Accounting of the interrupt counter\<close>

text \<open>Tasks suspended inside \<open>unlock_scheduler\<close>, each of which still has to count down once.\<close>

definition in_unlock :: "'z sched_scheme \<Rightarrow> u32 set" where
  "in_unlock s = {p. resume s p = InUnlock}"

definition irq_balanced :: "nat \<Rightarrow> 'z sched_scheme \<Rightarrow> bool" where
  "irq_balanced k s \<longleftrightarrow> unat (IRQ_disable_counter s) = unat (postpone_task_switches_counter s) + card (in_unlock s) + k
     \<and> resume s (current_task_PCB s) \<noteq> InUnlock"

lemma finite_u32 [simp]: "finite (A :: u32 set)"
  by (rule finite_subset [OF subset_UNIV finite])

lemma unlock_tail_balanced: "irq_balanced 1 s \<Longrightarrow> irq_balanced 0 (unlock_tail s)"
proof -
  assume a: "irq_balanced 1 s"
  then have "1 \<le> IRQ_disable_counter s" by (simp add: irq_balanced_def word_nat)
  then have "unat (IRQ_disable_counter s - 1) = unat (IRQ_disable_counter s) - 1" by (simp add: unat_sub32)
  with a show ?thesis by (auto simp: irq_balanced_def unlock_tail_def in_unlock_def Let_def)
qed

text \<open>A switch made with \<open>k\<close> counts open hands exactly the resumed task's count down.\<close>

lemma resume_task_balanced:
  assumes "unat (IRQ_disable_counter s) = unat (postpone_task_switches_counter s) + card (in_unlock s)"
  shows "irq_balanced 0 (resume_task s)"
proof -
  let ?t = "s\<lparr>resume := (resume s)(current_task_PCB s := Plain)\<rparr>"
  have "in_unlock ?t = in_unlock s - {current_task_PCB s}" by (auto simp: in_unlock_def)
  then have "irq_balanced (if resume s (current_task_PCB s) = InUnlock then 1 else 0) ?t"
    using assms card_Suc_Diff1 [of "in_unlock s" "current_task_PCB s"]
    by (auto simp: irq_balanced_def in_unlock_def)
  then show ?thesis
    using unlock_tail_balanced [of ?t]
    by (cases "resume s (current_task_PCB s)") (auto simp: resume_task_def Let_def irq_balanced_def in_unlock_def)
qed

lemma switch_to_task_balanced:
  assumes "irq_balanced (if r = InUnlock then 1 else 0) s" and "postpone_task_switches_counter s = 0"
  shows "\<exists>s'. switch_to_task r n s = switchK s' \<and> irq_balanced 0 s'"
proof -
  have "in_unlock (load_task r n s) =
      (if r = InUnlock then insert (current_task_PCB s) (in_unlock s) else in_unlock s)"
    "current_task_PCB s \<notin> in_unlock s"
    using assms(1) by (auto simp: in_unlock_def irq_balanced_def)
  then have "irq_balanced 0 (resume_task (load_task r n s))"
    using assms by (intro resume_task_balanced) (simp add: irq_balanced_def)
  then show ?thesis using assms(2) by (simp add: switch_to_task_def)
qed

lemma schedule_from_balanced:
  assumes "irq_balanced (if r = InUnlock then 1 else 0) s" and "postpone_task_switches_counter s = 0"
  shows "\<exists>s'. schedule_from r s = switchK s' \<and> irq_balanced 0 s' \<or> schedule_from r s = retK () s"
proof (cases "first_ready_to_run_task s = NULL")
  case True
  with assms(2) show ?thesis by (simp add: schedule_from_def)
next
  case False
  let ?t = "if runnable s then enqueue_current (popped s) else popped s"
  have "irq_balanced (if r = InUnlock then 1 else 0) ?t"
    using assms(1) by (simp add: irq_balanced_def in_unlock_def)
  from switch_to_task_balanced [OF this] schedule_from_eq [OF assms(2) False] assms(2) show ?thesis by auto
qed

lemma schedule_balanced:
  assumes "irq_balanced 0 s"
  shows "\<exists>s'. irq_balanced 0 s' \<and> (schedule s = retK () s' \<or> schedule s = switchK s')"
proof (cases "postpone_task_switches_counter s = 0")
  case True
  with schedule_from_balanced [of Plain s] assms show ?thesis by (auto simp: schedule_def)
next
  case False
  then show ?thesis using assms
    by (auto simp: schedule_def schedule_from_def irq_balanced_def in_unlock_def
        intro!: exI [of _ "s\<lparr>task_switches_postponed_flag := 1\<rparr>"])
qed

lemma unlock_balanced:
  assumes "irq_balanced 0 s" and "postpone_task_switches_counter s \<noteq> 0"
  shows "\<exists>s'. irq_balanced 0 s' \<and> (unlock_scheduler s = retK () s' \<or> unlock_scheduler s = switchK s')"
proof -
  let ?t = "s\<lparr>postpone_task_switches_counter := postpone_task_switches_counter s - 1\<rparr>"
  have "1 \<le> postpone_task_switches_counter s" using assms(2) by (simp add: word_nat word_unat_eq_iff)
  then have "unat (postpone_task_switches_counter s - 1) + 1 = unat (postpone_task_switches_counter s)"
    by (simp add: unat_sub32 word_nat)
  then have bal: "irq_balanced 1 ?t" using assms(1) by (simp add: irq_balanced_def in_unlock_def)
  then have bal': "irq_balanced 1 (?t\<lparr>task_switches_postponed_flag := 0\<rparr>)" by (simp add: irq_balanced_def in_unlock_def)
  show ?thesis
  proof (cases "postpone_task_switches_counter ?t = 0 \<and> task_switches_postponed_flag ?t \<noteq> 0")
    case True
    then have "postpone_task_switches_counter (?t\<lparr>task_switches_postponed_flag := 0\<rparr>) = 0" by simp
    from schedule_from_balanced [OF _ this, of InUnlock] bal' True unlock_tail_balanced [OF bal'] show ?thesis
      by (auto simp: unlock_scheduler_def Let_def)
  next
    case False
    with unlock_tail_balanced [OF bal] show ?thesis by (auto simp: unlock_scheduler_def Let_def)
  qed
qed

lemma lock_balanced:
  assumes "irq_balanced 0 s" and "unat (IRQ_disable_counter s) < 4294967295"
  shows "irq_balanced 0 (lock_scheduler s)"
  using assms unat_inc32 [of "IRQ_disable_counter s"] unat_inc32 [of "postpone_task_switches_counter s"]
  by (auto simp: irq_balanced_def lock_scheduler_def in_unlock_def)


section \<open>Runs of the scheduler\<close>

text \<open>What the code that runs on the CPU, whichever task it belongs to, does to the scheduler.\<close>

inductive sched_step :: "'z sched_scheme \<Rightarrow> 'z sched_scheme \<Rightarrow> bool" where
  lock: "unat (IRQ_disable_counter s) < 4294967295 \<Longrightarrow> sched_step s (lock_scheduler s)"
| unlock: "postpone_task_switches_counter s \<noteq> 0 \<Longrightarrow> unlock_scheduler s = retK () s' \<Longrightarrow> sched_step s s'"
| unlock_switch: "postpone_task_switches_counter s \<noteq> 0 \<Longrightarrow> unlock_scheduler s = switchK s' \<Longrightarrow> sched_step s s'"
| yield: "schedule s = retK () s' \<Longrightarrow> sched_step s s'"
| yield_switch: "schedule s = switchK s' \<Longrightarrow> sched_step s s'"
| tick: "sched_step s (s\<lparr>ticks_since_boot := ticks_since_boot s + 1\<rparr>)"

inductive_cases sched_stepE: "sched_step s s'"

definition flag_ok :: "'z sched_scheme \<Rightarrow> bool" where
  "flag_ok s \<longleftrightarrow> (postpone_task_switches_counter s = 0 \<longrightarrow> task_switches_postponed_flag s = 0)"

lemma unlock_tail_simps [simp]:
  "postpone_task_switches_counter (unlock_tail s) = postpone_task_switches_counter s"
  "task_switches_postponed_flag (unlock_tail s) = task_switches_postponed_flag s"
  by (simp_all add: unlock_tail_def Let_def)

lemma schedule_from_cases:
  obtains (postponed) "postpone_task_switches_counter s \<noteq> 0" "schedule_from r s = retK () (s\<lparr>task_switches_postponed_flag := 1\<rparr>)"
  | (idle) "postpone_task_switches_counter s = 0" "schedule_from r s = retK () s"
  | (switched) s' where "postpone_task_switches_counter s = 0" "schedule_from r s = switchK s'"
      "postpone_task_switches_counter s' = 0" "task_switches_postponed_flag s' = task_switches_postponed_flag s"
proof (cases "postpone_task_switches_counter s = 0 \<and> first_ready_to_run_task s \<noteq> NULL")
  case True
  let ?t = "if runnable s then enqueue_current (popped s) else popped s"
  have eq: "schedule_from r s = switchK (resume_task (load_task r (first_ready_to_run_task s) ?t))"
    using True schedule_from_eq [of s r] by (simp add: switch_to_task_def)
  show ?thesis by (rule switched [OF _ eq]) (use True in simp_all)
next
  case False
  show ?thesis
  proof (cases "postpone_task_switches_counter s = 0")
    case True
    with False have "schedule_from r s = retK () s" by (simp add: schedule_from_def)
    with True show ?thesis by (rule idle)
  next
    case locked: False
    then have "schedule_from r s = retK () (s\<lparr>task_switches_postponed_flag := 1\<rparr>)" by (simp add: schedule_from_def)
    with locked show ?thesis by (rule postponed)
  qed
qed

lemma schedule_flag:
  assumes "flag_ok s"
  shows "schedule s = retK () s' \<Longrightarrow> flag_ok s'" and "schedule s = switchK s' \<Longrightarrow> flag_ok s'"
  using assms by (cases rule: schedule_from_cases [where s = s and r = Plain]; auto simp: schedule_def flag_ok_def)+

lemma unlock_flag:
  assumes "flag_ok s"
  shows "unlock_scheduler s = retK () s' \<Longrightarrow> flag_ok s'" and "unlock_scheduler s = switchK s' \<Longrightarrow> flag_ok s'"
  using assms
  by (cases rule: schedule_from_cases [where r = InUnlock and s =
        "s\<lparr>postpone_task_switches_counter := postpone_task_switches_counter s - 1, task_switches_postponed_flag := 0\<rparr>"]; auto simp: unlock_scheduler_def flag_ok_def Let_def split: if_splits)+

text \<open>Interrupts are off while the scheduler is locked, and on when the counter is 0.\<close>

definition irq_flag_ok :: "'z sched_scheme \<Rightarrow> bool" where
  "irq_flag_ok s \<longleftrightarrow> (postpone_task_switches_counter s \<noteq> 0 \<longrightarrow> \<not> irq_enabled s) \<and> (IRQ_disable_counter s = 0 \<longrightarrow> irq_enabled s)"

lemma switch_irq_flag:
  assumes "postpone_task_switches_counter s = 0" and "IRQ_disable_counter s = 0 \<longrightarrow> irq_enabled s" and "schedule_from r s = switchK s'"
  shows "irq_flag_ok s'"
proof -
  let ?t = "if runnable s then enqueue_current (popped s) else popped s"
  have "first_ready_to_run_task s \<noteq> NULL" using assms(1,3) by (auto simp: schedule_from_def)
  then have s': "s' = resume_task (load_task r (first_ready_to_run_task s) ?t)"
    using assms(1,3) schedule_from_eq [of s r] by (simp add: switch_to_task_def split: if_splits)
  have "irq_enabled (popped s) = irq_enabled s" by (simp add: popped_def update_time_used_def upd_tcb_def Let_def)
  then have "irq_enabled ?t = irq_enabled s" by (simp add: enqueue_current_def upd_tcb_def Let_def)
  then have "irq_enabled (load_task r p ?t) = irq_enabled s" for p by (simp add: load_task_def upd_tcb_def Let_def)
  with assms(1,2) show ?thesis unfolding s'
    by (auto simp: irq_flag_ok_def resume_task_def unlock_tail_def Let_def split: resume_point.split)
qed

lemma schedule_irq_flag:
  assumes "irq_flag_ok s" and "schedule s = retK () s' \<or> schedule s = switchK s'"
  shows "irq_flag_ok s'"
proof (cases rule: schedule_from_cases [where s = s and r = Plain])
  case (switched t)
  with switch_irq_flag [of s Plain t] assms show ?thesis by (auto simp: schedule_def irq_flag_ok_def)
qed (use assms in \<open>auto simp: schedule_def irq_flag_ok_def\<close>)

lemma unlock_irq_flag:
  assumes "irq_flag_ok s" and "irq_balanced 0 s" and "postpone_task_switches_counter s \<noteq> 0"
    and "unlock_scheduler s = retK () s' \<or> unlock_scheduler s = switchK s'"
  shows "irq_flag_ok s'"
proof -
  let ?t = "s\<lparr>postpone_task_switches_counter := postpone_task_switches_counter s - 1\<rparr>"
  let ?u = "?t\<lparr>task_switches_postponed_flag := 0\<rparr>"
  have "1 \<le> postpone_task_switches_counter s" using assms(3) by (simp add: word_nat word_unat_eq_iff)
  then have p: "unat (postpone_task_switches_counter s - 1) + 1 = unat (postpone_task_switches_counter s)"
    by (simp add: unat_sub32 word_nat)
  then have "1 \<le> IRQ_disable_counter s" using assms(2) by (simp add: irq_balanced_def word_nat)
  then have i: "unat (IRQ_disable_counter s - 1) + 1 = unat (IRQ_disable_counter s)" "IRQ_disable_counter s \<noteq> 0"
    by (auto simp: unat_sub32 word_nat)
  have "IRQ_disable_counter s - 1 = 0 \<longrightarrow> postpone_task_switches_counter s - 1 = 0"
    using p i(1) assms(2) unfolding irq_balanced_def word_unat_eq_iff unat_0 by linarith
  then have tail: "irq_flag_ok (unlock_tail v)" if "v = ?t \<or> v = ?u" for v
    using that assms(1,3) by (auto simp: irq_flag_ok_def unlock_tail_def Let_def)
  show ?thesis
  proof (cases "postpone_task_switches_counter ?t = 0 \<and> task_switches_postponed_flag ?t \<noteq> 0")
    case True
    then have eq: "unlock_scheduler s = bindK (schedule_from InUnlock ?u) (\<lambda>_ s. retK () (unlock_tail s))"
      by (simp add: unlock_scheduler_def Let_def)
    have u: "postpone_task_switches_counter ?u = 0" "IRQ_disable_counter ?u \<noteq> 0" using True i(2) by simp_all
    show ?thesis
    proof (cases rule: schedule_from_cases [where s = ?u and r = InUnlock])
      case (switched w)
      then have "s' = w" using eq assms(4) by simp
      with switch_irq_flag [OF u(1) _ switched(2)] u(2) show ?thesis by simp
    next
      case idle
      then have "s' = unlock_tail ?u" using eq assms(4) by simp
      with tail [of ?u] show ?thesis by blast
    next
      case postponed
      with u(1) show ?thesis by blast
    qed
  next
    case False
    then have "unlock_scheduler s = retK () (unlock_tail ?t)" by (auto simp: unlock_scheduler_def Let_def)
    with assms(4) tail [of ?t] show ?thesis by simp
  qed
qed

lemma sched_step_irq_flag:
  assumes "sched_step s s'" and "irq_balanced 0 s" and "irq_flag_ok s"
  shows "irq_flag_ok s'"
  using assms(1)
proof cases
  case lock
  then have "IRQ_disable_counter s + 1 \<noteq> 0" by (metis unat_inc32 unat_0 Zero_not_Suc)
  with lock show ?thesis by (simp add: irq_flag_ok_def lock_scheduler_def)
next
  case tick
  with assms(3) show ?thesis by (simp add: irq_flag_ok_def)
qed (blast intro: schedule_irq_flag [OF assms(3)] unlock_irq_flag [OF assms(3,2)])+

lemma sched_step_inv:
  assumes "sched_step s s'" and "irq_balanced 0 s" and "flag_ok s"
  shows "irq_balanced 0 s' \<and> flag_ok s'"
  using assms(1)
proof cases
  case lock
  have "unat (postpone_task_switches_counter s) < 4294967295" using lock assms(2) by (simp add: irq_balanced_def)
  then have "postpone_task_switches_counter s + 1 \<noteq> 0" by (metis unat_inc32 unat_0 Zero_not_Suc)
  with lock_balanced [OF assms(2)] lock show ?thesis by (simp add: flag_ok_def lock_scheduler_def)
next
  case unlock
  with unlock_balanced [OF assms(2)] have "irq_balanced 0 s'" by auto
  with unlock_flag(1) [OF assms(3)] unlock show ?thesis by simp
next
  case unlock_switch
  with unlock_balanced [OF assms(2)] have "irq_balanced 0 s'" by auto
  with unlock_flag(2) [OF assms(3)] unlock_switch show ?thesis by simp
next
  case yield
  with schedule_balanced [OF assms(2)] schedule_flag(1) [OF assms(3)] show ?thesis by auto
next
  case yield_switch
  with schedule_balanced [OF assms(2)] schedule_flag(2) [OF assms(3)] show ?thesis by auto
next
  case tick
  with assms show ?thesis by (simp add: irq_balanced_def flag_ok_def in_unlock_def)
qed

section \<open>Properties\<close>

text \<open>A machine with the running task 0x1000 and the tasks 0x2000 and 0x3000 ready, for the witnesses.\<close>

definition blank_task :: "u32 \<Rightarrow> u32 \<Rightarrow> u32 \<Rightarrow> TaskControlBlock" where
  "blank_task i nxt st = \<lparr>tid = i, esp = 0, esp0 = 0, tcb_cr3 = 0x20000, tnext = nxt, state = st,
     time_used = 0, stack_base = 0, target_wakeup_time = 0\<rparr>"

definition three_tasks :: "'z \<Rightarrow> 'z sched_scheme" where
  "three_tasks z = empty_space \<lparr>last_tick = 0, current_pid = 2, IRQ_disable_counter = 0,
     postpone_task_switches_counter = 0, task_switches_postponed_flag = 0, current_task_PCB = 0x1000,
     first_ready_to_run_task = 0x2000, last_ready_to_run_task = 0x3000, dead_tasks = 0, sleeping_taskes = 0,
     tcb = (\<lambda>p. if p = 0x1000 then blank_task 0 0 2 else if p = 0x2000 then blank_task 1 0x3000 1 else blank_task 2 0 1),
     resume = \<lambda>_. Plain, tss_esp0 = 0, ticks_since_boot = 7, irq_enabled = True, \<dots> = z\<rparr>"

lemma three_tasks_fields:
  "postpone_task_switches_counter (three_tasks z) = 0" "IRQ_disable_counter (three_tasks z) = 0"
  "task_switches_postponed_flag (three_tasks z) = 0" "current_task_PCB (three_tasks z) = 0x1000"
  "first_ready_to_run_task (three_tasks z) = 0x2000" "last_ready_to_run_task (three_tasks z) = 0x3000"
  "tcb (three_tasks z) = (\<lambda>p. if p = 0x1000 then blank_task 0 0 2 else if p = 0x2000 then blank_task 1 0x3000 1 else blank_task 2 0 1)"
  "resume (three_tasks z) = (\<lambda>_. Plain)"
  by (simp_all add: three_tasks_def empty_space_def)

lemma three_tasks_running: "running (three_tasks z) 0x1000 [0x2000, 0x3000]"
  by (simp add: running_def ready_queue_def three_tasks_fields blank_task_def)

text \<open>C6: round robin. While the tasks keep running and none blocks, \<open>k\<close> calls of \<open>schedule\<close> give the
  CPU to the task \<open>k\<close> places further on in the circle of the current and the ready tasks, and the
  ready queue is that circle from there on: every ready task gets the CPU within one round.\<close>

theorem schedule_round_robin:
  assumes "running s c xs"
  shows "current_task_PCB (schedules k s) = (c # xs) ! (k mod length (c # xs))
    \<and> ready_queue (schedules k s) (tl (rotate k (c # xs)))"
proof -
  obtain c' xs' where r: "running (schedules k s) c' xs'" "c' # xs' = rotate k (c # xs)"
    using schedules_rotate [OF assms] by blast
  have "c' = hd (rotate k (c # xs))" "xs' = tl (rotate k (c # xs))" unfolding r(2) [symmetric] by simp_all
  moreover have "hd (rotate k (c # xs)) = (c # xs) ! (k mod length (c # xs))" by (simp add: hd_rotate_conv_nth)
  ultimately show ?thesis using r(1) by (simp add: running_def)
qed

text \<open>Witness of C6: after four calls the second of three tasks runs.\<close>

theorem schedule_round_robin_witness:
  "current_task_PCB (schedules 4 (three_tasks ())) = 0x2000
   \<and> ready_queue (schedules 4 (three_tasks ())) [0x3000, 0x1000]"
proof -
  have "rotate 4 [0x1000, 0x2000, 0x3000 :: u32] = [0x2000, 0x3000, 0x1000]" by (simp add: rotate_def numeral_eq_Suc)
  with schedule_round_robin [OF three_tasks_running [of "()"], of 4] show ?thesis by simp
qed

text \<open>One switch in full. \<open>schedule\<close>, called with the scheduler unlocked, gives the CPU to the head
  of the ready queue; the task that ran goes to the end of the queue if it was running or ready, and
  is left out if it was blocked; it is charged the ticks since the last switch, and no other task's
  account, and neither the sleeping nor the dead tasks are touched.\<close>

theorem schedule_switches:
  assumes "postpone_task_switches_counter s = 0" and "ready_queue s (n # xs)"
    and "current_task_PCB s \<noteq> NULL" and "current_task_PCB s \<notin> set (n # xs)"
  shows "\<exists>s'. schedule s = switchK s' \<and> current_task_PCB s' = n
    \<and> ready_queue s' (if state (tcb s (current_task_PCB s)) \<in> {TASK_STATE_RUNNING, TASK_STATE_READY_TO_RUN}
         then xs @ [current_task_PCB s] else xs)
    \<and> (\<forall>p. time_used (tcb s' p) = (if p = current_task_PCB s
         then time_used (tcb s p) + (ticks_since_boot s - last_tick s) else time_used (tcb s p)))
    \<and> sleeping_taskes s' = sleeping_taskes s \<and> dead_tasks s' = dead_tasks s"
  using schedule_from_spec [OF assms, of Plain] by (auto simp: schedule_def runnable_def)

text \<open>At a concrete state.\<close>

theorem schedule_switches_witness:
  "\<exists>s'. schedule (three_tasks ()) = switchK s' \<and> ready_queue s' [0x3000, 0x1000] \<and> time_used (tcb s' 0x1000) = 7"
proof -
  have "ready_queue (three_tasks ()) [0x2000, 0x3000]" using three_tasks_running [of "()"] by (simp add: running_def)
  moreover have "ticks_since_boot (three_tasks ()) = 7" "last_tick (three_tasks ()) = 0" "time_used (blank_task 0 0 2) = 0"
    "state (blank_task 0 0 2) = TASK_STATE_RUNNING"
    by (simp_all add: three_tasks_def empty_space_def blank_task_def)
  ultimately show ?thesis
    using schedule_switches [of "three_tasks ()" "0x2000" "[0x3000]"] by (auto simp: three_tasks_fields)
qed

text \<open>C24: the counters and the interrupt flag are balanced in every run. However locks, unlocks, calls of \<open>schedule\<close>, task
  switches and ticks follow each other, \<open>IRQ_disable_counter\<close> is the depth of the scheduler lock
  plus the number of tasks suspended inside \<open>unlock_scheduler\<close>; interrupts are off while the scheduler is locked and on when the
  counter is 0, so that with no task suspended there they are on exactly at depth 0; and no switch stays pending while the
  scheduler is unlocked.\<close>

theorem irq_counter_balanced:
  assumes "sched_step\<^sup>*\<^sup>* s s'" and "irq_balanced 0 s" and "irq_flag_ok s" and "flag_ok s"
  shows "unat (IRQ_disable_counter s') = unat (postpone_task_switches_counter s') + card {p. resume s' p = InUnlock}
    \<and> (postpone_task_switches_counter s' \<noteq> 0 \<longrightarrow> \<not> irq_enabled s')
    \<and> (IRQ_disable_counter s' = 0 \<longrightarrow> irq_enabled s')
    \<and> ((\<forall>p. resume s' p \<noteq> InUnlock) \<longrightarrow> (irq_enabled s' \<longleftrightarrow> postpone_task_switches_counter s' = 0))
    \<and> (postpone_task_switches_counter s' = 0 \<longrightarrow> task_switches_postponed_flag s' = 0)"
proof -
  have "irq_balanced 0 s' \<and> flag_ok s' \<and> irq_flag_ok s'"
    using assms by (induction rule: rtranclp_induct) (auto dest: sched_step_inv sched_step_irq_flag)
  then show ?thesis by (auto simp: irq_balanced_def flag_ok_def in_unlock_def irq_flag_ok_def unat_eq_0)
qed

text \<open>Witness of C24: the main loop's lock, \<open>schedule\<close> (postponed) and unlock, which switches. The task that was suspended is counted.\<close>

theorem irq_counter_balanced_witness:
  "\<exists>s'. unlock_scheduler ((lock_scheduler (three_tasks ()))\<lparr>task_switches_postponed_flag := 1\<rparr>) = switchK s'
     \<and> unat (IRQ_disable_counter s') = unat (postpone_task_switches_counter s') + card {p. resume s' p = InUnlock}
     \<and> (IRQ_disable_counter s' = 0 \<longrightarrow> irq_enabled s')"
proof -
  let ?s = "three_tasks ()" and ?t = "lock_scheduler (three_tasks ())"
  let ?u = "?t\<lparr>task_switches_postponed_flag := 1\<rparr>"
  have "sched_step ?s ?t" by (rule sched_step.lock) (simp add: three_tasks_fields)
  also have "sched_step ?t ?u"
    by (rule sched_step.yield) (simp add: schedule_def schedule_from_def lock_scheduler_def three_tasks_fields)
  moreover obtain s' where u: "unlock_scheduler ?u = switchK s'"
  proof -
    let ?v = "?u\<lparr>postpone_task_switches_counter := 0, task_switches_postponed_flag := 0\<rparr>"
    have v: "postpone_task_switches_counter ?v = 0" "first_ready_to_run_task ?v \<noteq> NULL"
      by (simp_all add: lock_scheduler_def three_tasks_fields)
    have "\<exists>s'. schedule_from InUnlock ?v = switchK s'"
      unfolding schedule_from_eq [OF v] by (simp add: switch_to_task_def)
    moreover have "unlock_scheduler ?u = bindK (schedule_from InUnlock ?v) (\<lambda>_ s. retK () (unlock_tail s))"
      by (simp add: unlock_scheduler_def lock_scheduler_def three_tasks_fields)
    ultimately show ?thesis using that by auto
  qed
  then have "sched_step ?u s'"
    by (intro sched_step.unlock_switch) (simp_all add: lock_scheduler_def three_tasks_fields)
  ultimately have "sched_step\<^sup>*\<^sup>* ?s s'" by (metis rtranclp.simps)
  moreover have "irq_balanced 0 ?s" "flag_ok ?s" "irq_flag_ok ?s"
    by (simp_all add: irq_balanced_def in_unlock_def flag_ok_def irq_flag_ok_def three_tasks_fields three_tasks_def empty_space_def)
  ultimately show ?thesis using irq_counter_balanced u by blast
qed

text \<open>A locked section gives the scheduler back as it was. If it leaves the scheduler's counters
  and flags alone, \<open>unlock_scheduler\<close> does not switch and restores them; but it turns interrupts on
  whenever the outermost lock is released, also where they were off before.\<close>

theorem lock_unlock_neutral:
  assumes "postpone_task_switches_counter s = 0 \<longrightarrow> task_switches_postponed_flag s = 0"
  shows "unlock_scheduler (lock_scheduler s) = retK () (s\<lparr>irq_enabled := (IRQ_disable_counter s = 0)\<rparr>)"
proof -
  have "unlock_scheduler (lock_scheduler s) = retK () (unlock_tail (s\<lparr>IRQ_disable_counter := IRQ_disable_counter s + 1, irq_enabled := False\<rparr>))"
    using assms by (auto simp: unlock_scheduler_def lock_scheduler_def Let_def)
  then show ?thesis by (simp add: unlock_tail_def Let_def)
qed

text \<open>Called with interrupts off, the pair leaves them on.\<close>

theorem lock_unlock_neutral_witness:
  "unlock_scheduler (lock_scheduler ((three_tasks ())\<lparr>irq_enabled := False\<rparr>)) = retK () ((three_tasks ())\<lparr>irq_enabled := True\<rparr>)"
  using lock_unlock_neutral [of "(three_tasks ())\<lparr>irq_enabled := False\<rparr>"] by (simp add: three_tasks_fields)

end
