(* ===== verification/Brk.thy ===== *)
theory Brk
  imports Scheduler
begin

text \<open>
  The program break (\<open>memory_manager/brk.c\<close>): the end of the kernel heap, moved up by mapping fresh
  frames behind it and down by unmapping pages. The state gains the globals of \<open>heap.c\<close> and the
  heap's bytes.
\<close>

section \<open>State and operations\<close>

record heap = sched +
  mem :: memory
  program_break_point :: vaddr
  heap_start :: vaddr

text \<open>The loop of \<open>increment_brk\<close>; \<open>False\<close> is its \<open>return (void *)-1\<close>.\<close>

partial_function (option) increment_brk_loop ::
  "vaddr \<Rightarrow> vaddr \<Rightarrow> 'z heap_scheme \<Rightarrow> (bool, 'z heap_scheme) kres option" where
  "increment_brk_loop vaddr new_mapped_top s =
     (if vaddr < new_mapped_top then
        case pmm_alloc_page s of (page, s) \<Rightarrow>
          if page = NULL then retK False s
          else bindK (vmm_page_map page vaddr 3 s) (\<lambda>res s.
               if res \<noteq> 0 then retK False (pmm_free_page page s)
               else increment_brk_loop (vaddr + PAGE_SIZE) new_mapped_top s)
      else retK True s)"

definition page_up :: "vaddr \<Rightarrow> vaddr" where
  "page_up a = (a + PAGE_SIZE - 1) AND NOT (PAGE_SIZE - 1)"

definition increment_brk :: "size_t \<Rightarrow> 'z heap_scheme \<Rightarrow> (u32, 'z heap_scheme) kres option" where
  "increment_brk increment s =
     (let old_program_break = program_break_point s;
          new_program_break = program_break_point s + increment;
          current_mapped_top = page_up (program_break_point s);
          new_mapped_top = page_up new_program_break
      in bindK (if current_mapped_top < new_mapped_top
                then increment_brk_loop current_mapped_top new_mapped_top s else retK True s) (\<lambda>ok s.
         if \<not> ok then retK (- 1) s
         else retK old_program_break (s\<lparr>program_break_point := new_program_break\<rparr>)))"

partial_function (option) decrement_brk_loop ::
  "vaddr \<Rightarrow> 'z heap_scheme \<Rightarrow> (unit, 'z heap_scheme) kres option" where
  "decrement_brk_loop new_program_break s =
     (if new_program_break \<le> program_break_point s - PAGE_SIZE then
        let page_addr = program_break_point s - PAGE_SIZE;
            s = pmm_free_page (V2P page_addr) s
        in bindK (vmm_page_unmap page_addr s) (\<lambda>err s.
           decrement_brk_loop new_program_break (s\<lparr>program_break_point := program_break_point s - PAGE_SIZE\<rparr>))
      else retK () s)"

definition decrement_brk :: "size_t \<Rightarrow> 'z heap_scheme \<Rightarrow> (u32, 'z heap_scheme) kres option" where
  "decrement_brk decrement s =
     (let old_program_break = program_break_point s;
          new_program_break = program_break_point s - decrement
      in if new_program_break < heap_start s then retK (- 1) s
         else bindK (decrement_brk_loop new_program_break s) (\<lambda>_ s. retK old_program_break s))"

text \<open>\<open>increment\<close> is an \<open>intptr_t\<close>: a word read as signed.\<close>

definition sbrk :: "u32 \<Rightarrow> 'z heap_scheme \<Rightarrow> (u32, 'z heap_scheme) kres option" where
  "sbrk increment s =
     (if increment = 0 then retK (program_break_point s) s
      else if 0 <s increment then increment_brk increment s
      else decrement_brk (- increment) s)"

definition brk :: "vaddr \<Rightarrow> 'z heap_scheme \<Rightarrow> (int, 'z heap_scheme) kres option" where
  "brk addr s = bindK (sbrk (addr - program_break_point s) s) (\<lambda>res s. retK (if res \<noteq> - 1 then 0 else - 1) s)"


section \<open>Growing the heap\<close>

lemma private_page_heap: "0xC0400000 \<le> v \<Longrightarrow> v < 0xFFC00000 \<Longrightarrow> private_page v"
  unfolding word_nat by (auto simp: PDX_eq)

definition mapped_writable :: "'z vmm_scheme \<Rightarrow> nat \<Rightarrow> nat \<Rightarrow> bool" where
  "mapped_writable s a b \<longleftrightarrow> (\<forall>n. a \<le> unat n * 4096 \<and> unat n * 4096 < b \<longrightarrow>
     (\<exists>x. address_space s n = Some x \<and> x_write x \<and> \<not> x_user x))"

text \<open>Each page of the range has a frame of its own, which was not outstanding in \<open>s\<close>.\<close>

definition fresh_frames :: "'z vmm_scheme \<Rightarrow> 'z vmm_scheme \<Rightarrow> nat \<Rightarrow> nat \<Rightarrow> bool" where
  "fresh_frames s s' a b \<longleftrightarrow> (\<forall>n x. a \<le> unat n * 4096 \<and> unat n * 4096 < b \<and> address_space s' n = Some x \<longrightarrow>
       frame_paddr (x_frame x) \<in> outstanding s' - outstanding s
       \<and> (\<forall>m y. a \<le> unat m * 4096 \<and> unat m * 4096 < b \<and> address_space s' m = Some y \<and> x_frame y = x_frame x \<longrightarrow> m = n))"

lemma empty_range: "mapped_writable s a a" "fresh_frames s s' a a"
  unfolding mapped_writable_def fresh_frames_def by (blast dest: leD)+

lemma vmm_alloc_page:
  assumes "vmm_inv s" and "pmm_alloc_page s = (p, t)"
  shows "vmm_inv t" "vmm.more t = vmm.more s" "address_space t = address_space s" "outstanding s \<subseteq> outstanding t"
    "pmem t = pmem s" "cr3 t = cr3 s" "p \<noteq> NULL \<Longrightarrow> p \<notin> outstanding s \<and> p \<in> outstanding t \<and> page_aligned p"
proof -
  have inv: "pmm_inv s" and tab: "tables_ok s" and coh: "tlb_coherent s" using assms(1) by (simp_all add: vmm_inv_def)
  have c: "pmm_inv t" "pmm.more t = pmm.more s" using pmm_alloc_page_cases [OF inv assms(2)] by simp_all
  note same = pmm_more_vmm [OF c(2)]
  show sub: "outstanding s \<subseteq> outstanding t" using page_alloc.alloc_held_mono [OF inv assms(2)] .
  have "tlb_coherent t" using coh same by (simp add: tlb_coherent_def walk_cong [of t s])
  with c(1) tables_ok_transfer [OF tab same(1,2) sub] show "vmm_inv t" by (simp add: vmm_inv_def)
  show "vmm.more t = vmm.more s" "pmem t = pmem s" "cr3 t = cr3 s" using same by simp_all
  show "address_space t = address_space s" using same by (intro address_space_ext walk_cong)
  show "p \<noteq> NULL \<Longrightarrow> p \<notin> outstanding s \<and> p \<in> outstanding t \<and> page_aligned p"
    using pmm_alloc_page_cases [OF inv assms(2)] by auto
qed

lemma pmm_free_page_more: "pmm.more (pmm_free_page p s) = pmm.more s"
  by (simp add: pmm_free_page_def internal_pafe_frames_state_bitmap_unset_def Let_def)

text \<open>Giving back a frame that holds no table.\<close>

lemma vmm_free_page:
  assumes "vmm_inv s" and "p \<in> outstanding s" "p \<noteq> NULL" and "fresh_frame (frame_of p) s"
  shows "vmm_inv (pmm_free_page p s)" "address_space (pmm_free_page p s) = address_space s"
    "vmm.more (pmm_free_page p s) = vmm.more s" "outstanding (pmm_free_page p s) = outstanding s - {p}"
proof -
  note same = pmm_more_vmm [OF pmm_free_page_more, of p s]
  have inv: "pmm_inv s" and tab: "tables_ok s" and coh: "tlb_coherent s" using assms(1) by (simp_all add: vmm_inv_def)
  note free = pmm_free_page_spec [OF inv assms(2,3)]
  have "frame_paddr (table s i) \<noteq> p" if "bit (pde s i) 0" for i
    using that assms(4) by (auto simp: fresh_frame_def)
  then have "tables_ok (pmm_free_page p s)" using tab same free(2) by (auto simp: tables_ok_def recursive_def)
  moreover have "tlb_coherent (pmm_free_page p s)" using coh same by (simp add: tlb_coherent_def walk_cong [of "pmm_free_page p s" s])
  ultimately show "vmm_inv (pmm_free_page p s)" using free(1) by (simp add: vmm_inv_def)
  show "address_space (pmm_free_page p s) = address_space s" using same by (intro address_space_ext walk_cong)
  show "vmm.more (pmm_free_page p s) = vmm.more s" using same by simp
  show "outstanding (pmm_free_page p s) = outstanding s - {p}" by (rule free(2))
qed


lemma heap_page_VPN: "page_aligned v \<Longrightarrow> n = VPN v \<longleftrightarrow> unat n * 4096 = unat v"
  unfolding word_unat_eq_iff unat_parts by (auto simp: page_aligned_def)

lemma fresh_frames_step:
  assumes cases: "\<And>n :: 20 word. a \<le> unat n * 4096 \<longleftrightarrow> n = m \<or> a' \<le> unat n * 4096"
    and rest: "fresh_frames u s' a' b" and first: "address_space s' m = Some x"
    and x: "frame_paddr (x_frame x) \<in> outstanding u" "frame_paddr (x_frame x) \<notin> outstanding s"
    and sub: "outstanding s \<subseteq> outstanding u" "outstanding u \<subseteq> outstanding s'"
  shows "fresh_frames s s' a b"
  unfolding fresh_frames_def
proof (intro allI impI)
  have new: "frame_paddr (x_frame y) \<in> outstanding s' - outstanding u"
    if "a' \<le> unat n * 4096" "unat n * 4096 < b" "address_space s' n = Some y" for n y
    using rest that unfolding fresh_frames_def by blast
  fix n y
  assume n: "a \<le> unat n * 4096 \<and> unat n * 4096 < b \<and> address_space s' n = Some y"
  show "frame_paddr (x_frame y) \<in> outstanding s' - outstanding s
    \<and> (\<forall>k z. a \<le> unat k * 4096 \<and> unat k * 4096 < b \<and> address_space s' k = Some z \<and> x_frame z = x_frame y \<longrightarrow> k = n)"
  proof (cases "n = m")
    case True
    with n first have "y = x" by simp
    moreover have "k = m" if "a \<le> unat k * 4096" "unat k * 4096 < b" "address_space s' k = Some z" "x_frame z = x_frame x" for k z
      using that cases [of k] new [of k z] x by auto
    ultimately show ?thesis using x sub True by blast
  next
    case False
    with n cases [of n] have r: "a' \<le> unat n * 4096" by blast
    note ny = new [OF r, of y]
    have "k = n" if "a \<le> unat k * 4096" "unat k * 4096 < b" "address_space s' k = Some z" "x_frame z = x_frame y" for k z
      using that cases [of k] ny n x first rest r unfolding fresh_frames_def by auto
    then show ?thesis using ny n sub by blast
  qed
qed

text \<open>One turn of the loop: it stops without a new page, or goes on with the page mapped to a frame of its own.\<close>

lemma increment_brk_loop_turn:
  assumes "vmm_inv s" and "v < tp" and "0xC0400000 \<le> v" and "v < 0xFFC00000"
  shows "(\<exists>s'. increment_brk_loop v tp s = retK False s' \<and> vmm_inv s' \<and> vmm.more s' = vmm.more s
      \<and> outstanding s \<subseteq> outstanding s' \<and> address_space s' = address_space s)
    \<or> (\<exists>p u. increment_brk_loop v tp s = increment_brk_loop (v + PAGE_SIZE) tp u \<and> vmm_inv u \<and> vmm.more u = vmm.more s
      \<and> outstanding s \<subseteq> outstanding u \<and> address_space u = (address_space s)(VPN v \<mapsto> page_xlate p 3)
      \<and> frame_paddr (x_frame (page_xlate p 3)) \<in> outstanding u - outstanding s)"
proof -
  obtain p t where p: "pmm_alloc_page s = (p, t)" by fastforce
  note t = vmm_alloc_page [OF assms(1) p]
  show ?thesis
  proof (cases "p = NULL")
    case True
    with t assms(2) p show ?thesis by (subst increment_brk_loop.simps) auto
  next
    case False
    note fresh = t(7) [OF False]
    from vmm_page_map_spec [OF t(1) private_page_heap [OF assms(3,4)], of p 3] obtain r u where
      u: "vmm_page_map p v 3 t = retK r u" "vmm_inv u" "cr3 u = cr3 t" "vmm.more u = vmm.more t" "outstanding t \<subseteq> outstanding u"
        "r = 0 \<and> address_space u = (address_space t)(VPN v \<mapsto> page_xlate p 3)
         \<or> r = ENOMEM \<and> pmem u = pmem t \<and> address_space u = address_space t" by blast
    show ?thesis
    proof (cases "r = 0")
      case failed: False
      have "fresh_frame (frame_of p) u"
        unfolding fresh_frame_def
      proof (intro allI impI notI)
        fix i assume "bit (pde u i) 0" "table u i = frame_of p"
        with u failed t(5,6) assms(1) have "frame_paddr (frame_of p) \<in> outstanding s"
          by (auto simp: vmm_inv_def tables_ok_def)
        with fresh frame_paddr_of show False by simp
      qed
      note free = vmm_free_page [OF u(2) _ False this]
      have "increment_brk_loop v tp s = retK False (pmm_free_page p u)"
        using assms(2) p False u failed by (subst increment_brk_loop.simps) auto
      with free u t fresh failed show ?thesis by (intro disjI1 exI [of _ "pmm_free_page p u"]) auto
    next
      case True
      then have "increment_brk_loop v tp s = increment_brk_loop (v + PAGE_SIZE) tp u"
        using assms(2) p False u by (subst increment_brk_loop.simps) auto
      moreover have "frame_paddr (x_frame (page_xlate p 3)) = p" using fresh frame_paddr_of by (simp add: page_xlate_def)
      ultimately show ?thesis using True u t fresh by (intro disjI2 exI [of _ p] exI [of _ u]) auto
    qed
  qed
qed

lemma increment_brk_loop_spec:
  assumes "vmm_inv s" and "unat tp = unat v + k * 4096" and "page_aligned v" and "0xC0400000 \<le> v" and "unat tp \<le> 0xFFC00000"
  shows "\<exists>ok s'. increment_brk_loop v tp s = retK ok s' \<and> vmm_inv s' \<and> vmm.more s' = vmm.more s
    \<and> outstanding s \<subseteq> outstanding s'
    \<and> (\<forall>n. \<not> (unat v \<le> unat n * 4096 \<and> unat n * 4096 < unat tp) \<longrightarrow> address_space s' n = address_space s n)
    \<and> (ok \<longrightarrow> mapped_writable s' (unat v) (unat tp) \<and> fresh_frames s s' (unat v) (unat tp))"
  using assms
proof (induction k arbitrary: s v)
  case 0
  then have "increment_brk_loop v tp s = retK True s" by (subst increment_brk_loop.simps) (simp add: word_nat)
  with 0 show ?case
    by (intro exI [of _ True] exI [of _ s]) (simp add: empty_range)
next
  case (Suc k)
  have lt: "v < tp" "v < 0xFFC00000" using Suc.prems(2,5) by (simp_all add: word_nat)
  have v': "unat (v + PAGE_SIZE) = unat v + 4096" using Suc.prems(2,5) by (simp add: unat_add32)
  then have al: "page_aligned (v + PAGE_SIZE)" "0xC0400000 \<le> v + PAGE_SIZE" using Suc.prems(3,4) by (simp_all add: page_aligned_def word_nat)
  from increment_brk_loop_turn [OF Suc.prems(1) lt(1) Suc.prems(4) lt(2)] show ?case
  proof (elim disjE exE conjE)
    fix p u
    assume eq: "increment_brk_loop v tp s = increment_brk_loop (v + PAGE_SIZE) tp u" and u: "vmm_inv u" "vmm.more u = vmm.more s" "outstanding s \<subseteq> outstanding u"
      and sp: "address_space u = (address_space s)(VPN v \<mapsto> page_xlate p 3)" and pfr: "frame_paddr (x_frame (page_xlate p 3)) \<in> outstanding u - outstanding s"
    from Suc.IH [OF u(1) _ al Suc.prems(5)] Suc.prems(2) v' obtain ok s' where
      s': "increment_brk_loop (v + PAGE_SIZE) tp u = retK ok s'" "vmm_inv s'" "vmm.more s' = vmm.more u" "outstanding u \<subseteq> outstanding s'"
        "\<And>n. \<not> (unat v + 4096 \<le> unat n * 4096 \<and> unat n * 4096 < unat tp) \<Longrightarrow> address_space s' n = address_space u n"
        "ok \<Longrightarrow> mapped_writable s' (unat v + 4096) (unat tp) \<and> fresh_frames u s' (unat v + 4096) (unat tp)"
      by auto
    have cases: "unat v \<le> unat n * 4096 \<longleftrightarrow> n = VPN v \<or> unat v + 4096 \<le> unat n * 4096" for n :: "20 word"
      using Suc.prems(3) heap_page_VPN [OF Suc.prems(3), of n] by (auto simp: page_aligned_def mod_eq_0_iff_dvd elim!: dvdE)
    have "\<not> unat v + 4096 \<le> unat (VPN v) * 4096" using heap_page_VPN [OF Suc.prems(3), of "VPN v"] by simp
    then have first: "address_space s' (VPN v) = Some (page_xlate p 3)" using s'(5) [of "VPN v"] sp by simp
    then have "mapped_writable s' (unat v) (unat tp)" if ok
      using s'(6) [OF that] unfolding mapped_writable_def cases by (auto simp: page_xlate_def)
    moreover have "fresh_frames s s' (unat v) (unat tp)" if ok
      using fresh_frames_step [OF cases _ first _ _ u(3) s'(4)] s'(6) [OF that] pfr by blast
    moreover have "address_space s' n = address_space s n" if "\<not> (unat v \<le> unat n * 4096 \<and> unat n * 4096 < unat tp)" for n
      using that cases [of n] heap_page_VPN [OF Suc.prems(3), of n] Suc.prems(2) s'(5) [of n] sp by auto
    ultimately show ?thesis unfolding eq using s' u by (intro exI [of _ ok] exI [of _ s']) auto
  qed auto
qed

lemma unat_page_up: "unat a + 4095 < 2 ^ 32 \<Longrightarrow> unat (page_up a) = (unat a + 4095) div 4096 * 4096"
proof -
  assume "unat a + 4095 < 2 ^ 32"
  then have "unat (a + 4095) = unat a + 4095" by (simp add: unat_add32)
  moreover have "page_up a = (a + 4095) AND - 4096" by (simp add: page_up_def add.commute)
  ultimately show ?thesis by (simp add: unat_align_page)
qed

text \<open>The heap above the boot table is mapped, up to the page the break lies in.\<close>

definition brk_inv :: "'z heap_scheme \<Rightarrow> bool" where
  "brk_inv s \<longleftrightarrow> vmm_inv s \<and> 0xC0400000 \<le> program_break_point s \<and> unat (program_break_point s) \<le> 0xFFC00000
     \<and> mapped_writable s 0xC0400000 (unat (program_break_point s))"

lemma vmm_more_heap:
  assumes "vmm.more t = vmm.more s"
  shows "program_break_point t = program_break_point s" "heap_start t = heap_start s" "mem t = mem s"
  using assms by (cases s; cases t; simp)+

lemma vmm_more_sched:
  assumes "vmm.more t = vmm.more s"
  shows "IRQ_disable_counter t = IRQ_disable_counter s" "postpone_task_switches_counter t = postpone_task_switches_counter s"
    "task_switches_postponed_flag t = task_switches_postponed_flag s" "irq_enabled t = irq_enabled s" "sched.more t = sched.more s"
  using assms by (cases s; cases t; simp)+

lemma brk_inv_cong:
  assumes "page_frames_state_bitmap t = page_frames_state_bitmap s" "pre_frames t = pre_frames s" "allocate t = allocate s"
    "pframe t = pframe s" "pmem t = pmem s" "cr3 t = cr3 s" "tlb t = tlb s" "program_break_point t = program_break_point s"
  shows "brk_inv t = brk_inv s"
  using vmm_inv_cong [OF assms(1-7)] assms(8) by (simp add: brk_inv_def mapped_writable_def)

lemma brk_inv_frame [simp]:
  "brk_inv (lock_scheduler s) = brk_inv s" "brk_inv (unlocked r s) = brk_inv s" "brk_inv (s\<lparr>mem := m\<rparr>) = brk_inv s"
  by (rule brk_inv_cong; simp add: lock_scheduler_def unlocked_def)+

lemma mapped_writable_page_up:
  assumes "mapped_writable s a b" and "c * 4096 < b + 4096"
  shows "mapped_writable s a (c * 4096)"
  unfolding mapped_writable_def
proof (intro allI impI)
  fix n :: "20 word"
  assume n: "a \<le> unat n * 4096 \<and> unat n * 4096 < c * 4096"
  then have "Suc (unat n) \<le> c" by simp
  then have "Suc (unat n) * 4096 \<le> c * 4096" by (rule mult_le_mono1)
  then have "unat n * 4096 < b" using assms(2) by simp
  with n assms(1) show "\<exists>x. address_space s n = Some x \<and> x_write x \<and> \<not> x_user x" by (simp add: mapped_writable_def)
qed

lemma mapped_writable_mono: "mapped_writable s a b \<Longrightarrow> c \<le> b \<Longrightarrow> mapped_writable s a c"
  by (auto simp: mapped_writable_def)

lemma page_up_bounds:
  fixes x :: nat
  shows "x \<le> (x + 4095) div 4096 * 4096" "(x + 4095) div 4096 * 4096 < x + 4096"
  using div_mult_mod_eq [of "x + 4095" 4096] mod_less_divisor [of 4096 "x + 4095"] by linarith+

lemma break_frame [simp]:
  "vmm_inv (s\<lparr>program_break_point := b\<rparr>) = vmm_inv s" "outstanding (s\<lparr>program_break_point := b\<rparr>) = outstanding s"
  "address_space (s\<lparr>program_break_point := b\<rparr>) = address_space s"
  "mapped_writable (s\<lparr>program_break_point := b\<rparr>) = mapped_writable s"
  "fresh_frames t (s\<lparr>program_break_point := b\<rparr>) = fresh_frames t s"
  using vmm_inv_cong [of "s\<lparr>program_break_point := b\<rparr>" s]
  by (simp_all add: mapped_writable_def fresh_frames_def fun_eq_iff)

text \<open>The pages that were mapped, and those that are new.\<close>

lemma mapped_writable_extend:
  assumes "mapped_writable s a b" and "mapped_writable s' b c"
    and "\<And>n. \<not> (b \<le> unat n * 4096 \<and> unat n * 4096 < c) \<Longrightarrow> address_space s' n = address_space s n"
  shows "mapped_writable s' a c"
  unfolding mapped_writable_def
proof (intro allI impI)
  fix n :: "20 word"
  assume n: "a \<le> unat n * 4096 \<and> unat n * 4096 < c"
  show "\<exists>x. address_space s' n = Some x \<and> x_write x \<and> \<not> x_user x"
  proof (cases "b \<le> unat n * 4096")
    case True
    with n assms(2) show ?thesis by (simp add: mapped_writable_def)
  next
    case False
    with n assms(1,3) show ?thesis by (simp add: mapped_writable_def)
  qed
qed

lemma increment_brk_spec:
  assumes "brk_inv s" and "unat (program_break_point s) + unat inc + 4095 \<le> 0xFFC00000"
  shows "\<exists>r s'. increment_brk inc s = retK r s' \<and> brk_inv s' \<and> outstanding s \<subseteq> outstanding s'
    \<and> (r = program_break_point s \<and> vmm.more s' = vmm.more (s\<lparr>program_break_point := program_break_point s + inc\<rparr>)
         \<and> fresh_frames s s' (unat (page_up (program_break_point s))) (unat (page_up (program_break_point s + inc)))
       \<or> r = - 1 \<and> vmm.more s' = vmm.more s)
    \<and> (\<forall>n. \<not> (unat (page_up (program_break_point s)) \<le> unat n * 4096 \<and> unat n * 4096 < unat (page_up (program_break_point s + inc)))
         \<longrightarrow> address_space s' n = address_space s n)"
proof -
  let ?pb = "program_break_point s" and ?nb = "program_break_point s + inc"
  have nb: "unat ?nb = unat ?pb + unat inc" using assms(2) by (simp add: unat_add32)
  define A where "A = (unat ?pb + 4095) div 4096"
  define B where "B = (unat ?nb + 4095) div 4096"
  have A: "unat (page_up ?pb) = A * 4096" and B: "unat (page_up ?nb) = B * 4096"
    using assms(2) nb by (simp_all add: A_def B_def unat_page_up)
  have "A \<le> B" unfolding A_def B_def nb by (intro div_le_mono) simp
  have low: "0xC0400000 \<le> unat ?pb" and mapped: "mapped_writable s 0xC0400000 (unat ?pb)" and inv: "vmm_inv s"
    using assms(1) by (simp_all add: brk_inv_def word_nat)
  have mA: "mapped_writable s 0xC0400000 (A * 4096)"
    using mapped_writable_page_up [OF mapped, of A] page_up_bounds(2) [of "unat ?pb"] by (simp add: A_def)
  have bnd: "unat ?nb \<le> B * 4096" "unat ?pb \<le> A * 4096" "B * 4096 \<le> 0xFFC00000"
    using page_up_bounds(1) [of "unat ?nb"] page_up_bounds(1) [of "unat ?pb"] assms(2) nb
      div_times_less_eq_dividend [of "unat ?nb + 4095" 4096] by (simp_all add: A_def B_def)
  show ?thesis
  proof (cases "page_up ?pb < page_up ?nb")
    case False
    then have "B = A" using \<open>A \<le> B\<close> A B by (simp add: word_nat)
    then have "mapped_writable s 0xC0400000 (unat ?nb)" using mapped_writable_mono [OF mA] bnd by simp
    then have "brk_inv (s\<lparr>program_break_point := ?nb\<rparr>)"
      using low nb bnd inv by (simp add: brk_inv_def word_nat)
    with False inv A B \<open>B = A\<close> show ?thesis
      by (intro exI [of _ ?pb] exI [of _ "s\<lparr>program_break_point := ?nb\<rparr>"]) (simp add: increment_brk_def empty_range)
  next
    case True
    have al: "page_aligned (page_up ?pb)" "0xC0400000 \<le> page_up ?pb" using A low bnd by (simp_all add: page_aligned_def word_nat)
    have "unat (page_up ?nb) = unat (page_up ?pb) + (B - A) * 4096"
      using A B \<open>A \<le> B\<close> by (simp add: diff_mult_distrib)
    from increment_brk_loop_spec [OF inv this al] B bnd(3) obtain ok s' where
      s': "increment_brk_loop (page_up ?pb) (page_up ?nb) s = retK ok s'" "vmm_inv s'" "vmm.more s' = vmm.more s"
        "outstanding s \<subseteq> outstanding s'"
        "\<And>n. \<not> (A * 4096 \<le> unat n * 4096 \<and> unat n * 4096 < B * 4096) \<Longrightarrow> address_space s' n = address_space s n"
        "ok \<Longrightarrow> mapped_writable s' (A * 4096) (B * 4096) \<and> fresh_frames s s' (A * 4096) (B * 4096)"
      unfolding A B by auto
    show ?thesis
    proof (cases ok)
      case False
      have "address_space s' n = address_space s n" if "unat n * 4096 < unat ?pb" for n
        using s'(5) [of n] that bnd(2) by simp
      then have "mapped_writable s' 0xC0400000 (unat ?pb)" using mapped by (simp add: mapped_writable_def)
      then have "brk_inv s'" using assms(1) s'(2) vmm_more_heap(1) [OF s'(3)] by (simp add: brk_inv_def)
      with False True s' A B show ?thesis by (intro exI [of _ "- 1"] exI [of _ s']) (simp add: increment_brk_def)
    next
      case ok: True
      have "mapped_writable s' 0xC0400000 (B * 4096)"
        using mapped_writable_extend [OF mA _ s'(5)] s'(6) [OF ok] by blast
      then have "mapped_writable s' 0xC0400000 (unat ?nb)" using mapped_writable_mono bnd(1) by blast
      then have "brk_inv (s'\<lparr>program_break_point := ?nb\<rparr>)"
        using low nb bnd s'(2) by (simp add: brk_inv_def word_nat)
      moreover have "vmm.more (s'\<lparr>program_break_point := ?nb\<rparr>) = vmm.more (s\<lparr>program_break_point := ?nb\<rparr>)"
        using s'(3) by (cases s; cases s') simp
      ultimately show ?thesis using True ok s' A B
        by (intro exI [of _ ?pb] exI [of _ "s'\<lparr>program_break_point := ?nb\<rparr>"]) (simp add: increment_brk_def)
    qed
  qed
qed


section \<open>Signed increments\<close>

lemma bit_31_iff: "bit (w :: u32) 31 \<longleftrightarrow> 2147483648 \<le> unat w"
proof -
  have "unat w < 4294967296" by simp
  then have "unat w div 2147483648 = (if 2147483648 \<le> unat w then 1 else 0)"
    by (auto intro: div_nat_eqI)
  moreover have "bit w 31 \<longleftrightarrow> bit (unat w) 31" by (simp add: bit_unsigned_iff)
  ultimately show ?thesis by (simp add: bit_iff_odd [where ?'a = nat])
qed

lemma positive_iff: "0 <s (w :: u32) \<longleftrightarrow> w \<noteq> 0 \<and> unat w < 2147483648"
proof -
  have "sint w < 0 \<longleftrightarrow> bit w 31" by (simp add: bit_last_iff [symmetric])
  moreover have "sint w = 0 \<longleftrightarrow> w = 0" by (rule signed_eq_0_iff)
  ultimately show ?thesis using bit_31_iff [of w] by (auto simp: word_sless_alt not_le order.strict_iff_order)
qed


lemma sbrk_positive: "0 < unat inc \<Longrightarrow> unat inc < 2 ^ 31 \<Longrightarrow> sbrk inc s = increment_brk inc s"
  by (auto simp: sbrk_def positive_iff)

section \<open>Shrinking the heap\<close>

lemma decrement_one_page:
  assumes "vmm_inv s" and "page_aligned (program_break_point s)" and "0xC0401000 \<le> program_break_point s"
    and "unat (program_break_point s) \<le> 0xFFC00000" and "heap_start s \<le> program_break_point s - PAGE_SIZE"
    and "V2P (program_break_point s - PAGE_SIZE) \<in> outstanding s"
    and "fresh_frame (frame_of (V2P (program_break_point s - PAGE_SIZE))) s"
  shows "\<exists>s'. decrement_brk PAGE_SIZE s = retK (program_break_point s) s' \<and> vmm_inv s'
    \<and> program_break_point s' = program_break_point s - PAGE_SIZE
    \<and> address_space s' = (address_space s)(VPN (program_break_point s - PAGE_SIZE) := None)
    \<and> outstanding s' = outstanding s - {V2P (program_break_point s - PAGE_SIZE)}"
proof -
  let ?pb = "program_break_point s" and ?pg = "program_break_point s - PAGE_SIZE"
  have pg: "unat ?pg = unat ?pb - 4096" using assms(3) by (simp add: unat_sub32 word_nat)
  have "?pg < 0xFFC00000" "0xC0400000 \<le> ?pg" using pg assms(3,4) by (simp_all add: word_nat)
  note priv = private_page_heap [OF this(2,1)]
  have "V2P ?pg \<noteq> NULL" using pg assms(3) by (auto simp: V2P_def word_nat)
  note free = vmm_free_page [OF assms(1,6) this assms(7)]
  from vmm_page_unmap_spec [OF free(1) priv] obtain u r where
    u: "vmm_page_unmap ?pg (pmm_free_page (V2P ?pg) s) = retK r u" "vmm_inv u"
      "vmm.more u = vmm.more (pmm_free_page (V2P ?pg) s)" "outstanding u = outstanding (pmm_free_page (V2P ?pg) s)"
      "address_space u = (address_space (pmm_free_page (V2P ?pg) s))(VPN ?pg := None)" by blast
  have pbu: "program_break_point u = ?pb" using u(3) free(3) vmm_more_heap(1) by metis
  define t where "t = u\<lparr>program_break_point := ?pg\<rparr>"
  have "unat (?pg - PAGE_SIZE) = unat ?pg - 4096" using pg assms(3) by (intro unat_sub32 [of PAGE_SIZE, simplified]) (simp add: word_nat)
  then have "\<not> ?pg \<le> ?pg - PAGE_SIZE" using pg assms(3) by (simp add: word_nat)
  then have "decrement_brk_loop ?pg t = retK () t" by (subst decrement_brk_loop.simps) (simp add: t_def)
  then have "decrement_brk_loop ?pg s = retK () t"
    using u(1) pbu by (subst decrement_brk_loop.simps) (simp add: t_def Let_def)
  then have "decrement_brk PAGE_SIZE s = retK ?pb t" using assms(5) by (simp add: decrement_brk_def Let_def leD)
  then show ?thesis using u free by (simp add: t_def)
qed


section \<open>Properties\<close>

text \<open>A kernel with one heap page above the boot table, at 0xC0400000 in frame 0x55, its table in frame
  0x21 and two frames left, for the witnesses.\<close>

definition one_page_heap :: "memory \<Rightarrow> vaddr \<Rightarrow> vaddr \<Rightarrow> 'z \<Rightarrow> 'z heap_scheme" where
  "one_page_heap m pb hs z = (three_tasks \<lparr>mem = m, program_break_point = pb, heap_start = hs, \<dots> = z\<rparr>)
     \<lparr>pmem := \<lambda>f i. if f = 0x20 \<and> i = 1023 then 0x20003 else if f = 0x20 \<and> i = 769 then 0x21007
              else if f = 0x21 \<and> i = 0 then 0x55003 else 0\<rparr>"

lemma one_page_heap_fields [simp]:
  "cr3 (one_page_heap m pb hs z) = 0x20000" "tlb (one_page_heap m pb hs z) = (\<lambda>_. None)"
  "pmem (one_page_heap m pb hs z) = (\<lambda>f i. if f = 0x20 \<and> i = 1023 then 0x20003 else if f = 0x20 \<and> i = 769 then 0x21007
              else if f = 0x21 \<and> i = 0 then 0x55003 else 0)"
  "mem (one_page_heap m pb hs z) = m" "program_break_point (one_page_heap m pb hs z) = pb" "heap_start (one_page_heap m pb hs z) = hs"
  by (simp_all add: one_page_heap_def three_tasks_def empty_space_def)

lemma one_page_heap_used: "used b (one_page_heap m pb hs z)"
  using unat_mod_32 [of b] all_ones_bit by (simp add: used_iff one_page_heap_def three_tasks_def empty_space_def)

lemma one_page_heap_outstanding:
  "outstanding (one_page_heap m pb hs z) = {p. page_aligned p} - {0x12000, 0x13000}"
proof -
  have "cached (one_page_heap m pb hs z) = [0x12000, 0x13000]"
    by (simp add: cached_def one_page_heap_def three_tasks_def empty_space_def upt_conv_Cons)
  then show ?thesis using one_page_heap_used [of _ m pb hs z] by (simp add: outstanding_def used_frames_def)
qed

lemma one_page_heap_inv: "vmm_inv (one_page_heap m pb hs z)"
proof -
  have "cached (one_page_heap m pb hs z) = [0x12000, 0x13000]"
    by (simp add: cached_def one_page_heap_def three_tasks_def empty_space_def upt_conv_Cons)
  then have "pmm_inv (one_page_heap m pb hs z)"
    unfolding pmm_inv_def using one_page_heap_used [of _ m pb hs z]
    by (simp add: used_frames_def page_aligned_def) (simp add: one_page_heap_def three_tasks_def empty_space_def)
  moreover have "tables_ok (one_page_heap m pb hs z)"
    by (auto simp: tables_ok_def recursive_def one_page_heap_outstanding frame_paddr_def page_aligned_def split: if_splits)
  ultimately show ?thesis by (simp add: vmm_inv_def tlb_coherent_def)
qed

lemma one_page_heap_space: "address_space (one_page_heap m pb hs z) (VPN 0xC0400000) = Some \<lparr>x_frame = 0x55, x_write = True, x_user = False\<rparr>"
  unfolding address_space_VPN by (simp add: PDX_def PTX_def mmu_walk_def)

lemma one_page_heap_brk:
  assumes "0xC0400000 \<le> unat pb" "unat pb \<le> 0xC0401000"
  shows "brk_inv (one_page_heap m pb hs z)"
proof -
  have "n = VPN 0xC0400000" if "0xC0400000 \<le> unat n * 4096" "unat n * 4096 < 0xC0401000" for n :: "20 word"
    using that heap_page_VPN [of "0xC0400000" n] by (auto simp: page_aligned_def)
  then have "mapped_writable (one_page_heap m pb hs z) 0xC0400000 0xC0401000"
    using one_page_heap_space [of m pb hs z] by (auto simp: mapped_writable_def)
  then show ?thesis using mapped_writable_mono assms one_page_heap_inv [of m pb hs z] by (auto simp: brk_inv_def word_nat)
qed


text \<open>C17: growing the heap. For a positive increment that stays below the recursive window, \<open>sbrk\<close>
  does not fault. On success it returns the old break, the break has moved by the increment, every
  page of the heap up to the new break is mapped writable and for the kernel only, and each new page
  has a frame of its own that was not in use; on failure (-1) the break stays. Translations outside
  the new pages do not change.\<close>

theorem sbrk_grow_correct:
  assumes "brk_inv s" and "0 < unat inc" and "unat inc < 2 ^ 31" and "unat (program_break_point s) + unat inc + 4095 \<le> 0xFFC00000"
  shows "\<exists>r s'. sbrk inc s = retK r s' \<and> brk_inv s' \<and> outstanding s \<subseteq> outstanding s'
    \<and> (r = program_break_point s \<and> program_break_point s' = program_break_point s + inc
         \<and> fresh_frames s s' (unat (page_up (program_break_point s))) (unat (page_up (program_break_point s + inc)))
       \<or> r = - 1 \<and> program_break_point s' = program_break_point s)
    \<and> (\<forall>n. \<not> (unat (page_up (program_break_point s)) \<le> unat n * 4096 \<and> unat n * 4096 < unat (page_up (program_break_point s + inc)))
         \<longrightarrow> address_space s' n = address_space s n)"
proof -
  have "sbrk inc s = increment_brk inc s" using assms(2,3) by (rule sbrk_positive)
  moreover have "program_break_point s' = program_break_point s + inc"
    if "vmm.more s' = vmm.more (s\<lparr>program_break_point := program_break_point s + inc\<rparr>)" for s'
    using vmm_more_heap(1) [OF that] by simp
  ultimately show ?thesis using increment_brk_spec [OF assms(1,4)] vmm_more_heap(1) by metis
qed

text \<open>Witness of C17: a page and a half beyond the first heap page.\<close>

theorem sbrk_grow_correct_witness:
  "\<exists>r s'. sbrk 0x1800 (one_page_heap (\<lambda>_. 0) 0xC0401000 0xC0121000 ()) = retK r s'
     \<and> address_space s' (VPN 0xC0400000) = Some \<lparr>x_frame = 0x55, x_write = True, x_user = False\<rparr>"
proof -
  have "\<not> unat (page_up 0xC0401000) \<le> unat (VPN 0xC0400000) * 4096"
    by (simp add: unat_page_up unat_parts)
  then show ?thesis
    using sbrk_grow_correct [OF one_page_heap_brk, of "0xC0401000" "0x1800" "\<lambda>_. 0" "0xC0121000" "()"]
      one_page_heap_space [of "\<lambda>_. 0" "0xC0401000" "0xC0121000" "()"]
    by (simp, metis)
qed

text \<open>C33: shrinking gives back the wrong frame. Lowering a page-aligned break by a page unmaps that
  page, but the frame marked free is the one at the page's address minus \<open>KERNEL_VIRT_OFFSET\<close>,
  whoever holds it, and the frame that backed the page stays marked used.\<close>

theorem sbrk_shrink_wrong_frame:
  assumes "vmm_inv s" and "page_aligned (program_break_point s)" and "0xC0401000 \<le> program_break_point s"
    and "unat (program_break_point s) \<le> 0xFFC00000" and "heap_start s \<le> program_break_point s - PAGE_SIZE"
    and "V2P (program_break_point s - PAGE_SIZE) \<in> outstanding s"
    and "fresh_frame (frame_of (V2P (program_break_point s - PAGE_SIZE))) s"
    and "address_space s (VPN (program_break_point s - PAGE_SIZE)) = Some x" and "frame_paddr (x_frame x) \<in> outstanding s"
    and "frame_paddr (x_frame x) \<noteq> V2P (program_break_point s - PAGE_SIZE)"
  shows "\<exists>s'. sbrk (- PAGE_SIZE) s = retK (program_break_point s) s'
    \<and> address_space s' = (address_space s)(VPN (program_break_point s - PAGE_SIZE) := None)
    \<and> V2P (program_break_point s - PAGE_SIZE) \<notin> outstanding s' \<and> frame_paddr (x_frame x) \<in> outstanding s'"
proof -
  have "sbrk (- PAGE_SIZE) s = decrement_brk PAGE_SIZE s" by (simp add: sbrk_def positive_iff)
  with decrement_one_page [OF assms(1-7)] assms(9,10) show ?thesis by auto
qed

text \<open>Witness of C33: frame 0x400 is freed, frame 0x55 is lost.\<close>

theorem sbrk_shrink_wrong_frame_witness:
  "\<exists>s'. sbrk (- PAGE_SIZE) (one_page_heap (\<lambda>_. 0) 0xC0401000 0xC0121000 ()) = retK 0xC0401000 s'
     \<and> 0x400000 \<notin> outstanding s' \<and> frame_paddr 0x55 \<in> outstanding s'"
proof -
  let ?s = "one_page_heap (\<lambda>_. 0) 0xC0401000 0xC0121000 ()"
  have "V2P 0xC0400000 = 0x400000" "frame_of 0x400000 = 0x400" by (simp_all add: V2P_def frame_of_def)
  moreover have "fresh_frame 0x400 ?s" by (simp add: fresh_frame_def)
  moreover have "page_aligned 0x400000" "page_aligned (frame_paddr 0x55)" "frame_paddr 0x55 = 0x55000" "page_aligned 0xC0401000"
    by (simp_all add: page_aligned_def frame_paddr_def)
  ultimately show ?thesis
    using sbrk_shrink_wrong_frame [OF one_page_heap_inv [of "\<lambda>_. 0" "0xC0401000" "0xC0121000" "()"]] one_page_heap_space [of "\<lambda>_. 0" _ _ "()"]
    by (auto simp: one_page_heap_outstanding)
qed

text \<open>\<open>brk\<close> reports success without moving the break when the new break is less than a page below
  the old one.\<close>

theorem brk_small_step:
  assumes "4096 \<le> unat (program_break_point s)" and "unat addr < unat (program_break_point s)"
    and "unat (program_break_point s) < unat addr + 4096" and "heap_start s \<le> addr" and "program_break_point s \<noteq> - 1"
  shows "brk addr s = retK 0 s"
proof -
  let ?pb = "program_break_point s"
  have "unat (addr - ?pb) = 4294967296 + unat addr - unat ?pb"
    using assms(2) by (simp add: unat_sub_if')
  then have "addr - ?pb \<noteq> 0" "\<not> 0 <s addr - ?pb" using assms(2,3) by (auto simp: positive_iff)
  moreover have "\<not> addr \<le> ?pb - PAGE_SIZE" using assms(1,3) by (simp add: word_nat unat_sub32)
  then have "decrement_brk_loop addr s = retK () s" by (subst decrement_brk_loop.simps) simp
  ultimately show ?thesis using assms(4,5) by (simp add: brk_def sbrk_def decrement_brk_def Let_def leD)
qed

text \<open>At a concrete state.\<close>

theorem brk_small_step_witness:
  "brk 0xC0400800 (one_page_heap (\<lambda>_. 0) 0xC0401000 0xC0121000 ()) = retK 0 (one_page_heap (\<lambda>_. 0) 0xC0401000 0xC0121000 ())"
  using brk_small_step [of "one_page_heap (\<lambda>_. 0) 0xC0401000 0xC0121000 ()" "0xC0400800"] by simp

end
