(* ===== verification/Libc_String.thy ===== *)
theory Libc_String
  imports Prelude
begin

text \<open>
  The string functions of the kernel's C library (\<open>libc/string/*.c\<close>), over byte-addressed memory.
  Each \<open>for\<close> loop is a recursive function on its index, at the index's width; the loops that run to
  a NUL byte may not end and are partial functions. The locale \<open>byte_copy\<close> states what the callers
  of \<open>memcpy\<close> and \<open>memmove\<close> rely on.
\<close>

section \<open>Definitions\<close>

text \<open>\<open>memset\<close>: the value is an \<open>int\<close>, converted to \<open>unsigned char\<close>.\<close>

function memset_loop :: "memory \<Rightarrow> u32 \<Rightarrow> u8 \<Rightarrow> size_t \<Rightarrow> size_t \<Rightarrow> memory" where
  "memset_loop m buf v n i =
     (if i < n then memset_loop (m(buf + i := v)) buf v n (i + 1) else m)"
  by pat_completeness auto
termination
  by (relation "measure (\<lambda>(m, buf, v, n, i). unat n - unat i)") (auto simp: unat_inc word_nat)

definition memset :: "memory \<Rightarrow> u32 \<Rightarrow> u32 \<Rightarrow> size_t \<Rightarrow> u32 \<times> memory" where
  "memset m bufptr val n = (bufptr, memset_loop m bufptr (ucast val) n 0)"

text \<open>\<open>memcpy\<close>: always upwards.\<close>

function memcpy_loop :: "memory \<Rightarrow> u32 \<Rightarrow> u32 \<Rightarrow> size_t \<Rightarrow> size_t \<Rightarrow> memory" where
  "memcpy_loop m dst src n i =
     (if i < n then memcpy_loop (m(dst + i := m (src + i))) dst src n (i + 1) else m)"
  by pat_completeness auto
termination
  by (relation "measure (\<lambda>(m, dst, src, n, i). unat n - unat i)") (auto simp: unat_inc word_nat)

definition memcpy :: "memory \<Rightarrow> u32 \<Rightarrow> u32 \<Rightarrow> size_t \<Rightarrow> u32 \<times> memory" where
  "memcpy m dstptr srcptr n = (dstptr, memcpy_loop m dstptr srcptr n 0)"

text \<open>\<open>memmove\<close>: upwards when the destination is below the source, else downwards.\<close>

function memmove_down :: "memory \<Rightarrow> u32 \<Rightarrow> u32 \<Rightarrow> size_t \<Rightarrow> memory" where
  "memmove_down m dst src i =
     (if i \<noteq> 0 then memmove_down (m(dst + (i - 1) := m (src + (i - 1)))) dst src (i - 1) else m)"
  by pat_completeness auto
termination
  by (relation "measure (\<lambda>(m, dst, src, i). unat i)") (auto simp: unat_minus_one unat_gt_0)

definition memmove :: "memory \<Rightarrow> u32 \<Rightarrow> u32 \<Rightarrow> size_t \<Rightarrow> u32 \<times> memory" where
  "memmove m dstptr srcptr n =
     (dstptr, if dstptr < srcptr then memcpy_loop m dstptr srcptr n 0
              else memmove_down m dstptr srcptr n)"

function memcmp_loop :: "memory \<Rightarrow> u32 \<Rightarrow> u32 \<Rightarrow> size_t \<Rightarrow> size_t \<Rightarrow> int" where
  "memcmp_loop m a b n i =
     (if i < n then
        if m (a + i) < m (b + i) then -1
        else if m (b + i) < m (a + i) then 1
        else memcmp_loop m a b n (i + 1)
      else 0)"
  by pat_completeness auto
termination
  by (relation "measure (\<lambda>(m, a, b, n, i). unat n - unat i)") (auto simp: unat_inc word_nat)

definition memcmp :: "memory \<Rightarrow> u32 \<Rightarrow> u32 \<Rightarrow> size_t \<Rightarrow> int" where
  "memcmp m aptr bptr n = memcmp_loop m aptr bptr n 0"

text \<open>\<open>memchr\<close> counts \<open>n\<close> down and moves the pointer up.\<close>

function memchr_loop :: "memory \<Rightarrow> u32 \<Rightarrow> u8 \<Rightarrow> size_t \<Rightarrow> u32" where
  "memchr_loop m p uc n =
     (if n > 0 then if m p = uc then p else memchr_loop m (p + 1) uc (n - 1) else NULL)"
  by pat_completeness auto
termination
  by (relation "measure (\<lambda>(m, p, uc, n). unat n)") (auto simp: unat_minus_one word_gt_0 unat_gt_0)

definition memchr :: "memory \<Rightarrow> u32 \<Rightarrow> u32 \<Rightarrow> size_t \<Rightarrow> u32" where
  "memchr m s c n = memchr_loop m s (ucast c) n"

partial_function (option) strlen_loop :: "memory \<Rightarrow> u32 \<Rightarrow> size_t \<Rightarrow> size_t option" where
  "strlen_loop m str len =
     (if m (str + len) \<noteq> 0 then strlen_loop m str (len + 1) else Some len)"

definition strlen :: "memory \<Rightarrow> u32 \<Rightarrow> size_t option" where
  "strlen m str = strlen_loop m str 0"

partial_function (option) strcpy_loop :: "memory \<Rightarrow> u32 \<Rightarrow> u32 \<Rightarrow> memory option" where
  "strcpy_loop m dst src =
     (if m src \<noteq> 0 then strcpy_loop (m(dst := m src)) (dst + 1) (src + 1)
      else Some (m(dst := m src)))"

definition strcpy :: "memory \<Rightarrow> u32 \<Rightarrow> u32 \<Rightarrow> (u32 \<times> memory) option" where
  "strcpy m dst src = map_option (Pair dst) (strcpy_loop m dst src)"

text \<open>\<open>strncpy\<close>: a copying loop, then a padding loop that goes on from the same index.\<close>

function strncpy_copy :: "memory \<Rightarrow> u32 \<Rightarrow> u32 \<Rightarrow> size_t \<Rightarrow> size_t \<Rightarrow> size_t \<times> memory" where
  "strncpy_copy m dst src dsize i =
     (if i < dsize \<and> m (src + i) \<noteq> 0
      then strncpy_copy (m(dst + i := m (src + i))) dst src dsize (i + 1) else (i, m))"
  by pat_completeness auto
termination
  by (relation "measure (\<lambda>(m, dst, src, dsize, i). unat dsize - unat i)") (auto simp: unat_inc word_nat)

definition strncpy :: "memory \<Rightarrow> u32 \<Rightarrow> u32 \<Rightarrow> size_t \<Rightarrow> u32 \<times> memory" where
  "strncpy m dst src dsize =
     (let (i, m) = strncpy_copy m dst src dsize 0 in (dst, memset_loop m dst 0 dsize i))"

declare memset_loop.simps [simp del] memcpy_loop.simps [simp del] memmove_down.simps [simp del]
  memcmp_loop.simps [simp del] memchr_loop.simps [simp del] strncpy_copy.simps [simp del]

section \<open>Filling and copying\<close>

lemma word_le_less_inc: "(i :: u32) < n \<Longrightarrow> i \<le> d \<and> d < n \<longleftrightarrow> d = i \<or> i + 1 \<le> d \<and> d < n"
  by (auto simp: word_nat unat_inc Suc_le_eq nat_less_le simp flip: word_unat_eq_iff)

lemma memset_loop_apply:
  "i \<le> n \<Longrightarrow> memset_loop m p v n i x = (if i \<le> x - p \<and> x - p < n then v else m x)"
proof (induction m p v n i rule: memset_loop.induct)
  case (1 m p v n i)
  show ?case
  proof (cases "i < n")
    case True
    then have "i + 1 \<le> n" by (simp add: word_nat unat_inc)
    note IH = "1.IH" [OF True this]
    have "x = p + i \<longleftrightarrow> x - p = i" by (auto simp: algebra_simps)
    with IH True word_le_less_inc [OF True, of "x - p"] show ?thesis
      by (simp add: memset_loop.simps [of m p v n i] del: fun_upd_apply) auto
  next
    case False
    with "1.prems" show ?thesis by (subst memset_loop.simps) auto
  qed
qed

lemma memcpy_loop_apply:
  assumes "i \<le> n" and "\<And>j k. i \<le> j \<Longrightarrow> j < k \<Longrightarrow> k < n \<Longrightarrow> dst + j \<noteq> src + k"
  shows "memcpy_loop m dst src n i x =
    (if i \<le> x - dst \<and> x - dst < n then m (src + (x - dst)) else m x)"
  using assms
proof (induction m dst src n i rule: memcpy_loop.induct)
  case (1 m dst src n i)
  show ?case
  proof (cases "i < n")
    case True
    let ?m = "m(dst + i := m (src + i))"
    from True have le: "i + 1 \<le> n" by (simp add: word_nat unat_inc)
    have "memcpy_loop ?m dst src n (i + 1) x =
        (if i + 1 \<le> x - dst \<and> x - dst < n then ?m (src + (x - dst)) else ?m x)"
    proof (rule "1.IH" [OF True le])
      fix j k assume "i + 1 \<le> j" "j < k" "k < n"
      then show "dst + j \<noteq> src + k"
        using True by (intro "1.prems" (2)) (auto simp: word_nat unat_inc)
    qed
    moreover have "?m (src + d) = m (src + d)" if "i + 1 \<le> d" "d < n" for d
      using that True "1.prems" (2) [of i d] by (auto simp: word_nat unat_inc)
    moreover have "x = dst + i \<longleftrightarrow> x - dst = i" by (auto simp: algebra_simps)
    ultimately show ?thesis
      using True word_le_less_inc [OF True, of "x - dst"]
      by (simp add: memcpy_loop.simps [of m dst src n i] del: fun_upd_apply) auto
  next
    case False
    with "1.prems" (1) show ?thesis by (subst memcpy_loop.simps) auto
  qed
qed

lemma memmove_down_apply:
  assumes "\<And>j k. k < j \<Longrightarrow> j < n \<Longrightarrow> dst + j \<noteq> src + k"
  shows "memmove_down m dst src n x = (if x - dst < n then m (src + (x - dst)) else m x)"
  using assms
proof (induction m dst src n rule: memmove_down.induct)
  case (1 m dst src n)
  show ?case
  proof (cases "n = 0")
    case True
    then show ?thesis by (subst memmove_down.simps) simp
  next
    case False
    let ?m = "m(dst + (n - 1) := m (src + (n - 1)))"
    have less: "d < n \<longleftrightarrow> d = n - 1 \<or> d < n - 1" for d
      using False unat_gt_0 [of n] unfolding word_nat word_unat_eq_iff unat_minus_one [OF False]
      by linarith
    have "memmove_down ?m dst src (n - 1) x =
        (if x - dst < n - 1 then ?m (src + (x - dst)) else ?m x)"
    proof (rule "1.IH" [OF False])
      fix j k assume "k < j" "j < n - 1"
      then show "dst + j \<noteq> src + k" using less [of j] by (intro "1.prems") blast+
    qed
    moreover have "?m (src + d) = m (src + d)" if "d < n - 1" for d
      using that less [of "n - 1"] "1.prems" [of d "n - 1"] by auto
    moreover have "x = dst + (n - 1) \<longleftrightarrow> x - dst = n - 1" by (auto simp: algebra_simps)
    ultimately show ?thesis
      using False less [of "x - dst"]
      by (simp add: memmove_down.simps [of m dst src n] del: fun_upd_apply) auto
  qed
qed

section \<open>The copying interface\<close>

text \<open>
  What a caller of \<open>memcpy\<close> or \<open>memmove\<close> relies on, for the argument pairs the routine supports:
  every destination byte becomes the source byte as it was before the call, no other byte
  changes, and the destination pointer is returned.
\<close>

locale byte_copy =
  fixes copy :: "memory \<Rightarrow> u32 \<Rightarrow> u32 \<Rightarrow> size_t \<Rightarrow> u32 \<times> memory"
    and ok :: "u32 \<Rightarrow> u32 \<Rightarrow> size_t \<Rightarrow> bool"
  assumes copy_ret: "fst (copy m dst src n) = dst"
    and copy_apply: "ok dst src n \<Longrightarrow>
      snd (copy m dst src n) x = (if x - dst < n then m (src + (x - dst)) else m x)"
begin

lemma copy_byte: "ok dst src n \<Longrightarrow> i < n \<Longrightarrow> snd (copy m dst src n) (dst + i) = m (src + i)"
  by (simp add: copy_apply)

lemma copy_frame: "ok dst src n \<Longrightarrow> \<not> x - dst < n \<Longrightarrow> snd (copy m dst src n) x = m x"
  by (simp add: copy_apply)

lemma copy_self: "ok p p n \<Longrightarrow> copy m p p n = (p, m)"
  by (rule prod_eqI) (auto simp: copy_ret copy_apply fun_eq_iff)

end

text \<open>\<open>memcpy\<close> copies upwards, so it supports every pair where no byte is overwritten before it is
  read: disjoint regions, and a destination at or below the source.\<close>

definition upward_ok :: "u32 \<Rightarrow> u32 \<Rightarrow> size_t \<Rightarrow> bool" where
  "upward_ok dst src n \<longleftrightarrow> (unat dst \<le> unat src \<or> unat src + unat n \<le> unat dst)
     \<and> unat dst + unat n \<le> 2 ^ 32 \<and> unat src + unat n \<le> 2 ^ 32"

definition in_range_ok :: "u32 \<Rightarrow> u32 \<Rightarrow> size_t \<Rightarrow> bool" where
  "in_range_ok dst src n \<longleftrightarrow> unat dst + unat n \<le> 2 ^ 32 \<and> unat src + unat n \<le> 2 ^ 32"

lemma unat_add_in_range: "unat (p :: u32) + unat n \<le> 2 ^ 32 \<Longrightarrow> k < n \<Longrightarrow> unat (p + k) = unat p + unat k"
  by (rule unat_add32) (simp add: word_nat)

lemma memcpy_loop_upward:
  assumes "upward_ok dst src n"
  shows "memcpy_loop m dst src n 0 x = (if x - dst < n then m (src + (x - dst)) else m x)"
proof -
  have "dst + j \<noteq> src + k" if "j < k" "k < n" for j k
  proof -
    from that have "j < n" by simp
    with that assms have "unat (dst + j) = unat dst + unat j" "unat (src + k) = unat src + unat k"
      by (auto simp: upward_ok_def intro!: unat_add_in_range)
    with that assms show ?thesis by (auto simp: upward_ok_def word_nat dest: arg_cong [where f = unat])
  qed
  then show ?thesis by (subst memcpy_loop_apply) auto
qed

lemma memmove_down_downward:
  assumes "in_range_ok dst src n" and "\<not> dst < src"
  shows "memmove_down m dst src n x = (if x - dst < n then m (src + (x - dst)) else m x)"
proof (rule memmove_down_apply)
  fix j k :: u32 assume "k < j" "j < n"
  then have "unat (dst + j) = unat dst + unat j" "unat (src + k) = unat src + unat k"
    using assms by (auto simp: in_range_ok_def intro!: unat_add_in_range)
  with \<open>k < j\<close> assms show "dst + j \<noteq> src + k"
    by (auto simp: word_nat dest: arg_cong [where f = unat])
qed

interpretation memcpy_up: byte_copy memcpy upward_ok
  by unfold_locales (simp_all add: memcpy_def memcpy_loop_upward)

interpretation memmove_any: byte_copy memmove in_range_ok
proof
  fix m dst src n x
  show "fst (memmove m dst src n) = dst" by (simp add: memmove_def)
  assume ok: "in_range_ok dst src n"
  show "snd (memmove m dst src n) x = (if x - dst < n then m (src + (x - dst)) else m x)"
  proof (cases "dst < src")
    case True
    with ok have "upward_ok dst src n" by (simp add: upward_ok_def in_range_ok_def word_nat)
    with True show ?thesis by (simp add: memmove_def memcpy_loop_upward)
  next
    case False
    with ok show ?thesis by (simp add: memmove_def memmove_down_downward)
  qed
qed

section \<open>Comparing and searching\<close>

lemma word_induct_up [consumes 1, case_names base step]:
  assumes "(i :: u32) \<le> n" and "P n" and "\<And>i. i < n \<Longrightarrow> P (i + 1) \<Longrightarrow> P i"
  shows "P i"
  using \<open>i \<le> n\<close>
proof (induction "unat n - unat i" arbitrary: i)
  case 0
  then have "i = n" by (simp add: word_nat word_unat_eq_iff)
  with assms(2) show ?case by simp
next
  case (Suc d)
  then have "i < n" by (simp add: word_nat)
  moreover from this Suc have "P (i + 1)" by (intro Suc.hyps) (auto simp: word_nat unat_inc)
  ultimately show ?case by (rule assms(3))
qed

lemma memcmp_loop_skip:
  assumes "k \<le> n"
  shows "i \<le> k \<Longrightarrow> (\<And>j. i \<le> j \<Longrightarrow> j < k \<Longrightarrow> m (a + j) = m (b + j)) \<Longrightarrow>
    memcmp_loop m a b n i = memcmp_loop m a b n k"
proof (induction i rule: word_induct_up)
  case base
  then show ?case by simp
next
  case (step i)
  from step.hyps have "\<And>j. i + 1 \<le> j \<Longrightarrow> i \<le> j" by (auto simp: word_nat unat_inc)
  with step have "memcmp_loop m a b n (i + 1) = memcmp_loop m a b n k" by blast
  moreover from step.hyps assms have "i < n" by simp
  ultimately show ?case using step by (simp add: memcmp_loop.simps [of m a b n i])
qed

lemma memchr_loop_skip:
  "unat k \<le> unat n \<Longrightarrow> (\<And>j. j < k \<Longrightarrow> m (p + j) \<noteq> uc) \<Longrightarrow>
   memchr_loop m p uc n = memchr_loop m (p + k) uc (n - k)"
proof (induction "unat k" arbitrary: k)
  case 0
  then show ?case by (simp add: unat_0_iff)
next
  case (Suc d)
  let ?k = "k - 1"
  from Suc.hyps(2) have "k \<noteq> 0" by auto
  then have k: "unat k = Suc (unat ?k)" "d = unat ?k" "?k < k"
    using Suc.hyps(2) by (simp_all add: unat_minus_one word_nat)
  with Suc have "memchr_loop m p uc n = memchr_loop m (p + ?k) uc (n - ?k)"
    by (intro Suc.hyps(1)) (auto simp: word_nat)
  moreover have "n \<noteq> ?k" using k Suc.prems(1) by auto
  then have "n - ?k > 0" by (simp add: word_gt_0)
  ultimately show ?case
    using Suc.prems(2) [OF k(3)] by (simp add: memchr_loop.simps [of m "p + (k - 1)"])
qed

lemma strlen_loop_eq:
  assumes "m (str + k) = 0"
  shows "i \<le> k \<Longrightarrow> (\<And>j. i \<le> j \<Longrightarrow> j < k \<Longrightarrow> m (str + j) \<noteq> 0) \<Longrightarrow> strlen_loop m str i = Some k"
proof (induction i rule: word_induct_up)
  case base
  with assms show ?case by (simp add: strlen_loop.simps)
next
  case (step i)
  from step.hyps have "\<And>j. i + 1 \<le> j \<Longrightarrow> i \<le> j" by (auto simp: word_nat unat_inc)
  with step show ?case by (subst strlen_loop.simps) auto
qed

lemma strlen_loop_NUL: "strlen_loop m str i = Some k \<Longrightarrow> m (str + k) = 0"
  by (rule strlen_loop.raw_induct [where P = "\<lambda>m str i k. m (str + k) = 0"]) (auto split: if_splits)

lemma first_exists: "P (k :: u32) \<Longrightarrow> \<exists>i \<le> k. P i \<and> (\<forall>j < i. \<not> P j)"
  using LeastI [of P k] Least_le [of P k] not_less_Least [of _ P] by blast

lemma strlen_iff: "strlen m str = Some k \<longleftrightarrow> m (str + k) = 0 \<and> (\<forall>j < k. m (str + j) \<noteq> 0)"
proof
  assume *: "strlen m str = Some k"
  then have "m (str + k) = 0" by (simp add: strlen_def strlen_loop_NUL)
  from first_exists [of "\<lambda>i. m (str + i) = 0", OF this]
  obtain i where i: "m (str + i) = 0" "\<forall>j < i. m (str + j) \<noteq> 0" by blast
  then have "strlen m str = Some i" by (simp add: strlen_def strlen_loop_eq)
  with * i show "m (str + k) = 0 \<and> (\<forall>j < k. m (str + j) \<noteq> 0)" by simp
next
  assume "m (str + k) = 0 \<and> (\<forall>j < k. m (str + j) \<noteq> 0)"
  then show "strlen m str = Some k" by (simp add: strlen_def strlen_loop_eq)
qed

lemma strcpy_loop_eq:
  assumes "\<And>j. j < k \<Longrightarrow> m (src + j) \<noteq> 0" and "m (src + k) = 0"
    and "\<And>i j. i < j \<Longrightarrow> j \<le> k \<Longrightarrow> dst + i \<noteq> src + j"
  shows "\<exists>m'. strcpy_loop m dst src = Some m' \<and>
    (\<forall>x. m' x = (if x - dst \<le> k then m (src + (x - dst)) else m x))"
  using assms
proof (induction "unat k" arbitrary: k m dst src)
  case 0
  then have "k = 0" by (simp add: unat_0_iff)
  with "0.prems"(2) show ?case by (subst strcpy_loop.simps) auto
next
  case (Suc d)
  let ?k = "k - 1" and ?m = "m(dst := m src)"
  from Suc.hyps(2) have nz: "k \<noteq> 0" by auto
  then have k: "unat k = Suc (unat ?k)" "d = unat ?k" using Suc.hyps(2) by (simp_all add: unat_minus_one)
  have inc: "unat (j + 1) = Suc (unat j)" if "j \<le> ?k" for j
  proof -
    from that k have "j < k" by (simp add: word_nat)
    then show ?thesis by (rule unat_inc)
  qed
  have keep: "?m (src + j) = m (src + j)" if "j \<le> k" "j \<noteq> 0" for j
    using that Suc.prems(3) [of 0 j] by (auto simp: word_gt_0)
  have "\<exists>m'. strcpy_loop ?m (dst + 1) (src + 1) = Some m' \<and>
      (\<forall>x. m' x = (if x - (dst + 1) \<le> ?k then ?m (src + 1 + (x - (dst + 1))) else ?m x))"
  proof (rule Suc.hyps(1) [OF k(2)])
    show "?m (src + 1 + j) \<noteq> 0" if "j < ?k" for j
    proof -
      have "unat (j + 1) = Suc (unat j)" using that by (intro inc) simp
      then have "j + 1 < k" "j + 1 \<noteq> 0" using that k by (auto simp: word_nat)
      then have "?m (src + (j + 1)) \<noteq> 0"
        using Suc.prems(1) [of "j + 1"] keep [of "j + 1"] by (simp del: fun_upd_apply)
      then show ?thesis by (simp add: ac_simps del: fun_upd_apply)
    qed
    show "?m (src + 1 + ?k) = 0" using Suc.prems(2) keep [of k] nz by simp
    show "dst + 1 + i \<noteq> src + 1 + j" if "i < j" "j \<le> ?k" for i j
      using that k inc [of i] inc [of j] Suc.prems(3) [of "i + 1" "j + 1"]
      by (auto simp: word_nat add.commute add.left_commute)
  qed
  then obtain m' where m': "strcpy_loop ?m (dst + 1) (src + 1) = Some m'"
    "\<And>x. m' x = (if x - (dst + 1) \<le> ?k then ?m (src + 1 + (x - (dst + 1))) else ?m x)" by blast
  have "m src \<noteq> 0" using Suc.prems(1) [of 0] nz by (simp add: word_gt_0)
  with m'(1) have "strcpy_loop m dst src = Some m'" by (subst strcpy_loop.simps) simp
  moreover have "m' x = (if x - dst \<le> k then m (src + (x - dst)) else m x)" for x
  proof (cases "x = dst")
    case True
    have "\<not> - 1 \<le> ?k" using nz by (auto simp: word_order.extremum_unique)
    with True show ?thesis by (simp add: m'(2))
  next
    case False
    then have "x - dst \<noteq> 0" by simp
    then have "unat (x - dst - 1) = unat (x - dst) - 1" "unat (x - dst) > 0"
      by (simp_all add: unat_minus_one unat_gt_0 del: right_minus_eq)
    then have "x - dst - 1 \<le> ?k \<longleftrightarrow> x - dst \<le> k" using k by (auto simp: word_nat)
    moreover have "x - (dst + 1) = x - dst - 1" "src + 1 + (x - dst - 1) = src + (x - dst)" by simp_all
    then have "m' x = (if x - dst - 1 \<le> ?k then ?m (src + (x - dst)) else ?m x)"
      using m'(2) [of x] by (simp only:)
    moreover have "?m x = m x" using False by simp
    ultimately show ?thesis using False keep [of "x - dst"] by (simp del: fun_upd_apply)
  qed
  ultimately show ?case by blast
qed

text \<open>\<open>strcpy\<close> returns, and has copied the string and its NUL byte, where no byte of the string
  lies on a destination byte that is written before it is read.\<close>

lemma strcpy_correct:
  assumes "strlen m src = Some k" and "upward_ok dst src (k + 1)" and "k + 1 \<noteq> 0"
  shows "\<exists>m'. strcpy m dst src = Some (dst, m')
    \<and> (\<forall>x. m' x = (if x - dst \<le> k then m (src + (x - dst)) else m x))"
proof -
  have k1: "unat (k + 1) = Suc (unat k)" using assms(3) by (simp add: add.commute unatSuc)
  have "dst + i \<noteq> src + j" if "i < j" "j \<le> k" for i j
  proof -
    have "i < k + 1" "j < k + 1" using that k1 by (auto simp: word_nat)
    then have "unat (dst + i) = unat dst + unat i" "unat (src + j) = unat src + unat j"
      using assms(2) by (auto simp: upward_ok_def intro!: unat_add_in_range)
    with that assms(2) k1 show ?thesis
      by (auto simp: upward_ok_def word_nat dest: arg_cong [where f = unat])
  qed
  with assms(1) have "\<exists>m'. strcpy_loop m dst src = Some m' \<and>
      (\<forall>x. m' x = (if x - dst \<le> k then m (src + (x - dst)) else m x))"
    by (intro strcpy_loop_eq) (auto simp: strlen_iff)
  then show ?thesis by (auto simp: strcpy_def)
qed

lemma strncpy_copy_eq:
  assumes "k \<le> dsize" and "k = dsize \<or> m (src + k) = 0"
    and "\<And>i j. i < dsize \<Longrightarrow> j < dsize \<Longrightarrow> dst + i \<noteq> src + j"
  shows "i \<le> k \<Longrightarrow> (\<And>j. i \<le> j \<Longrightarrow> j < k \<Longrightarrow> m (src + j) \<noteq> 0) \<Longrightarrow>
    strncpy_copy m dst src dsize i = (k, memcpy_loop m dst src k i)"
  using assms
proof (induction "unat k - unat i" arbitrary: i m)
  case 0
  then have "i = k" by (simp add: word_nat word_unat_eq_iff)
  then show ?case using "0.prems" by (auto simp: strncpy_copy.simps [of _ _ _ _ k] memcpy_loop.simps [of _ _ _ k])
next
  case (Suc d)
  let ?m = "m(dst + i := m (src + i))"
  from Suc.hyps(2) have i: "i < k" by (simp add: word_nat)
  then have inc: "unat (i + 1) = Suc (unat i)" by (rule unat_inc)
  have keep: "?m (src + j) = m (src + j)" if "j < dsize" for j
    using Suc.prems(5) [of i j] that i Suc.prems(3) by (auto simp: word_nat)
  have "strncpy_copy ?m dst src dsize (i + 1) = (k, memcpy_loop ?m dst src k (i + 1))"
  proof (rule Suc.hyps(1))
    show "?m (src + j) \<noteq> 0" if "i + 1 \<le> j" "j < k" for j
      using that inc keep [of j] Suc.prems(2) [of j] Suc.prems(3) by (auto simp: word_nat)
    show "k = dsize \<or> ?m (src + k) = 0"
      using keep [of k] Suc.prems(3,4) word_le_less_eq [of k dsize] by (auto simp del: fun_upd_apply)
  qed (use Suc i inc in \<open>auto simp: word_nat\<close>)
  then show ?case
    using i Suc.prems(2) [of i] Suc.prems(3)
    by (simp add: strncpy_copy.simps [of m _ _ _ i] memcpy_loop.simps [of m _ _ _ i] word_nat)
qed

section \<open>Properties\<close>

text \<open>C28: \<open>memmove\<close> is right for overlapping regions: when neither region wraps around the address
  space, every destination byte holds what the source byte held before the call, every byte
  outside the destination is unchanged, and the destination pointer is returned.\<close>

theorem memmove_correct:
  assumes "unat dst + unat n \<le> 2 ^ 32" and "unat src + unat n \<le> 2 ^ 32"
  shows "fst (memmove m dst src n) = dst
    \<and> (\<forall>x. snd (memmove m dst src n) x = (if x - dst < n then m (src + (x - dst)) else m x))"
  using assms by (simp add: memmove_any.copy_ret memmove_any.copy_apply in_range_ok_def)

text \<open>Witness of C28: four bytes moved up by two, over themselves.\<close>

theorem memmove_correct_witness:
  "snd (memmove (\<lambda>a. ucast a) 12 10 4) 15 = 13 \<and> snd (memmove (\<lambda>a. ucast a) 12 10 4) 11 = 11"
proof -
  have "unat (12 :: u32) + unat (4 :: u32) \<le> 2 ^ 32" "unat (10 :: u32) + unat (4 :: u32) \<le> 2 ^ 32"
    by simp_all
  from memmove_correct [OF this, of "\<lambda>a. ucast a"] show ?thesis by simp
qed

text \<open>\<open>memset\<close> writes the low byte of its value to each of the \<open>n\<close> bytes of the buffer, also
  where the buffer wraps around the address space, and to no other byte.\<close>

theorem memset_correct:
  "memset m buf val n = (buf, \<lambda>x. if x - buf < n then ucast val else m x)"
  by (simp add: memset_def memset_loop_apply fun_eq_iff)

text \<open>\<open>strlen\<close> returns the index of the first NUL byte, and returns nothing (the loop does not
  end) exactly when the address space holds no NUL byte.\<close>

theorem strlen_correct:
  "(strlen m str = Some k \<longleftrightarrow> m (str + k) = 0 \<and> (\<forall>j. j < k \<longrightarrow> m (str + j) \<noteq> 0))
   \<and> (strlen m str = None \<longleftrightarrow> (\<forall>a. m a \<noteq> 0))"
proof -
  have "strlen m str = None \<longleftrightarrow> (\<forall>i. m (str + i) \<noteq> 0)"
    using first_exists [of "\<lambda>i. m (str + i) = 0"] strlen_iff [of m str] by (metis not_Some_eq)
  also have "\<dots> \<longleftrightarrow> (\<forall>a. m a \<noteq> 0)"
    by (metis add_diff_cancel_left' diff_add_cancel add.commute)
  finally show ?thesis by (simp add: strlen_iff)
qed

text \<open>The string ''AB'' at address 10.\<close>

theorem strlen_correct_witness:
  "strlen ((\<lambda>_. 7)(10 := 65, 11 := 66, 12 := 0)) 10 = Some 2 \<and> strlen (\<lambda>_. 7) 10 = None"
  using strlen_correct [of "(\<lambda>_. 7)(10 := 65, 11 := 66, 12 := 0)" 10 2] strlen_correct [of "\<lambda>_. 7" 10 2]
  by (auto dest: word_less_2)

text \<open>\<open>strncpy\<close> copies the string up to its NUL or to \<open>dsize\<close> bytes, whichever comes first,
  and fills the rest of the destination with NUL bytes; nothing outside the destination changes.\<close>

theorem strncpy_correct:
  assumes "k \<le> dsize" and "k = dsize \<or> m (src + k) = 0" and "\<forall>j. j < k \<longrightarrow> m (src + j) \<noteq> 0"
    and "unat src + unat dsize \<le> unat dst \<or> unat dst + unat dsize \<le> unat src"
    and "unat dst + unat dsize \<le> 2 ^ 32" and "unat src + unat dsize \<le> 2 ^ 32"
  shows "strncpy m dst src dsize =
    (dst, \<lambda>x. if x - dst < k then m (src + (x - dst)) else if x - dst < dsize then 0 else m x)"
proof -
  have "dst + i \<noteq> src + j" if "i < dsize" "j < dsize" for i j
    using that assms(4) unat_add_in_range [OF assms(5) that(1)] unat_add_in_range [OF assms(6) that(2)]
    by (auto simp: word_nat dest: arg_cong [where f = unat])
  then have "strncpy_copy m dst src dsize 0 = (k, memcpy_loop m dst src k 0)"
    using assms(1-3) by (intro strncpy_copy_eq) auto
  moreover have "upward_ok dst src k"
    using assms by (auto simp: upward_ok_def word_nat)
  ultimately show ?thesis
    using assms(1) by (auto simp: strncpy_def fun_eq_iff memset_loop_apply memcpy_loop_upward)
qed

text \<open>A two-byte string copied into a field of four bytes.\<close>

theorem strncpy_correct_witness:
  "snd (strncpy ((\<lambda>_. 7)(10 := 65, 11 := 66, 12 := 0)) 20 10 4) 21 = 66
   \<and> snd (strncpy ((\<lambda>_. 7)(10 := 65, 11 := 66, 12 := 0)) 20 10 4) 23 = 0"
proof -
  let ?m = "(\<lambda>_. 7)(10 := 65, 11 := 66, 12 := 0) :: memory"
  have "\<forall>j. j < 2 \<longrightarrow> ?m (10 + j) \<noteq> 0"
    using word_less_2 by fastforce
  with strncpy_correct [of 2 4 ?m 10 20] show ?thesis by simp
qed

end
