(* ===== verification/Heap.thy ===== *)
theory Heap
  imports Brk Libc_String
begin

text \<open>
  The kernel heap (\<open>memory_manager/heap.c\<close>, \<open>internal.c\<close>, \<open>allocators.c\<close>): a list of blocks in the
  heap's bytes, each with an eight-byte header, from \<open>heap_start\<close> to a block marked EOM. The
  operations work on the bytes; the lemmas relate them to an abstract list of blocks
  \<open>(start, end, free)\<close>.
\<close>

section \<open>Headers\<close>

text \<open>\<open>struct HeapBlock\<close>: \<open>next\<close> at offset 0, \<open>EOM\<close> at 4, \<open>free\<close> at 5, two reserved bytes.\<close>

definition blk_next :: "memory \<Rightarrow> u32 \<Rightarrow> u32" where "blk_next m b = load32 m b"
definition blk_EOM :: "memory \<Rightarrow> u32 \<Rightarrow> bool" where "blk_EOM m b \<longleftrightarrow> m (b + 4) \<noteq> 0"
definition blk_free :: "memory \<Rightarrow> u32 \<Rightarrow> bool" where "blk_free m b \<longleftrightarrow> m (b + 5) \<noteq> 0"

definition set_next :: "u32 \<Rightarrow> u32 \<Rightarrow> memory \<Rightarrow> memory" where "set_next b v m = store32 m b v"
definition set_free :: "u32 \<Rightarrow> u8 \<Rightarrow> memory \<Rightarrow> memory" where "set_free b v m = m(b + 5 := v)"

abbreviation (input) HEAP_BLOCK_FREE :: u8 where "HEAP_BLOCK_FREE \<equiv> 1"
abbreviation (input) HEAP_BLOCK_USED :: u8 where "HEAP_BLOCK_USED \<equiv> 0"
abbreviation (input) EOM_TRUE :: u8 where "EOM_TRUE \<equiv> 1"
abbreviation (input) EOM_FALSE :: u8 where "EOM_FALSE \<equiv> 0"
abbreviation (input) MINIMUM_ALLOCATION_BYTES :: u32 where "MINIMUM_ALLOCATION_BYTES \<equiv> 16"

text \<open>\<open>sizeof (struct HeapBlock)\<close> is 8.\<close>

definition internal_heap_block_set_metadata :: "u32 \<Rightarrow> u8 \<Rightarrow> u8 \<Rightarrow> u32 \<Rightarrow> memory \<Rightarrow> memory" where
  "internal_heap_block_set_metadata dst EOM free nxt m = store32 (m(dst + 4 := EOM, dst + 5 := free)) dst nxt"

definition internal_heap_block_get_available_space :: "u32 \<Rightarrow> memory \<Rightarrow> size_t" where
  "internal_heap_block_get_available_space block m =
     (if blk_EOM m block then 0 else blk_next m block - block - 8)"

definition ALIGN :: "size_t \<Rightarrow> size_t" where
  "ALIGN n = (n + (8 - 1)) AND NOT (8 - 1)"

definition heap_block_merge_down :: "u32 \<Rightarrow> memory \<Rightarrow> memory" where
  "heap_block_merge_down block m = set_next block (blk_next m (blk_next m block)) m"

definition heap_block_split :: "u32 \<Rightarrow> size_t \<Rightarrow> memory \<Rightarrow> memory" where
  "heap_block_split block n m =
     (let aligned_size = ALIGN n;
          available_space = internal_heap_block_get_available_space block m
      in if available_space < aligned_size + 8 + MINIMUM_ALLOCATION_BYTES then m
         else let new_block_addr = block + 8 + n;
                  m = internal_heap_block_set_metadata new_block_addr EOM_FALSE HEAP_BLOCK_FREE (blk_next m block) m
              in set_next block new_block_addr m)"

section \<open>Allocation\<close>

definition heap_init :: "vaddr \<Rightarrow> 'z heap_scheme \<Rightarrow> (unit, 'z heap_scheme) kres option" where
  "heap_init kernel_end s =
     (let virt_base = P2V 0;
          page_table_size = PAGE_SIZE * 1024;
          hard_limit_addr = virt_base + page_table_size;
          heap_start_addr = (if kernel_end mod PAGE_SIZE \<noteq> 0 then (kernel_end + PAGE_SIZE) AND NOT (PAGE_SIZE - 1) else kernel_end)
      in if hard_limit_addr \<le> heap_start_addr then panicK (Abort ''KERNEL TOO BIG FOR INITIAL PAGE TABLE'')
         else let s = s\<lparr>program_break_point := hard_limit_addr\<rparr>;
                  heap_end = hard_limit_addr - 8;
                  s = s\<lparr>mem := internal_heap_block_set_metadata heap_end EOM_TRUE HEAP_BLOCK_USED NULL (mem s)\<rparr>;
                  s = s\<lparr>mem := internal_heap_block_set_metadata heap_start_addr EOM_FALSE HEAP_BLOCK_FREE heap_end (mem s)\<rparr>
              in retK () (s\<lparr>heap_start := heap_start_addr\<rparr>))"

text \<open>The search of \<open>kmalloc\<close>: the first free block that is large enough, or the EOM block.\<close>

partial_function (option) kmalloc_search :: "memory \<Rightarrow> size_t \<Rightarrow> u32 \<Rightarrow> (bool \<times> u32) option" where
  "kmalloc_search m aligned_size node =
     (if blk_EOM m node then Some (False, node)
      else let available_space = internal_heap_block_get_available_space node m
           in if blk_free m node \<and> aligned_size \<le> available_space then Some (True, node)
              else kmalloc_search m aligned_size (blk_next m node))"

definition kmalloc :: "size_t \<Rightarrow> 'z heap_scheme \<Rightarrow> (u32, 'z heap_scheme) kres option" where
  "kmalloc n s =
     (let s = lock_scheduler s;
          aligned_size = ALIGN n
      in case kmalloc_search (mem s) aligned_size (heap_start s) of
           None \<Rightarrow> None
         | Some (True, node) \<Rightarrow>
             let s = s\<lparr>mem := set_free node HEAP_BLOCK_USED (heap_block_split node aligned_size (mem s))\<rparr>
             in bindK (unlock_scheduler s) (\<lambda>_ s. retK (node + 8) s)
         | Some (False, node) \<Rightarrow>
             bindK (sbrk (aligned_size + 8) s) (\<lambda>new_block s.
             if new_block = - 1 then bindK (unlock_scheduler s) (\<lambda>_ s. retK NULL s)
             else
               let s = s\<lparr>mem := internal_heap_block_set_metadata node EOM_FALSE HEAP_BLOCK_USED
                           (program_break_point s - 8) (mem s)\<rparr>;
                   new_heap_end = program_break_point s - 8;
                   s = s\<lparr>mem := internal_heap_block_set_metadata new_heap_end EOM_TRUE HEAP_BLOCK_USED NULL (mem s)\<rparr>;
                   s = s\<lparr>mem := set_next node new_heap_end (mem s)\<rparr>
               in bindK (unlock_scheduler s) (\<lambda>_ s. retK (node + 8) s)))"

definition kcalloc :: "size_t \<Rightarrow> size_t \<Rightarrow> 'z heap_scheme \<Rightarrow> (u32, 'z heap_scheme) kres option" where
  "kcalloc nmemb n s =
     (let s = lock_scheduler s;
          bytes = nmemb * n
      in bindK (kmalloc bytes s) (\<lambda>new_block s.
         if new_block = NULL then bindK (unlock_scheduler s) (\<lambda>_ s. retK NULL s)
         else let s = s\<lparr>mem := snd (memset (mem s) new_block 0 bytes)\<rparr>
              in bindK (unlock_scheduler s) (\<lambda>_ s. retK new_block s)))"

section \<open>Release\<close>

text \<open>The search of \<open>kfree\<close> for the block before \<open>heap_block\<close>.\<close>

partial_function (option) kfree_parent :: "memory \<Rightarrow> u32 \<Rightarrow> u32 \<Rightarrow> u32 option" where
  "kfree_parent m heap_block parent_block =
     (if blk_next m parent_block \<noteq> heap_block then kfree_parent m heap_block (blk_next m parent_block)
      else Some parent_block)"

definition kfree :: "u32 \<Rightarrow> 'z heap_scheme \<Rightarrow> (unit, 'z heap_scheme) kres option" where
  "kfree ptr s =
     (let s = lock_scheduler s;
          heap_block = ptr - 8;
          s = s\<lparr>mem := set_free heap_block HEAP_BLOCK_FREE (mem s)\<rparr>;
          s = (if blk_free (mem s) (blk_next (mem s) heap_block)
               then s\<lparr>mem := heap_block_merge_down heap_block (mem s)\<rparr> else s)
      in if heap_block = heap_start s then unlock_scheduler s
         else case kfree_parent (mem s) heap_block (heap_start s) of
                None \<Rightarrow> None
              | Some parent_block \<Rightarrow>
                  unlock_scheduler (if blk_free (mem s) parent_block
                    then s\<lparr>mem := heap_block_merge_down parent_block (mem s)\<rparr> else s))"

definition krealloc :: "u32 \<Rightarrow> size_t \<Rightarrow> 'z heap_scheme \<Rightarrow> (u32, 'z heap_scheme) kres option" where
  "krealloc ptr n s =
     (let s = lock_scheduler s
      in if ptr = NULL then bindK (unlock_scheduler s) (\<lambda>_ s. kmalloc n s)
         else if n = 0 then
           bindK (kfree ptr s) (\<lambda>_ s. bindK (unlock_scheduler s) (\<lambda>_ s. retK NULL s))
         else
           let original_block = ptr - 8;
               available_space = internal_heap_block_get_available_space original_block (mem s)
           in if n \<le> available_space then
                bindK (unlock_scheduler (s\<lparr>mem := heap_block_split original_block n (mem s)\<rparr>)) (\<lambda>_ s. retK ptr s)
              else bindK (kmalloc n s) (\<lambda>new_block s.
                if new_block = NULL then bindK (unlock_scheduler s) (\<lambda>_ s. retK NULL s)
                else let s = s\<lparr>mem := snd (memmove (mem s) new_block ptr available_space)\<rparr>
                     in bindK (kfree ptr s) (\<lambda>_ s. bindK (unlock_scheduler s) (\<lambda>_ s. retK new_block s))))"

section \<open>Segments of the block list\<close>

type_synonym blk = "u32 \<times> u32 \<times> bool"

fun hseg :: "memory \<Rightarrow> u32 \<Rightarrow> blk list \<Rightarrow> u32 \<Rightarrow> bool" where
  "hseg m a [] c \<longleftrightarrow> a = c"
| "hseg m a ((b, n, f) # bs) c \<longleftrightarrow> a = b \<and> \<not> blk_EOM m b \<and> blk_next m b = n \<and> blk_free m b = f
     \<and> unat b + 8 \<le> unat n \<and> hseg m n bs c"

definition EOM_at :: "memory \<Rightarrow> u32 \<Rightarrow> bool" where
  "EOM_at m e \<longleftrightarrow> blk_EOM m e \<and> \<not> blk_free m e"

definition same_bytes :: "nat \<Rightarrow> nat \<Rightarrow> memory \<Rightarrow> memory \<Rightarrow> bool" where
  "same_bytes a c m m' \<longleftrightarrow> (\<forall>x. a \<le> unat x \<and> unat x < c \<longrightarrow> m' x = m x)"

lemma below_word: "x + k \<le> unat (n :: u32) \<Longrightarrow> x + k \<le> 2 ^ 32"
  using unat_lt32 [of n] by (simp del: unat_lt32)

lemma hseg_append: "hseg m a (xs @ ys) c \<longleftrightarrow> (\<exists>d. hseg m a xs d \<and> hseg m d ys c)"
  by (induction xs arbitrary: a) auto

lemma hseg_le: "hseg m a bs c \<Longrightarrow> unat a \<le> unat c"
proof (induction bs arbitrary: a)
  case (Cons blk bs)
  then show ?case by (cases blk) force
qed simp

lemma hseg_blk: "hseg m a bs c \<Longrightarrow> (b, n, f) \<in> set bs \<Longrightarrow> unat a \<le> unat b \<and> unat b + 8 \<le> unat n \<and> unat n \<le> unat c"
proof (induction bs arbitrary: a)
  case (Cons blk bs)
  obtain b' n' f' where blk: "blk = (b', n', f')" by (cases blk)
  with Cons.prems have h: "a = b'" "unat b' + 8 \<le> unat n'" "hseg m n' bs c" by auto
  with Cons.IH [OF h(3)] Cons.prems(2) blk hseg_le [OF h(3)] show ?case by force
qed simp

lemma same_bytes_at: "same_bytes a c m m' \<Longrightarrow> a \<le> unat b \<Longrightarrow> unat b + k < c \<Longrightarrow> k < 2 ^ 32 \<Longrightarrow> c \<le> 2 ^ 32 \<Longrightarrow> m' (b + of_nat k) = m (b + of_nat k)"
  unfolding same_bytes_def by (simp add: unat_add32 unat_of_nat)

lemma header_same:
  assumes "same_bytes a c m m'" and "a \<le> unat b" and "unat b + 8 \<le> c" and "c \<le> 2 ^ 32"
  shows "blk_next m' b = blk_next m b" "blk_EOM m' b = blk_EOM m b" "blk_free m' b = blk_free m b"
proof -
  have "m' (b + of_nat k) = m (b + of_nat k)" if "k < 8" for k
    using assms that by (intro same_bytes_at) auto
  from this [of 0] this [of 1] this [of 2] this [of 3] this [of 4] this [of 5]
  show "blk_next m' b = blk_next m b" "blk_EOM m' b = blk_EOM m b" "blk_free m' b = blk_free m b"
    by (auto simp: blk_next_def blk_EOM_def blk_free_def intro: load32_cong)
qed

lemma hseg_same: "hseg m a bs c \<Longrightarrow> same_bytes (unat a) (unat c) m m' \<Longrightarrow> hseg m' a bs c"
proof (induction bs arbitrary: a)
  case (Cons blk bs)
  obtain b n f where blk: "blk = (b, n, f)" by (cases blk)
  with Cons.prems have s: "a = b" "unat b + 8 \<le> unat n" "unat n \<le> unat c" "hseg m n bs c" by (auto dest: hseg_le)
  have c: "unat c \<le> 2 ^ 32" using unat_lt32 [of c] by (simp add: less_imp_le)
  note h = header_same [OF Cons.prems(2) _ _ c, of b]
  have "same_bytes (unat n) (unat c) m m'" using Cons.prems(2) s by (auto simp: same_bytes_def)
  with Cons.IH [OF s(4)] Cons.prems(1) blk s h show ?case by auto
qed simp


section \<open>Writing headers\<close>

definition same_outside :: "nat \<Rightarrow> nat \<Rightarrow> memory \<Rightarrow> memory \<Rightarrow> bool" where
  "same_outside a c m m' \<longleftrightarrow> (\<forall>x. \<not> (a \<le> unat x \<and> unat x < c) \<longrightarrow> m' x = m x)"

lemma same_outside_trans: "same_outside a c m m' \<Longrightarrow> same_outside a c m' m'' \<Longrightarrow> same_outside a c m m''"
  by (auto simp: same_outside_def)

lemma same_outside_mono: "same_outside a c m m' \<Longrightarrow> a' \<le> a \<Longrightarrow> c \<le> c' \<Longrightarrow> same_outside a' c' m m'"
  by (auto simp: same_outside_def)

lemma same_outside_refl [simp]: "same_outside a c m m"
  by (simp add: same_outside_def)

lemma same_bytes_outside: "same_outside a c m m' \<Longrightarrow> c' \<le> a \<or> c \<le> a' \<Longrightarrow> same_bytes a' c' m m'"
  by (auto simp: same_bytes_def same_outside_def)

lemma byte_outside: "unat (d :: u32) + k < 2 ^ 32 \<Longrightarrow> unat d + k < c \<Longrightarrow> a \<le> unat d \<Longrightarrow> same_outside a c m (m(d + of_nat k := v))"
  by (auto simp: same_outside_def unat_add32 unat_of_nat)

lemma store32_outside:
  assumes "unat d + 4 \<le> 2 ^ 32"
  shows "same_outside (unat d) (unat d + 4) m (store32 m d v)"
  unfolding same_outside_def
proof (intro allI impI)
  fix x :: u32
  assume "\<not> (unat d \<le> unat x \<and> unat x < unat d + 4)"
  then have "\<not> x - d < 4" using assms diff_less_iff [of d 4 x] by simp
  then show "store32 m d v x = m x" by (rule store32_other)
qed

lemma store32_above: "unat d + 8 \<le> 2 ^ 32 \<Longrightarrow> store32 m d v (d + 4) = m (d + 4)" "unat d + 8 \<le> 2 ^ 32 \<Longrightarrow> store32 m d v (d + 5) = m (d + 5)"
  by (auto simp: store32_def)

lemma set_metadata_header [simp]:
  assumes "unat d + 8 \<le> 2 ^ 32"
  shows "blk_next (internal_heap_block_set_metadata d e f n m) d = n"
    "blk_EOM (internal_heap_block_set_metadata d e f n m) d \<longleftrightarrow> e \<noteq> 0"
    "blk_free (internal_heap_block_set_metadata d e f n m) d \<longleftrightarrow> f \<noteq> 0"
  using store32_above [OF assms]
  by (simp_all add: internal_heap_block_set_metadata_def blk_next_def blk_EOM_def blk_free_def)

lemma set_metadata_outside:
  assumes "unat d + 8 \<le> 2 ^ 32"
  shows "same_outside (unat d) (unat d + 8) m (internal_heap_block_set_metadata d e f n m)"
proof -
  have b4: "same_outside (unat d) (unat d + 8) m (m(d + 4 := e))"
    using byte_outside [of d 4 "unat d + 8" "unat d" m e] assms by simp
  have b5: "same_outside (unat d) (unat d + 8) (m(d + 4 := e)) (m(d + 4 := e, d + 5 := f))"
    using byte_outside [of d 5 "unat d + 8" "unat d" "m(d + 4 := e)" f] assms by simp
  have "same_outside (unat d) (unat d + 8) k (store32 k d n)" for k
    using assms by (intro same_outside_mono [OF store32_outside]) simp_all
  from same_outside_trans [OF same_outside_trans [OF b4 b5] this] show ?thesis
    unfolding internal_heap_block_set_metadata_def .
qed

lemma set_next_header [simp]:
  assumes "unat d + 8 \<le> 2 ^ 32"
  shows "blk_next (set_next d n m) d = n" "blk_EOM (set_next d n m) d = blk_EOM m d" "blk_free (set_next d n m) d = blk_free m d"
  using store32_above [OF assms] by (simp_all add: set_next_def blk_next_def blk_EOM_def blk_free_def)

lemma set_next_outside: "unat d + 8 \<le> 2 ^ 32 \<Longrightarrow> same_outside (unat d) (unat d + 8) m (set_next d n m)"
  unfolding set_next_def by (rule same_outside_mono [OF store32_outside]) simp_all

lemma set_free_header [simp]:
  "blk_next (set_free d v m) d = blk_next m d" "blk_EOM (set_free d v m) d = blk_EOM m d" "blk_free (set_free d v m) d \<longleftrightarrow> v \<noteq> 0"
proof -
  have "d + 5 \<noteq> d" "d + 5 \<noteq> d + 1" "d + 5 \<noteq> d + 2" "d + 5 \<noteq> d + 3" "d + 5 \<noteq> d + 4" by simp_all
  then show "blk_next (set_free d v m) d = blk_next m d" "blk_EOM (set_free d v m) d = blk_EOM m d" "blk_free (set_free d v m) d \<longleftrightarrow> v \<noteq> 0"
    by (auto simp: set_free_def blk_next_def blk_EOM_def blk_free_def intro!: load32_cong)
qed

lemma set_free_outside: "unat d + 8 \<le> 2 ^ 32 \<Longrightarrow> same_outside (unat d) (unat d + 8) m (set_free d v m)"
  using byte_outside [of d 5 "unat d + 8" "unat d" m v] by (simp add: set_free_def)


section \<open>The abstract heap\<close>

text \<open>The heap from \<open>a\<close> consists of the blocks \<open>bs\<close> and ends with an EOM block at \<open>e\<close>.\<close>

definition heap_list :: "memory \<Rightarrow> u32 \<Rightarrow> blk list \<Rightarrow> u32 \<Rightarrow> bool" where
  "heap_list m a bs e \<longleftrightarrow> hseg m a bs e \<and> EOM_at m e \<and> unat e + 8 \<le> 2 ^ 32"

definition round8 :: "nat \<Rightarrow> nat" where "round8 k = (k + 7) div 8 * 8"

text \<open>Cutting \<open>k\<close> bytes off a block, if what remains is worth a block.\<close>

definition split_blk :: "nat \<Rightarrow> blk \<Rightarrow> blk list" where
  "split_blk k = (\<lambda>(b, n, f). if round8 k + 24 \<le> unat n - unat b - 8
     then [(b, b + 8 + of_nat k, f), (b + 8 + of_nat k, n, True)] else [(b, n, f)])"

definition fits :: "nat \<Rightarrow> blk \<Rightarrow> bool" where
  "fits k = (\<lambda>(b, n, f). f \<and> k \<le> unat n - unat b - 8)"

text \<open>First fit: the address of the block and the new list.\<close>

fun abs_alloc :: "nat \<Rightarrow> blk list \<Rightarrow> (u32 \<times> blk list) option" where
  "abs_alloc k [] = None"
| "abs_alloc k ((b, n, f) # bs) =
     (if fits k (b, n, f) then Some (b, split_blk k (b, n, False) @ bs)
      else case abs_alloc k bs of None \<Rightarrow> None | Some (p, bs') \<Rightarrow> Some (p, (b, n, f) # bs'))"

lemma unat_ALIGN: "unat k + 7 < 2 ^ 32 \<Longrightarrow> unat (ALIGN k) = round8 (unat k)"
proof -
  assume "unat k + 7 < 2 ^ 32"
  then have "unat (k + 7) = unat k + 7" by (simp add: unat_add32)
  then show ?thesis by (simp add: ALIGN_def round8_def unat_align_8)
qed

lemma round8_bounds: "k \<le> round8 k" "round8 k \<le> k + 7" "round8 (round8 k) = round8 k"
proof -
  show "k \<le> round8 k" "round8 k \<le> k + 7" unfolding round8_def by presburger+
  have "(j * 8 + 7) div 8 = j" for j :: nat by simp
  then show "round8 (round8 k) = round8 k" unfolding round8_def by simp
qed

lemma heap_block_split_spec:
  assumes "hseg m b [(b, n, f)] n" and "unat k + 31 < 2 ^ 32"
  shows "hseg (heap_block_split b k m) b (split_blk (unat k) (b, n, f)) n
    \<and> same_outside (unat b) (unat n) m (heap_block_split b k m)"
proof -
  have b: "\<not> blk_EOM m b" "blk_next m b = n" "blk_free m b = f" "unat b + 8 \<le> unat n" using assms(1) by auto
  have av: "unat (internal_heap_block_get_available_space b m) = unat n - unat b - 8"
    using b by (simp add: internal_heap_block_get_available_space_def unat_sub32 word_nat)
  have al: "unat (ALIGN k + 8 + 16) = round8 (unat k) + 24"
    using assms(2) round8_bounds(2) [of "unat k"] by (simp add: unat_ALIGN unat_add32)
  show ?thesis
  proof (cases "round8 (unat k) + 24 \<le> unat n - unat b - 8")
    case False
    then have "heap_block_split b k m = m" using av al by (simp add: heap_block_split_def word_nat)
    with False assms(1) show ?thesis by (simp add: split_blk_def)
  next
    case True
    let ?d = "b + 8 + k"
    define m1 where "m1 = internal_heap_block_set_metadata ?d EOM_FALSE HEAP_BLOCK_FREE n m"
    define m2 where "m2 = set_next b ?d m1"
    have eq: "heap_block_split b k m = m2"
      using True av al b(2) by (simp add: heap_block_split_def word_nat m1_def m2_def Let_def)
    have d: "unat ?d = unat b + 8 + unat k" "unat ?d + 24 \<le> unat n" "unat b + 8 \<le> unat ?d"
    proof -
      have le: "unat b + 8 + unat k + 24 \<le> unat n" using True b(4) round8_bounds(1) [of "unat k"] by linarith
      then have "unat b + 8 < 4294967296" "unat b + 8 + unat k < 4294967296" using unat_lt32 [of n] by linarith+
      then show "unat ?d = unat b + 8 + unat k" by (simp add: unat_add32)
      then show "unat ?d + 24 \<le> unat n" "unat b + 8 \<le> unat ?d" using le by simp_all
    qed
    have d8: "unat ?d + 8 \<le> 2 ^ 32" "unat b + 8 \<le> 2 ^ 32"
      using below_word [OF d(2)] below_word [OF d(3)] by simp_all
    note o1 = set_metadata_outside [OF d8(1), of m EOM_FALSE HEAP_BLOCK_FREE n, folded m1_def]
      and o2 = set_next_outside [OF d8(2), of m1 ?d, folded m2_def]
    have out: "same_outside (unat b) (unat n) m m2"
      using same_outside_trans [OF same_outside_mono [OF o1] same_outside_mono [OF o2]] d by simp
    have "blk_free m1 b = f" "\<not> blk_EOM m1 b"
      using header_same [OF same_bytes_outside [OF o1, of "unat b + 8" "unat b"], of b] d d8 b by simp_all
    then have h1: "blk_next m2 b = ?d" "\<not> blk_EOM m2 b" "blk_free m2 b = f" using d8 by (simp_all add: m2_def)
    have "blk_next m2 ?d = n" "\<not> blk_EOM m2 ?d" "blk_free m2 ?d"
      using header_same [OF same_bytes_outside [OF o2, of "unat ?d + 8" "unat ?d"], of ?d] d d8 by (simp_all add: m1_def)
    with h1 d True show ?thesis unfolding eq using out by (simp add: split_blk_def)
  qed
qed

lemma hseg_replace:
  assumes "hseg m a (pre @ (b, n, f) # post) c" and "same_outside (unat b) (unat n) m m'" and "hseg m' b new n"
  shows "hseg m' a (pre @ new @ post) c"
proof -
  from assms(1) have p: "hseg m a pre b" "hseg m n post c" by (auto simp: hseg_append)
  have "hseg m' a pre b" by (rule hseg_same [OF p(1) same_bytes_outside [OF assms(2)]]) simp
  moreover have "hseg m' n post c" by (rule hseg_same [OF p(2) same_bytes_outside [OF assms(2)]]) simp
  ultimately show ?thesis using assms(3) by (auto simp: hseg_append)
qed

lemma heap_list_replace:
  assumes "heap_list m a (pre @ (b, n, f) # post) e" and "same_outside (unat b) (unat n) m m'" and "hseg m' b new n"
  shows "heap_list m' a (pre @ new @ post) e"
proof -
  have le: "unat n \<le> unat e" using assms(1) hseg_blk [of m a "pre @ (b, n, f) # post" e b n f] by (simp add: heap_list_def)
  have e8: "unat e + 8 \<le> 2 ^ 32" using assms(1) by (simp add: heap_list_def)
  note header_same [OF same_bytes_outside [OF assms(2), of "unat e + 8" "unat e"], of e]
  with assms hseg_replace [OF _ assms(2,3), of a pre f post e] le e8 show ?thesis
    by (simp add: heap_list_def EOM_at_def)
qed


text \<open>Where first fit finds its block.\<close>

lemma abs_alloc_Some:
  assumes "abs_alloc k bs = Some (p, bs')"
  shows "\<exists>pre n post. bs = pre @ (p, n, True) # post \<and> bs' = pre @ split_blk k (p, n, False) @ post
    \<and> k \<le> unat n - unat p - 8 \<and> (\<forall>x \<in> set pre. \<not> fits k x)"
  using assms
proof (induction k bs arbitrary: bs' rule: abs_alloc.induct)
  case (2 k b n f bs)
  show ?case
  proof (cases "fits k (b, n, f)")
    case True
    with 2 show ?thesis by (intro exI [of _ "[]"]) (auto simp: fits_def)
  next
    case False
    with "2.prems" obtain cs where cs: "abs_alloc k bs = Some (p, cs)" "bs' = (b, n, f) # cs" by (auto split: option.splits)
    from "2.IH" [OF False cs(1)] obtain pre n' post where
      "bs = pre @ (p, n', True) # post" "cs = pre @ split_blk k (p, n', False) @ post"
      "k \<le> unat n' - unat p - 8" "\<forall>x \<in> set pre. \<not> fits k x" by blast
    with cs False show ?thesis by (intro exI [of _ "(b, n, f) # pre"]) auto
  qed
qed simp

lemma kmalloc_search_spec:
  "hseg m a bs e \<Longrightarrow> EOM_at m e \<Longrightarrow>
   kmalloc_search m k a = Some (case abs_alloc (unat k) bs of Some (p, _) \<Rightarrow> (True, p) | None \<Rightarrow> (False, e))"
proof (induction bs arbitrary: a)
  case Nil
  then show ?case by (subst kmalloc_search.simps) (simp add: EOM_at_def)
next
  case (Cons blk bs)
  obtain b n f where blk: "blk = (b, n, f)" by (cases blk)
  with Cons.prems have b: "a = b" "\<not> blk_EOM m b" "blk_next m b = n" "blk_free m b = f" "unat b + 8 \<le> unat n" "hseg m n bs e" by auto
  have "unat (internal_heap_block_get_available_space b m) = unat n - unat b - 8"
    using b by (simp add: internal_heap_block_get_available_space_def unat_sub32 word_nat)
  then have fit: "blk_free m b \<and> k \<le> internal_heap_block_get_available_space b m \<longleftrightarrow> fits (unat k) (b, n, f)"
    using b by (simp add: fits_def word_nat)
  show ?case
  proof (cases "fits (unat k) (b, n, f)")
    case True
    then show ?thesis using b fit blk by (subst kmalloc_search.simps) simp
  next
    case False
    then have "kmalloc_search m k a = kmalloc_search m k n" using b fit by (subst kmalloc_search.simps) auto
    with Cons.IH [OF b(6) Cons.prems(2)] False blk show ?thesis by (auto split: option.splits)
  qed
qed

lemma kmalloc_take:
  assumes "heap_list m a bs e" and "abs_alloc (unat k) bs = Some (p, bs')" and "unat k + 31 < 2 ^ 32"
  shows "\<exists>n. (p, n, True) \<in> set bs \<and> heap_list (set_free p HEAP_BLOCK_USED (heap_block_split p k m)) a bs' e
    \<and> same_outside (unat p) (unat n) m (set_free p HEAP_BLOCK_USED (heap_block_split p k m))"
proof -
  from abs_alloc_Some [OF assms(2)] obtain pre n post where
    bs: "bs = pre @ (p, n, True) # post" "bs' = pre @ split_blk (unat k) (p, n, False) @ post" by blast
  let ?m = "heap_block_split p k m" and ?m' = "set_free p HEAP_BLOCK_USED (heap_block_split p k m)"
  have one: "hseg m p [(p, n, True)] n" and le: "unat p + 8 \<le> unat n"
    using assms(1) by (auto simp: heap_list_def bs hseg_append)
  note split = heap_block_split_spec [OF one assms(3)]
  have p8: "unat p + 8 \<le> 2 ^ 32" using le by (rule below_word)
  note free = set_free_outside [OF p8, of ?m HEAP_BLOCK_USED]
  have out: "same_outside (unat p) (unat n) m ?m'"
    using same_outside_trans [OF conjunct2 [OF split] same_outside_mono [OF free]] le by simp
  have "hseg ?m' p (split_blk (unat k) (p, n, False)) n"
  proof -
    obtain d rest where d: "split_blk (unat k) (p, n, True) = (p, d, True) # rest" "split_blk (unat k) (p, n, False) = (p, d, False) # rest"
      by (cases "round8 (unat k) + 24 \<le> unat n - unat p - 8") (auto simp: split_blk_def intro: that)
    with split have r: "hseg ?m d rest n" "\<not> blk_EOM ?m p" "blk_next ?m p = d" "unat p + 8 \<le> unat d" by auto
    have "hseg ?m' d rest n"
      using r(4) by (intro hseg_same [OF r(1) same_bytes_outside [OF free]]) simp
    with d r show ?thesis by simp
  qed
  with heap_list_replace [OF _ out, of a pre True post e "split_blk (unat k) (p, n, False)"] assms(1) bs out show ?thesis by auto
qed


section \<open>The heap's invariant\<close>

definition heap_ok :: "'z heap_scheme \<Rightarrow> blk list \<Rightarrow> u32 \<Rightarrow> bool" where
  "heap_ok s bs e \<longleftrightarrow> heap_list (mem s) (heap_start s) bs e \<and> unat e + 8 = unat (program_break_point s) \<and> brk_inv s"

lemma lock_simps [simp]:
  "mem (lock_scheduler s) = mem s" "heap_start (lock_scheduler s) = heap_start s"
  "program_break_point (lock_scheduler s) = program_break_point s"
  "mem (unlocked r s) = mem s" "heap_start (unlocked r s) = heap_start s"
  "program_break_point (unlocked r s) = program_break_point s"
  by (simp_all add: lock_scheduler_def unlocked_def)

lemma same_lock_mem [simp]: "same_lock s (t\<lparr>mem := m\<rparr>) = same_lock s t"
  by (simp add: same_lock_def)

lemma same_lock_refl [simp]: "same_lock s s"
  by (simp add: same_lock_def)

lemma unlocked_lock [simp]: "unlocked s ((lock_scheduler s)\<lparr>mem := m\<rparr>) = s\<lparr>mem := m, irq_enabled := (IRQ_disable_counter s = 0)\<rparr>"
  by (simp add: unlocked_def lock_scheduler_def)

text \<open>The block that a growing heap makes of its EOM block.\<close>

definition grown :: "u32 \<Rightarrow> u32 \<Rightarrow> memory \<Rightarrow> memory" where
  "grown node new_end m = set_next node new_end (internal_heap_block_set_metadata new_end EOM_TRUE HEAP_BLOCK_USED NULL
     (internal_heap_block_set_metadata node EOM_FALSE HEAP_BLOCK_USED new_end m))"

lemma grown_spec:
  assumes "heap_list m a bs e" and "unat e + 8 \<le> unat e'" and "unat e' + 8 \<le> 2 ^ 32"
  shows "heap_list (grown e e' m) a (bs @ [(e, e', False)]) e' \<and> same_outside (unat e) (unat e' + 8) m (grown e e' m)"
proof -
  define m1 where "m1 = internal_heap_block_set_metadata e EOM_FALSE HEAP_BLOCK_USED e' m"
  define m2 where "m2 = internal_heap_block_set_metadata e' EOM_TRUE HEAP_BLOCK_USED NULL m1"
  have e8: "unat e + 8 \<le> 2 ^ 32" using assms(1) by (simp add: heap_list_def)
  note o1 = set_metadata_outside [OF e8, of m EOM_FALSE HEAP_BLOCK_USED e', folded m1_def]
    and o2 = set_metadata_outside [OF assms(3), of m1 EOM_TRUE HEAP_BLOCK_USED NULL, folded m2_def]
    and o3 = set_next_outside [OF e8, of m2 e']
  have g: "grown e e' m = set_next e e' m2" by (simp add: grown_def m1_def m2_def)
  have out: "same_outside (unat e) (unat e' + 8) m (grown e e' m)"
    unfolding g using same_outside_trans [OF same_outside_trans [OF same_outside_mono [OF o1] same_outside_mono [OF o2]] same_outside_mono [OF o3]]
      assms(2) by simp
  have "blk_EOM m2 e = blk_EOM m1 e" "blk_free m2 e = blk_free m1 e"
    using header_same [OF same_bytes_outside [OF o2, of "unat e + 8" "unat e"], of e] assms(2) e8 by simp_all
  then have "hseg (grown e e' m) e [(e, e', False)] e'" unfolding g using e8 assms(2) by (simp add: m1_def)
  moreover have "EOM_at (grown e e' m) e'"
    using header_same [OF same_bytes_outside [OF o3, of "unat e' + 8" "unat e'"], of e'] assms(2,3)
    unfolding g EOM_at_def by (simp add: m2_def)
  moreover have "hseg (grown e e' m) a bs e"
    using assms(1) by (intro hseg_same [OF _ same_bytes_outside [OF out]]) (simp_all add: heap_list_def)
  ultimately show ?thesis using out assms(3) by (auto simp: heap_list_def hseg_append)
qed

text \<open>What the allocator leaves of the scheduler: everything but interrupts, which the last unlock
  turns on.\<close>

definition kept :: "'z heap_scheme \<Rightarrow> 'z heap_scheme \<Rightarrow> bool" where
  "kept s s' \<longleftrightarrow> IRQ_disable_counter s' = IRQ_disable_counter s
     \<and> postpone_task_switches_counter s' = postpone_task_switches_counter s
     \<and> task_switches_postponed_flag s' = task_switches_postponed_flag s \<and> irq_enabled s' = (IRQ_disable_counter s = 0)
     \<and> current_task_PCB s' = current_task_PCB s \<and> first_ready_to_run_task s' = first_ready_to_run_task s
     \<and> last_ready_to_run_task s' = last_ready_to_run_task s \<and> dead_tasks s' = dead_tasks s
     \<and> sleeping_taskes s' = sleeping_taskes s \<and> tcb s' = tcb s \<and> resume s' = resume s
     \<and> ticks_since_boot s' = ticks_since_boot s \<and> last_tick s' = last_tick s \<and> current_pid s' = current_pid s
     \<and> heap_start s' = heap_start s \<and> heap.more s' = heap.more s"

lemma kept_lock_ok: "kept s s' \<Longrightarrow> lock_ok k s \<Longrightarrow> lock_ok k s'"
  by (simp add: kept_def lock_ok_def)

lemma kept_unlocked:
  assumes "vmm.more t = vmm.more ((lock_scheduler s)\<lparr>mem := m, program_break_point := b\<rparr>)"
  shows "kept s (unlocked s t)" "same_lock (lock_scheduler s) t" "mem t = m" "program_break_point t = b" "heap_start t = heap_start s"
proof -
  show "kept s (unlocked s t)" "same_lock (lock_scheduler s) t" "mem t = m" "program_break_point t = b" "heap_start t = heap_start s"
    using assms by (cases s; cases t; simp add: kept_def unlocked_def lock_scheduler_def same_lock_def)+
qed

lemma kmalloc_grow:
  assumes "heap_ok s bs e" and "lock_ok 0 s" and "0 < k" and "k < 2 ^ 31" and "unat (program_break_point s) + k + 4095 \<le> 0xFFC00000"
    and "8 \<le> k"
  shows "\<exists>r t. sbrk (of_nat k) (lock_scheduler s) = retK r t \<and>
    (r = - 1 \<and> heap_ok (unlocked s t) bs e \<and> unlock_scheduler t = retK () (unlocked s t) \<and> kept s (unlocked s t) \<and> mem t = mem s
     \<or> r \<noteq> - 1 \<and> (let e' = program_break_point t - 8; t' = t\<lparr>mem := grown e e' (mem t)\<rparr> in
          heap_ok (unlocked s t') (bs @ [(e, e', False)]) e' \<and> unlock_scheduler t' = retK () (unlocked s t')
          \<and> kept s (unlocked s t') \<and> unat e' = unat e + k \<and> same_outside (unat e) (unat e' + 8) (mem s) (mem t')))"
proof -
  let ?l = "lock_scheduler s" and ?k = "of_nat k :: u32"
  have k: "unat ?k = k" using assms(4) by (simp add: unat_of_nat)
  have l: "brk_inv ?l" "program_break_point ?l = program_break_point s" using assms(1) by (simp_all add: heap_ok_def)
  have sb: "sbrk ?k ?l = increment_brk ?k ?l" using assms(3,4) k by (intro sbrk_positive) simp_all
  from increment_brk_spec [OF l(1), of ?k] k l(2) assms(5) obtain r t where
    t: "increment_brk ?k ?l = retK r t" "brk_inv t"
      "r = program_break_point s \<and> vmm.more t = vmm.more (?l\<lparr>program_break_point := program_break_point s + ?k\<rparr>)
       \<or> r = - 1 \<and> vmm.more t = vmm.more ?l"
    by auto
  have pb: "unat (program_break_point s + ?k) = unat (program_break_point s) + k" using k assms(5) by (simp add: unat_add32)
  have hl: "heap_list (mem s) (heap_start s) bs e" "unat e + 8 = unat (program_break_point s)"
    using assms(1) by (simp_all add: heap_ok_def)
  have ne: "program_break_point s \<noteq> - 1" using assms(5) by (auto simp: unat_minus_1)
  show ?thesis
  proof (cases "r = - 1")
    case True
    with t(3) ne have "vmm.more t = vmm.more (?l\<lparr>mem := mem s, program_break_point := program_break_point s\<rparr>)" by (cases s) (auto simp: lock_scheduler_def)
    note kept = kept_unlocked [OF this]
    with unlock_locked [OF assms(2) kept(2)] True t sb hl show ?thesis by (auto simp: heap_ok_def)
  next
    case False
    with t(3) have "vmm.more t = vmm.more (?l\<lparr>mem := mem s, program_break_point := program_break_point s + ?k\<rparr>)" by (cases s) (auto simp: lock_scheduler_def)
    note kept = kept_unlocked [OF this]
    let ?e = "program_break_point t - 8" and ?t = "t\<lparr>mem := grown e (program_break_point t - 8) (mem t)\<rparr>"
    have e': "unat ?e = unat (program_break_point s) + k - 8" using pb kept(4) hl(2) by (simp add: unat_sub32 word_nat)
    then have le: "unat e + 8 \<le> unat ?e" "unat ?e + 8 \<le> 2 ^ 32" "unat ?e + 8 = unat (program_break_point t)" "unat ?e = unat e + k"
      using hl(2) assms(5,6) pb kept(4) by simp_all
    note grown_spec [OF hl(1) le(1,2)]
    moreover have "unlock_scheduler ?t = retK () (unlocked s ?t)" using unlock_locked [OF assms(2), of ?t] kept(2) by simp
    moreover have "kept s (unlocked s ?t)" using kept(1) by (simp add: kept_def unlocked_def)
    ultimately show ?thesis using False t(1,2) sb kept le by (simp add: heap_ok_def Let_def)
  qed
qed


lemma kmalloc_spec:
  assumes "heap_ok s bs e" and "lock_ok 0 s" and "unat n \<le> 0x7FFFFF00"
    and "unat (program_break_point s) + round8 (unat n) + 8 + 4095 \<le> 0xFFC00000"
  shows "\<exists>p s'. kmalloc n s = retK p s' \<and> kept s s'
    \<and> (case abs_alloc (round8 (unat n)) bs of
         Some (q, bs') \<Rightarrow> p = q + 8 \<and> heap_ok s' bs' e
           \<and> (\<exists>d. (q, d, True) \<in> set bs \<and> same_outside (unat q) (unat d) (mem s) (mem s'))
       | None \<Rightarrow> p = NULL \<and> heap_ok s' bs e \<and> mem s' = mem s
           \<or> (\<exists>e'. p = e + 8 \<and> heap_ok s' (bs @ [(e, e', False)]) e' \<and> unat e' = unat e + 8 + round8 (unat n)
                \<and> same_outside (unat e) (unat e' + 8) (mem s) (mem s')))"
proof -
  have k: "unat (ALIGN n) = round8 (unat n)" and kb: "round8 (unat n) \<le> 0x7FFFFF07"
    using assms(3) round8_bounds(2) [of "unat n"] by (simp_all add: unat_ALIGN)
  have hl: "heap_list (mem s) (heap_start s) bs e" using assms(1) by (simp add: heap_ok_def)
  then have search: "kmalloc_search (mem s) (ALIGN n) (heap_start s) =
      Some (case abs_alloc (round8 (unat n)) bs of Some (p, _) \<Rightarrow> (True, p) | None \<Rightarrow> (False, e))"
    using kmalloc_search_spec [of "mem s" "heap_start s" bs e "ALIGN n"] k by (simp add: heap_list_def)
  show ?thesis
  proof (cases "abs_alloc (round8 (unat n)) bs")
    case (Some a)
    obtain q bs' where a: "a = (q, bs')" by (cases a)
    have al: "abs_alloc (unat (ALIGN n)) bs = Some (q, bs')" using Some a k by simp
    let ?m = "set_free q HEAP_BLOCK_USED (heap_block_split q (ALIGN n) (mem s))"
    from kmalloc_take [OF hl al] k kb obtain d where
      d: "(q, d, True) \<in> set bs" "heap_list ?m (heap_start s) bs' e" "same_outside (unat q) (unat d) (mem s) ?m" by auto
    let ?t = "(lock_scheduler s)\<lparr>mem := ?m\<rparr>"
    have u: "unlock_scheduler ?t = retK () (unlocked s ?t)" using unlock_locked [OF assms(2)] by simp
    have "kmalloc n s = retK (q + 8) (unlocked s ?t)"
      using search Some a u by (simp add: kmalloc_def Let_def)
    moreover have "kept s (unlocked s ?t)" by (simp add: kept_def unlocked_def lock_scheduler_def)
    moreover have "heap_ok (unlocked s ?t) bs' e" using assms(1) d(2) by (simp add: heap_ok_def del: unlocked_lock)
    ultimately show ?thesis using Some a d by (auto simp del: unlocked_lock intro!: exI)
  next
    case None
    have eq: "ALIGN n + 8 = of_nat (round8 (unat n) + 8)" using k by (simp flip: k)
    from kmalloc_grow [OF assms(1,2), of "round8 (unat n) + 8"] kb assms(4) obtain r t where
      t: "sbrk (ALIGN n + 8) (lock_scheduler s) = retK r t" and
      res: "r = - 1 \<and> heap_ok (unlocked s t) bs e \<and> unlock_scheduler t = retK () (unlocked s t) \<and> kept s (unlocked s t) \<and> mem t = mem s
       \<or> r \<noteq> - 1 \<and> (let e' = program_break_point t - 8; t' = t\<lparr>mem := grown e e' (mem t)\<rparr> in
          heap_ok (unlocked s t') (bs @ [(e, e', False)]) e' \<and> unlock_scheduler t' = retK () (unlocked s t')
          \<and> kept s (unlocked s t') \<and> unat e' = unat e + (round8 (unat n) + 8) \<and> same_outside (unat e) (unat e' + 8) (mem s) (mem t'))"
      unfolding eq by auto
    show ?thesis
    proof (cases "r = - 1")
      case True
      with res have "kmalloc n s = retK NULL (unlocked s t)"
        using search None t by (simp add: kmalloc_def Let_def)
      with True res None show ?thesis by auto
    next
      case False
      let ?e = "program_break_point t - 8" and ?t = "t\<lparr>mem := grown e (program_break_point t - 8) (mem t)\<rparr>"
      have r: "heap_ok (unlocked s ?t) (bs @ [(e, ?e, False)]) ?e" "unlock_scheduler ?t = retK () (unlocked s ?t)"
        "kept s (unlocked s ?t)" "unat ?e = unat e + (round8 (unat n) + 8)" "same_outside (unat e) (unat ?e + 8) (mem s) (mem ?t)"
        using res False by (metis (no_types, lifting))+
      have "kmalloc n s = retK (e + 8) (unlocked s ?t)"
        using search None t False r(2) by (simp add: kmalloc_def Let_def grown_def)
      with r None show ?thesis by (auto intro!: exI [of _ "unlocked s ?t"])
    qed
  qed
qed


text \<open>A request that fits writes two headers only: the one of the block and the one behind the bytes handed out.\<close>

lemma kmalloc_fit:
  assumes "heap_ok s bs e" and "lock_ok 0 s" and "unat n \<le> 0x7FFFFF00" and "abs_alloc (round8 (unat n)) bs = Some (q, bs')"
  shows "kmalloc n s = retK (q + 8) (s\<lparr>mem := set_free q HEAP_BLOCK_USED (heap_block_split q (ALIGN n) (mem s)), irq_enabled := (IRQ_disable_counter s = 0)\<rparr>)"
proof -
  have k: "unat (ALIGN n) = round8 (unat n)" using assms(3) by (simp add: unat_ALIGN)
  have "kmalloc_search (mem s) (ALIGN n) (heap_start s) = Some (True, q)"
    using kmalloc_search_spec [of "mem s" "heap_start s" bs e "ALIGN n"] assms(1,4) k by (simp add: heap_ok_def heap_list_def)
  moreover have "unlock_scheduler ((lock_scheduler s)\<lparr>mem := m\<rparr>) = retK () (unlocked s ((lock_scheduler s)\<lparr>mem := m\<rparr>))" for m
    using unlock_locked [OF assms(2)] by simp
  ultimately show ?thesis by (simp add: kmalloc_def Let_def)
qed

lemma taken_outside:
  assumes "unat q + 16 + unat k \<le> 2 ^ 32"
  shows "same_outside (unat q) (unat q + 16 + unat k) m (set_free q v (heap_block_split q k m))"
proof -
  have d: "unat (q + 8 + k) = unat q + 8 + unat k" using assms by (simp add: unat_add32)
  have "same_outside (unat q) (unat q + 16 + unat k) m (heap_block_split q k m)"
  proof (cases "internal_heap_block_get_available_space q m < ALIGN k + 8 + MINIMUM_ALLOCATION_BYTES")
    case False
    let ?m = "internal_heap_block_set_metadata (q + 8 + k) EOM_FALSE HEAP_BLOCK_FREE (blk_next m q) m"
    have "heap_block_split q k m = set_next q (q + 8 + k) ?m" using False by (simp add: heap_block_split_def Let_def)
    moreover have "same_outside (unat q) (unat q + 16 + unat k) m ?m"
      using assms d by (intro same_outside_mono [OF set_metadata_outside]) simp_all
    moreover have "same_outside (unat q) (unat q + 16 + unat k) ?m (set_next q (q + 8 + k) ?m)"
      using assms by (intro same_outside_mono [OF set_next_outside]) simp_all
    ultimately show ?thesis by (auto intro: same_outside_trans)
  qed (simp add: heap_block_split_def same_outside_def)
  moreover have "same_outside (unat q) (unat q + 16 + unat k) m' (set_free q v m')" for m'
    using assms by (intro same_outside_mono [OF set_free_outside]) simp_all
  ultimately show ?thesis by (rule same_outside_trans)
qed


section \<open>Release refines the abstract heap\<close>

definition merge_next :: "u32 \<Rightarrow> u32 \<Rightarrow> blk list \<Rightarrow> blk list" where
  "merge_next b n post = (case post of (_, n', True) # post' \<Rightarrow> (b, n', True) # post' | _ \<Rightarrow> (b, n, True) # post)"

definition abs_free :: "blk list \<Rightarrow> u32 \<Rightarrow> u32 \<Rightarrow> blk list \<Rightarrow> blk list" where
  "abs_free pre b n post =
     (if pre \<noteq> [] \<and> snd (snd (last pre))
      then butlast pre @ (fst (last pre), fst (snd (hd (merge_next b n post))), True) # tl (merge_next b n post)
      else pre @ merge_next b n post)"

lemma heap_list_replace_seg:
  assumes "heap_list m a (pre @ mid @ post) e" and "hseg m a pre b" and "hseg m b mid n"
    and "same_outside (unat b) (unat n) m m'" and "hseg m' b new n"
  shows "heap_list m' a (pre @ new @ post) e"
proof -
  have det: "hseg m u xs v \<Longrightarrow> hseg m u xs w \<Longrightarrow> v = w" for u v w xs
    by (induction xs arbitrary: u) auto
  obtain b' n' where seg: "hseg m a pre b'" "hseg m b' mid n'" "hseg m n' post e"
    using assms(1) by (auto simp: heap_list_def hseg_append)
  with det [OF assms(2) seg(1)] det [OF assms(3), of n'] have post: "hseg m n post e" by simp
  have "hseg m' a pre b" by (rule hseg_same [OF assms(2) same_bytes_outside [OF assms(4)]]) simp
  moreover have "hseg m' n post e" by (rule hseg_same [OF post same_bytes_outside [OF assms(4)]]) simp
  moreover have "EOM_at m' e"
    using header_same [OF same_bytes_outside [OF assms(4), of "unat e + 8" "unat e"], of e] hseg_le [OF post] assms(1)
    by (simp add: heap_list_def EOM_at_def)
  ultimately show ?thesis using assms(1,5) by (auto simp: heap_list_def hseg_append)
qed

lemma merge_down_spec:
  assumes "heap_list m a (pre @ (b, n, f) # (n, n', g) # post) e"
  shows "heap_list (heap_block_merge_down b m) a (pre @ (b, n', f) # post) e"
    and "same_outside (unat b) (unat b + 8) m (heap_block_merge_down b m)"
proof -
  have s: "hseg m a pre b" "hseg m b [(b, n, f), (n, n', g)] n'" using assms by (auto simp: heap_list_def hseg_append)
  then have b: "\<not> blk_EOM m b" "blk_next m b = n" "blk_free m b = f" "blk_next m n = n'" "unat b + 8 \<le> unat n" "unat n + 8 \<le> unat n'" by auto
  then have b8: "unat b + 8 \<le> 2 ^ 32" using below_word by blast
  have m': "heap_block_merge_down b m = set_next b n' m" using b by (simp add: heap_block_merge_down_def)
  show out: "same_outside (unat b) (unat b + 8) m (heap_block_merge_down b m)"
    unfolding m' by (rule set_next_outside [OF b8])
  have "hseg (heap_block_merge_down b m) b [(b, n', f)] n'" unfolding m' using b b8 by simp
  with heap_list_replace_seg [of m a pre "[(b, n, f), (n, n', g)]" post e b n' _ "[(b, n', f)]", OF _ s same_outside_mono [OF out]] assms b
  show "heap_list (heap_block_merge_down b m) a (pre @ (b, n', f) # post) e" by simp
qed

lemma kfree_parent_spec:
  "hseg m a (pre @ [(p, b, f)]) b \<Longrightarrow> kfree_parent m b a = Some p"
proof (induction pre arbitrary: a)
  case Nil
  then show ?case by (subst kfree_parent.simps) simp
next
  case (Cons blk pre)
  obtain x y g where blk: "blk = (x, y, g)" by (cases blk)
  with Cons.prems have x: "a = x" "blk_next m x = y" and r: "hseg m y (pre @ [(p, b, f)]) b" by auto
  have "unat y < unat b" using hseg_blk [OF r, of p b f] by simp
  then have "kfree_parent m b a = kfree_parent m b y" using x by (subst kfree_parent.simps) auto
  with Cons.IH [OF r] show ?case by simp
qed

lemma mark_free_spec:
  assumes "heap_list m a (pre @ (b, n, f) # post) e"
  shows "heap_list (set_free b HEAP_BLOCK_FREE m) a (pre @ (b, n, True) # post) e"
    and "same_outside (unat b) (unat b + 8) m (set_free b HEAP_BLOCK_FREE m)"
proof -
  have b: "\<not> blk_EOM m b" "blk_next m b = n" "unat b + 8 \<le> unat n" using assms by (auto simp: heap_list_def hseg_append)
  show out: "same_outside (unat b) (unat b + 8) m (set_free b HEAP_BLOCK_FREE m)"
    using below_word [OF b(3)] by (rule set_free_outside)
  have "hseg (set_free b HEAP_BLOCK_FREE m) b [(b, n, True)] n" using b by simp
  with heap_list_replace [OF assms same_outside_mono [OF out], of "[(b, n, True)]"] b(3)
  show "heap_list (set_free b HEAP_BLOCK_FREE m) a (pre @ (b, n, True) # post) e" by simp
qed

text \<open>The block after \<open>b\<close> is free exactly when the abstract heap merges it.\<close>

lemma next_free:
  assumes "heap_list m a (pre @ (b, n, f) # post) e"
  shows "blk_free m n \<longleftrightarrow> (\<exists>n' post'. post = (n, n', True) # post')"
proof -
  have "hseg m n post e" "EOM_at m e" using assms by (auto simp: heap_list_def hseg_append)
  then show ?thesis by (cases post) (auto simp: EOM_at_def)
qed

lemma free_and_merge_next:
  assumes "heap_list m a (pre @ (b, n, f) # post) e"
  defines "m1 \<equiv> set_free b HEAP_BLOCK_FREE m"
  defines "m2 \<equiv> (if blk_free m1 (blk_next m1 b) then heap_block_merge_down b m1 else m1)"
  shows "heap_list m2 a (pre @ merge_next b n post) e" and "same_outside (unat b) (unat b + 8) m m2"
proof -
  note f = mark_free_spec [OF assms(1), folded m1_def]
  have nx: "blk_next m1 b = n" using f(1) by (auto simp: heap_list_def hseg_append)
  show "heap_list m2 a (pre @ merge_next b n post) e"
  proof (cases "blk_free m1 n")
    case True
    with next_free [OF f(1)] obtain n' post' where p: "post = (n, n', True) # post'" by blast
    with merge_down_spec(1) [of m1 a pre b n True n' True post' e] f(1) True nx show ?thesis
      by (simp add: m2_def merge_next_def)
  next
    case False
    with next_free [OF f(1)] have "merge_next b n post = (b, n, True) # post"
      using f(1) by (auto simp: merge_next_def heap_list_def hseg_append split: list.splits bool.splits)
    with f(1) False nx show ?thesis by (simp add: m2_def)
  qed
  have "same_outside (unat b) (unat b + 8) m1 (heap_block_merge_down b m1)" if "blk_free m1 n"
    using next_free [OF f(1)] that merge_down_spec(2) [of m1 a pre b n True _ True _ e] f(1) by auto
  with f(2) nx show "same_outside (unat b) (unat b + 8) m m2"
    by (auto simp: m2_def intro: same_outside_trans)
qed


definition headers_only :: "blk list \<Rightarrow> memory \<Rightarrow> memory \<Rightarrow> bool" where
  "headers_only bs m m' \<longleftrightarrow> (\<forall>x. m' x \<noteq> m x \<longrightarrow> (\<exists>(b, _, _) \<in> set bs. unat b \<le> unat x \<and> unat x < unat b + 8))"

lemma headers_only_header: "same_outside (unat b) (unat b + 8) m m' \<Longrightarrow> (b, n, f) \<in> set bs \<Longrightarrow> headers_only bs m m'"
  unfolding headers_only_def same_outside_def by blast

lemma headers_only_trans: "headers_only bs m m' \<Longrightarrow> headers_only bs m' m'' \<Longrightarrow> headers_only bs m m''"
  unfolding headers_only_def
proof (intro allI impI)
  fix x
  assume a: "\<forall>x. m' x \<noteq> m x \<longrightarrow> (\<exists>(b, _, _) \<in> set bs. unat b \<le> unat x \<and> unat x < unat b + 8)"
    "\<forall>x. m'' x \<noteq> m' x \<longrightarrow> (\<exists>(b, _, _) \<in> set bs. unat b \<le> unat x \<and> unat x < unat b + 8)" and "m'' x \<noteq> m x"
  then have "m' x \<noteq> m x \<or> m'' x \<noteq> m' x" by auto
  with a show "\<exists>(b, _, _) \<in> set bs. unat b \<le> unat x \<and> unat x < unat b + 8" by blast
qed

lemma hseg_start: "hseg m a (pre @ (b, n, f) # post) e \<Longrightarrow> a = b \<longleftrightarrow> pre = []"
proof (cases pre)
  case (Cons blk pre')
  assume h: "hseg m a (pre @ (b, n, f) # post) e"
  obtain x y g where blk: "blk = (x, y, g)" by (cases blk)
  with h Cons have "a = x" "unat x + 8 \<le> unat y" "hseg m y (pre' @ (b, n, f) # post) e" by auto
  moreover from this have "unat y \<le> unat b" using hseg_blk [of m y "pre' @ (b, n, f) # post" e b n f] by simp
  ultimately show ?thesis using Cons by auto
qed simp

lemma merge_next_Cons: "\<exists>n' post'. merge_next b n post = (b, n', True) # post'"
  by (auto simp: merge_next_def split: list.splits bool.splits)

lemma kfree_spec:
  assumes "heap_ok s (pre @ (b, n, f) # post) e" and "lock_ok 0 s"
  shows "\<exists>s'. kfree (b + 8) s = retK () s' \<and> kept s s' \<and> heap_ok s' (abs_free pre b n post) e
    \<and> headers_only (pre @ (b, n, f) # post) (mem s) (mem s')"
proof -
  let ?a = "heap_start s"
  define m1 where "m1 = set_free b HEAP_BLOCK_FREE (mem s)"
  define m2 where "m2 = (if blk_free m1 (blk_next m1 b) then heap_block_merge_down b m1 else m1)"
  have hl: "heap_list (mem s) ?a (pre @ (b, n, f) # post) e" using assms(1) by (simp add: heap_ok_def)
  note m2 = free_and_merge_next [OF hl, folded m1_def, folded m2_def]
  have h2: "headers_only (pre @ (b, n, f) # post) (mem s) m2" by (rule headers_only_header [OF m2(2), of n f]) simp
  have start: "?a = b \<longleftrightarrow> pre = []"
    using hl hseg_start [of "mem s" ?a pre b n f post e] by (simp add: heap_list_def)
  have fin: "\<exists>s'. unlock_scheduler ((lock_scheduler s)\<lparr>mem := m\<rparr>) = retK () s' \<and> kept s s' \<and> heap_ok s' bs e \<and> mem s' = m"
    if "heap_list m ?a bs e" for m bs
  proof -
    let ?t = "(lock_scheduler s)\<lparr>mem := m\<rparr>"
    have "unlock_scheduler ?t = retK () (unlocked s ?t)" using unlock_locked [OF assms(2)] by simp
    moreover have "kept s (unlocked s ?t)" by (simp add: kept_def unlocked_def lock_scheduler_def)
    moreover have "heap_ok (unlocked s ?t) bs e" using assms(1) that by (simp add: heap_ok_def del: unlocked_lock)
    ultimately show ?thesis by (auto simp del: unlocked_lock)
  qed
  have eq: "kfree (b + 8) s = (if b = ?a then unlock_scheduler ((lock_scheduler s)\<lparr>mem := m2\<rparr>)
      else case kfree_parent m2 b ?a of None \<Rightarrow> None
        | Some parent_block \<Rightarrow> unlock_scheduler ((lock_scheduler s)\<lparr>mem :=
            if blk_free m2 parent_block then heap_block_merge_down parent_block m2 else m2\<rparr>))"
    by (auto simp: kfree_def Let_def m1_def m2_def split: option.splits)
  show ?thesis
  proof (cases "pre = []")
    case True
    with fin [OF m2(1)] start h2 show ?thesis by (auto simp: eq abs_free_def)
  next
    case False
    obtain pre' p b' g where pre: "pre = pre' @ [(p, b', g)]" by (metis False prod_cases3 rev_exhaust)
    obtain n' post' where mn: "merge_next b n post = (b, n', True) # post'" using merge_next_Cons by blast
    have "hseg m2 ?a (pre' @ [(p, b', g)] @ (b, n', True) # post') e" using m2(1) mn by (simp add: pre heap_list_def)
    then have b': "b' = b" and seg: "hseg m2 ?a (pre' @ [(p, b, g)]) b" and free: "blk_free m2 p = g"
      by (auto simp: hseg_append)
    note par = kfree_parent_spec [OF seg]
    let ?m = "if g then heap_block_merge_down p m2 else m2"
    have hm: "heap_list ?m ?a (abs_free pre b n post) e"
      using m2(1) mn merge_down_spec(1) [of m2 ?a pre' p b g n' True post' e] by (cases g) (simp_all add: abs_free_def pre b')
    have "headers_only (pre @ (b, n, f) # post) m2 ?m"
    proof (cases g)
      case True
      with m2(1) mn merge_down_spec(2) [of m2 ?a pre' p b g n' True post' e] show ?thesis
        by (intro headers_only_header [of p _ _ b g]) (simp_all add: pre b')
    qed (simp add: headers_only_def)
    with fin [OF hm] False start par free headers_only_trans [OF h2] show ?thesis by (auto simp: eq)
  qed
qed

end
