(* ===== verification/Heap_Client.thy ===== *)
theory Heap_Client
  imports Heap
begin

text \<open>
  What the users of the kernel heap rely on: the blocks handed out are disjoint, \<open>kmalloc\<close> and
  \<open>kfree\<close> leave the contents of the other blocks alone, freeing undoes allocating, and free blocks
  are merged. The interface is the locale \<open>allocator\<close>.
\<close>

section \<open>Blocks handed out\<close>

definition live :: "blk list \<Rightarrow> (u32 \<times> u32) set" where
  "live bs = {(b, d). (b, d, False) \<in> set bs}"

definition aligned_blks :: "blk list \<Rightarrow> bool" where
  "aligned_blks bs \<longleftrightarrow> (\<forall>(b, _, _) \<in> set bs. 8 dvd unat b)"

lemma live_simps [simp]:
  "live [] = {}" "live ((b, d, f) # bs) = (if f then live bs else insert (b, d) (live bs))" "live (xs @ ys) = live xs \<union> live ys"
  by (auto simp: live_def)

lemma hseg_tail_above: "hseg m a (x # bs) c \<Longrightarrow> (b, d, f) \<in> set bs \<Longrightarrow> unat (fst (snd x)) \<le> unat b"
  using hseg_blk by (cases x) fastforce

lemma hseg_disjoint:
  assumes "hseg m a bs c" and "(b, d, f) \<in> set bs" and "(b', d', f') \<in> set bs"
  shows "b = b' \<and> d = d' \<and> f = f' \<or> unat d \<le> unat b' \<or> unat d' \<le> unat b"
  using assms
proof (induction bs arbitrary: a)
  case (Cons x bs)
  then obtain n where n: "hseg m n bs c" by (cases x) auto
  show ?case using Cons.prems Cons.IH [OF n] hseg_tail_above [OF Cons.prems(1)] by auto
qed simp

lemma hseg_distinct: "hseg m a bs c \<Longrightarrow> distinct bs"
proof (induction bs arbitrary: a)
  case (Cons x bs)
  obtain b d f where x: "x = (b, d, f)" by (cases x)
  with Cons.prems have "unat b + 8 \<le> unat d" "hseg m d bs c" by auto
  with Cons.IH hseg_tail_above [OF Cons.prems, of b d f] x show ?case by auto
qed simp

lemma live_disjoint:
  assumes "heap_ok s bs e" and "(b, d) \<in> live bs" and "(b', d') \<in> live bs"
  shows "b = b' \<and> d = d' \<or> unat d \<le> unat b' \<or> unat d' \<le> unat b"
  using assms hseg_disjoint [of "mem s" "heap_start s" bs e b d False b' d' False] by (auto simp: live_def heap_ok_def heap_list_def)

lemma live_bounds:
  assumes "heap_ok s bs e" and "(b, d) \<in> live bs"
  shows "unat (heap_start s) \<le> unat b" "unat b + 8 \<le> unat d" "unat d \<le> unat e" "unat d + 8 < 4294967296"
proof -
  have "hseg (mem s) (heap_start s) bs e" "(b, d, False) \<in> set bs" using assms by (auto simp: heap_ok_def heap_list_def live_def)
  from hseg_blk [OF this] show *: "unat (heap_start s) \<le> unat b" "unat b + 8 \<le> unat d" "unat d \<le> unat e" by auto
  have "unat e + 8 = unat (program_break_point s)" using assms(1) by (simp add: heap_ok_def)
  then show "unat d + 8 < 4294967296" using * unat_lt32 [of "program_break_point s"] by linarith
qed

lemma live_split [simp]:
  "live (split_blk k (b, n, False)) = {(b, if round8 k + 24 \<le> unat n - unat b - 8 then b + 8 + of_nat k else n)}"
  by (simp add: split_blk_def)

text \<open>What a successful allocation of \<open>n\<close> bytes at \<open>p\<close> promises.\<close>

definition allocated :: "blk list \<Rightarrow> blk list \<Rightarrow> u32 \<Rightarrow> nat \<Rightarrow> memory \<Rightarrow> memory \<Rightarrow> bool" where
  "allocated bs bs' p n m m' \<longleftrightarrow> (\<exists>d. (p - 8, d) \<notin> live bs \<and> live bs' = insert (p - 8, d) (live bs)
     \<and> 8 \<le> p \<and> unat p + n \<le> unat d)
     \<and> (\<forall>(b, d) \<in> live bs. same_bytes (unat b + 8) (unat d) m m')"

lemma abs_alloc_live:
  assumes "hseg m a bs c" and "abs_alloc (round8 k) bs = Some (q, bs')"
  shows "\<exists>d. (q, d) \<notin> live bs \<and> live bs' = insert (q, d) (live bs) \<and> unat q + 8 + k \<le> unat d"
proof -
  from abs_alloc_Some [OF assms(2)] obtain pre n post where
    bs: "bs = pre @ (q, n, True) # post" "bs' = pre @ split_blk (round8 k) (q, n, False) @ post"
    and k: "round8 k \<le> unat n - unat q - 8" by blast
  let ?d = "if round8 (round8 k) + 24 \<le> unat n - unat q - 8 then q + 8 + of_nat (round8 k) else n"
  have q: "unat q + 8 \<le> unat n" using assms(1) hseg_blk [of m a bs c q n True] by (simp add: bs)
  have lt: "unat q + 8 + round8 k < 2 ^ 32" using k q unat_lt32 [of n] by (simp del: unat_lt32)
  then have "unat (q + 8 + of_nat (round8 k)) = unat q + 8 + round8 k" by (simp add: unat_add32 unat_of_nat)
  with k q round8_bounds(1) [of k] have "unat q + 8 + k \<le> unat ?d" by auto
  moreover have "(q, x) \<notin> live bs" for x
    using hseg_disjoint [OF assms(1), of q n True q x False] hseg_blk [OF assms(1), of q x False] q by (auto simp: live_def bs)
  moreover have "live bs' = insert (q, ?d) (live bs)" by (auto simp: bs)
  ultimately show ?thesis by blast
qed

lemma same_bytes_live:
  assumes "same_outside a c m m'" and "unat d \<le> a \<or> c \<le> unat b + 8"
  shows "same_bytes (unat b + 8) (unat d) m m'"
  using assms by (intro same_bytes_outside) auto

lemma kmalloc_safe:
  assumes "heap_ok s bs e" and "lock_ok 0 s" and "unat n \<le> 0x7FFFFF00"
    and "unat (program_break_point s) + round8 (unat n) + 8 + 4095 \<le> 0xFFC00000"
  shows "\<exists>p s' bs' e'. kmalloc n s = retK p s' \<and> kept s s' \<and> heap_ok s' bs' e' \<and> unat e' \<le> unat e + 8 + round8 (unat n)
    \<and> (p = NULL \<and> bs' = bs \<and> mem s' = mem s \<or> p \<noteq> NULL \<and> allocated bs bs' p (unat n) (mem s) (mem s'))"
proof -
  have seg: "hseg (mem s) (heap_start s) bs e" and e8: "unat e + 8 \<le> unat (program_break_point s)" using assms(1) by (simp_all add: heap_ok_def heap_list_def)
  from kmalloc_spec [OF assms] obtain p s' where s': "kmalloc n s = retK p s'" "kept s s'" and
    res: "case abs_alloc (round8 (unat n)) bs of
         Some (q, bs') \<Rightarrow> p = q + 8 \<and> heap_ok s' bs' e
           \<and> (\<exists>d. (q, d, True) \<in> set bs \<and> same_outside (unat q) (unat d) (mem s) (mem s'))
       | None \<Rightarrow> p = NULL \<and> heap_ok s' bs e \<and> mem s' = mem s
           \<or> (\<exists>e'. p = e + 8 \<and> heap_ok s' (bs @ [(e, e', False)]) e' \<and> unat e' = unat e + 8 + round8 (unat n)
                \<and> same_outside (unat e) (unat e' + 8) (mem s) (mem s'))" by blast
  have p8: "q + 8 \<noteq> 0 \<and> unat (q + 8) = unat q + 8 \<and> 8 \<le> q + 8" if "unat q + 8 \<le> unat d" for q d :: u32
  proof -
    have "unat (q + 8) = unat q + 8" using that unat_lt32 [of d] by (simp add: unat_add32 del: unat_lt32)
    then show ?thesis by (auto simp: word_nat)
  qed
  show ?thesis
  proof (cases "abs_alloc (round8 (unat n)) bs")
    case (Some a)
    obtain q bs' where a: "a = (q, bs')" by (cases a)
    with Some res obtain d where r: "p = q + 8" "heap_ok s' bs' e" "(q, d, True) \<in> set bs" "same_outside (unat q) (unat d) (mem s) (mem s')" by auto
    from abs_alloc_live [OF seg Some [unfolded a]] obtain d' where
      d': "(q, d') \<notin> live bs" "live bs' = insert (q, d') (live bs)" "unat q + 8 + unat n \<le> unat d'" by blast
    have q: "unat q + 8 \<le> unat d" using hseg_blk [OF seg r(3)] by simp
    have "same_bytes (unat b + 8) (unat c) (mem s) (mem s')" if "(b, c) \<in> live bs" for b c
      using that hseg_disjoint [OF seg r(3), of b c False] hseg_blk [OF seg, of b c False]
      by (intro same_bytes_live [OF r(4)]) (auto simp: live_def)
    then have "allocated bs bs' p (unat n) (mem s) (mem s')"
      using d' p8 [OF q] r(1) by (auto simp: allocated_def)
    moreover have "unat e \<le> unat e + 8 + round8 (unat n)" by simp
    ultimately show ?thesis using s' r(1,2) p8 [OF q] by blast
  next
    case None
    show ?thesis
    proof (cases "p = NULL \<and> heap_ok s' bs e \<and> mem s' = mem s")
      case True
      moreover have "unat e \<le> unat e + 8 + round8 (unat n)" by simp
      ultimately show ?thesis using s' by blast
    next
      case False
      with None res obtain e' where e': "p = e + 8" "heap_ok s' (bs @ [(e, e', False)]) e'"
        "unat e' = unat e + 8 + round8 (unat n)" "same_outside (unat e) (unat e' + 8) (mem s) (mem s')" by auto
      have below: "unat c \<le> unat e \<and> b \<noteq> e" if "(b, c) \<in> live bs" for b c
        using live_bounds [OF assms(1) that] by auto
      have "allocated bs (bs @ [(e, e', False)]) p (unat n) (mem s) (mem s')"
        using e'(1,3) below p8 [OF e8] round8_bounds(1) [of "unat n"] same_bytes_live [OF e'(4)]
        by (auto simp: allocated_def intro!: exI [of _ e'])
      moreover have "unat e' \<le> unat e + 8 + round8 (unat n)" using e'(3) by simp
      ultimately show ?thesis using s' e'(1,2) p8 [OF e8] by blast
    qed
  qed
qed

text \<open>Releasing a block.\<close>

lemma live_merge_next: "live (merge_next b n post) = live post"
  by (auto simp: merge_next_def live_def split: list.splits bool.splits)

lemma live_abs_free: "live (abs_free pre b n post) = live pre \<union> live post"
proof -
  obtain n' post' where mn: "merge_next b n post = (b, n', True) # post'" using merge_next_Cons by blast
  then have post: "live post' = live post" using live_merge_next [of b n post] by simp
  have "live pre = live (butlast pre)" if ne: "pre \<noteq> []" and fr: "snd (snd (last pre))"
  proof -
    obtain x y where "last pre = (x, y, True)" using fr by (cases "last pre") auto
    then show ?thesis using append_butlast_last_id [OF ne] live_simps(3) [of "butlast pre" "[last pre]"] by simp
  qed
  with post show ?thesis by (auto simp: abs_free_def mn)
qed

lemma live_member: "(b, d) \<in> live bs \<Longrightarrow> \<exists>pre post. bs = pre @ (b, d, False) # post"
  by (auto simp: live_def dest: split_list)

lemma kfree_safe:
  assumes "heap_ok s bs e" and "lock_ok 0 s" and "(b, d) \<in> live bs"
  shows "\<exists>s' bs'. kfree (b + 8) s = retK () s' \<and> kept s s' \<and> heap_ok s' bs' e
    \<and> live bs' = live bs - {(b, d)} \<and> (\<forall>(b', d') \<in> live bs'. same_bytes (unat b' + 8) (unat d') (mem s) (mem s'))"
proof -
  from live_member [OF assms(3)] obtain pre post where bs: "bs = pre @ (b, d, False) # post" by blast
  have seg: "hseg (mem s) (heap_start s) bs e" using assms(1) by (simp add: heap_ok_def heap_list_def)
  from kfree_spec [OF assms(1) [unfolded bs] assms(2)] obtain s' where s': "kfree (b + 8) s = retK () s'" "kept s s'"
    "heap_ok s' (abs_free pre b d post) e" "headers_only bs (mem s) (mem s')" unfolding bs by blast
  have d: "distinct bs"
    using seg by (rule hseg_distinct)
  have lv: "live (abs_free pre b d post) = live bs - {(b, d)}"
    using d by (auto simp: live_abs_free bs) (auto simp: live_def)
  moreover have "same_bytes (unat b' + 8) (unat d') (mem s) (mem s')" if "(b', d') \<in> live bs" for b' d'
    unfolding same_bytes_def
  proof (intro allI impI, rule ccontr)
    fix x :: u32
    assume x: "unat b' + 8 \<le> unat x \<and> unat x < unat d'" and "mem s' x \<noteq> mem s x"
    with s'(4) obtain c c' f where c: "(c, c', f) \<in> set bs" "unat c \<le> unat x" "unat x < unat c + 8" unfolding headers_only_def by blast
    moreover have "(b', d', False) \<in> set bs" using that by (simp add: live_def)
    ultimately show False using hseg_disjoint [OF seg, of c c' f b' d' False] hseg_blk [OF seg, of c c' f] x by auto
  qed
  ultimately show ?thesis using s' by blast
qed

section \<open>Coalescing and alignment\<close>

fun no_adjacent :: "bool list \<Rightarrow> bool" where
  "no_adjacent (x # y # fs) \<longleftrightarrow> \<not> (x \<and> y) \<and> no_adjacent (y # fs)"
| "no_adjacent _ \<longleftrightarrow> True"

abbreviation frees :: "blk list \<Rightarrow> bool list" where
  "frees bs \<equiv> map (\<lambda>x. snd (snd x)) bs"

lemma no_adjacent_append:
  "no_adjacent (xs @ ys) \<longleftrightarrow> no_adjacent xs \<and> no_adjacent ys \<and> \<not> (xs \<noteq> [] \<and> ys \<noteq> [] \<and> last xs \<and> hd ys)"
proof (induction xs)
  case (Cons x xs)
  then show ?case by (cases xs; cases ys) auto
qed simp

lemma no_adjacent_Cons: "no_adjacent (x # ys) \<longleftrightarrow> no_adjacent ys \<and> \<not> (x \<and> ys \<noteq> [] \<and> hd ys)"
  by (cases ys) auto

lemma abs_alloc_coalesced:
  assumes "abs_alloc k bs = Some (p, bs')" and "no_adjacent (frees bs)"
  shows "no_adjacent (frees bs')"
proof -
  from abs_alloc_Some [OF assms(1)] obtain pre n post where
    "bs = pre @ (p, n, True) # post" "bs' = pre @ split_blk k (p, n, False) @ post" by blast
  with assms(2) show ?thesis by (auto simp: split_blk_def no_adjacent_append no_adjacent_Cons)
qed

lemma frees_merge_next:
  assumes "no_adjacent (frees post)"
  shows "\<exists>n' post'. merge_next b n post = (b, n', True) # post' \<and> no_adjacent (frees post') \<and> (post' = [] \<or> \<not> snd (snd (hd post')))"
  using assms by (cases post) (auto simp: merge_next_def no_adjacent_Cons hd_map split: bool.splits)

lemma abs_free_coalesced:
  assumes "no_adjacent (frees (pre @ (b, n, f) # post))"
  shows "no_adjacent (frees (abs_free pre b n post))"
proof -
  have "no_adjacent (frees post)" using assms by (simp add: no_adjacent_append no_adjacent_Cons)
  from frees_merge_next [OF this] obtain n' post' where mn: "merge_next b n post = (b, n', True) # post'"
    "no_adjacent (frees post')" "post' = [] \<or> \<not> snd (snd (hd post'))" by blast
  have "frees pre = frees (butlast pre) @ [snd (snd (last pre))]" if "pre \<noteq> []"
    using that by (cases pre rule: rev_cases) auto
  with assms mn show ?thesis
    by (cases post') (auto simp: abs_free_def no_adjacent_append no_adjacent_Cons last_map hd_map )
qed

text \<open>Freeing what first fit has just handed out restores the block list.\<close>

lemma abs_alloc_free:
  assumes "abs_alloc k bs = Some (p, bs')" and "no_adjacent (frees bs)" and "hseg m a bs' e"
  shows "\<exists>pre d post. bs' = pre @ (p, d, False) # post \<and> abs_free pre p d post = bs"
proof -
  from abs_alloc_Some [OF assms(1)] obtain pre n post where
    bs: "bs = pre @ (p, n, True) # post" "bs' = pre @ split_blk k (p, n, False) @ post" by blast
  have pre: "pre = [] \<or> \<not> snd (snd (last pre))" and post: "merge_next p n post = (p, n, True) # post"
    using assms(2) by (auto simp: bs no_adjacent_append no_adjacent_Cons last_map merge_next_def split: list.splits bool.splits)
  obtain d post' where d: "split_blk k (p, n, False) @ post = (p, d, False) # post'" "merge_next p d post' = (p, n, True) # post"
  proof (cases "round8 k + 24 \<le> unat n - unat p - 8")
    case True
    then show ?thesis by (intro that [of "p + 8 + of_nat k" "(p + 8 + of_nat k, n, True) # post"]) (simp_all add: split_blk_def merge_next_def)
  next
    case False
    with post show ?thesis by (intro that [of n post]) (auto simp: split_blk_def)
  qed
  have "abs_free pre p d post' = bs" using pre d(2) by (auto simp: abs_free_def bs)
  with d(1) bs show ?thesis by (intro exI [of _ pre] exI [of _ d] exI [of _ post']) simp
qed

lemma abs_alloc_None: "abs_alloc k bs = None \<longleftrightarrow> (\<forall>x \<in> set bs. \<not> fits k x)"
proof (induction bs)
  case (Cons x bs)
  then show ?case by (cases x) (auto split: option.splits)
qed simp

text \<open>Alignment of the block starts.\<close>

lemma dvd_round8 [simp]: "8 dvd round8 k"
  by (simp add: round8_def)

lemma aligned_blks_simps [simp]:
  "aligned_blks []" "aligned_blks ((b, n, f) # bs) \<longleftrightarrow> 8 dvd unat b \<and> aligned_blks bs"
  "aligned_blks (xs @ ys) \<longleftrightarrow> aligned_blks xs \<and> aligned_blks ys"
  by (auto simp: aligned_blks_def)

lemma unat_split_point:
  assumes "unat p + 8 \<le> unat (n :: u32)" and "k + 24 \<le> unat n - unat p - 8"
  shows "unat (p + 8 + of_nat k :: u32) = unat p + 8 + k"
proof -
  have "unat p + 8 + k < 4294967296" using assms unat_lt32 [of n] by linarith
  then show ?thesis by (simp add: unat_add32 unat_of_nat)
qed

lemma abs_alloc_aligned:
  assumes "abs_alloc k bs = Some (p, bs')" and "aligned_blks bs" and "8 dvd k" and "hseg m a bs c"
  shows "aligned_blks bs' \<and> 8 dvd unat p"
proof -
  from abs_alloc_Some [OF assms(1)] obtain pre n post where
    bs: "bs = pre @ (p, n, True) # post" "bs' = pre @ split_blk k (p, n, False) @ post" by blast
  have p: "unat p + 8 \<le> unat n" using hseg_blk [OF assms(4), of p n True] by (simp add: bs)
  have "8 dvd unat (p + 8 + of_nat k)" if "round8 k + 24 \<le> unat n - unat p - 8"
    using unat_split_point [OF p, of k] that round8_bounds(1) [of k] assms(2,3) by (auto simp: bs)
  with assms(2) show ?thesis by (auto simp: bs split_blk_def)
qed

lemma abs_free_aligned: "aligned_blks (pre @ (b, n, f) # post) \<Longrightarrow> aligned_blks (abs_free pre b n post)"
proof -
  assume a: "aligned_blks (pre @ (b, n, f) # post)"
  obtain n' post' where mn: "merge_next b n post = (b, n', True) # post'" using merge_next_Cons by blast
  have "set post' \<subseteq> set post" using mn by (auto simp: merge_next_def split: list.splits bool.splits)
  with a mn show ?thesis
    by (cases pre rule: rev_cases) (auto simp: abs_free_def aligned_blks_def)
qed

section \<open>Nested operations\<close>

text \<open>\<open>kcalloc\<close> and \<open>krealloc\<close> hold the lock while they call \<open>kmalloc\<close> and \<open>kfree\<close>.\<close>

lemma heap_ok_lock [simp]: "heap_ok (lock_scheduler s) bs e = heap_ok s bs e"
  by (simp add: heap_ok_def)

lemma heap_ok_unlocked [simp]: "heap_ok (unlocked r s) bs e = heap_ok s bs e"
  by (simp add: heap_ok_def)

lemma kept_mem: "kept s t \<Longrightarrow> kept s (t\<lparr>mem := m\<rparr>)"
  by (simp add: kept_def)

lemma kept_trans: "kept s t \<Longrightarrow> kept t u \<Longrightarrow> kept s u"
  by (simp add: kept_def)

lemma nested_unlock:
  assumes "lock_ok (Suc 0) s" and "kept (lock_scheduler s) t"
  shows "unlock_scheduler t = retK () (unlocked s t)" and "kept s (unlocked s t)"
proof -
  have "IRQ_disable_counter s + 1 \<noteq> 0"
    using assms(1) unat_inc32 [of "IRQ_disable_counter s"] by (auto simp: lock_ok_def unat_eq_0 [symmetric])
  with assms(2) have "same_lock (lock_scheduler s) t" by (simp add: kept_def same_lock_def lock_scheduler_def)
  with unlock_locked [OF assms(1)] show "unlock_scheduler t = retK () (unlocked s t)" .
  show "kept s (unlocked s t)" using assms(2) by (simp add: kept_def unlocked_def lock_scheduler_def)
qed

lemma heap_ok_mem:
  assumes "heap_ok s bs e" and "same_outside a c (mem s) m" and "(b, d) \<in> live bs" and "unat b + 8 \<le> a" and "c \<le> unat d"
  shows "heap_ok (s\<lparr>mem := m\<rparr>) bs e"
proof -
  from live_member [OF assms(3)] obtain pre post where bs: "bs = pre @ (b, d, False) # post" by blast
  have hl: "heap_list (mem s) (heap_start s) bs e" using assms(1) by (simp add: heap_ok_def)
  have b: "hseg (mem s) b [(b, d, False)] d" using hl by (auto simp: bs heap_list_def hseg_append)
  have "blk_next m b = blk_next (mem s) b" "blk_EOM m b = blk_EOM (mem s) b" "blk_free m b = blk_free (mem s) b"
    using header_same [OF same_bytes_outside [OF assms(2), of "unat b + 8" "unat b"], of b] assms(4) b below_word [of "unat b" 8 d] by simp_all
  with b have "hseg m b [(b, d, False)] d" by simp
  with heap_list_replace [OF hl [unfolded bs] same_outside_mono [OF assms(2)], of "[(b, d, False)]"] assms(1,4,5)
  show ?thesis by (simp add: heap_ok_def bs)
qed

lemma memset_outside:
  assumes "unat p + unat n < 2 ^ 32"
  shows "same_outside (unat p) (unat p + unat n) m (snd (memset m p v n))"
    and "\<forall>x. unat p \<le> unat x \<and> unat x < unat p + unat n \<longrightarrow> snd (memset m p v n) x = ucast v"
  using assms diff_less_iff [of p n] by (auto simp: same_outside_def memset_def memset_loop_apply)

lemma allocated_mem:
  assumes "allocated bs bs' p n m m'" and "heap_ok s bs' e'" and "same_outside (unat p) (unat p + n) m' m''"
  shows "allocated bs bs' p n m m''"
proof -
  from assms(1) obtain d where d: "(p - 8, d) \<notin> live bs" "live bs' = insert (p - 8, d) (live bs)" "8 \<le> p" "unat p + n \<le> unat d"
    by (auto simp: allocated_def)
  have p: "unat (p - 8) + 8 = unat p" using d(3) by (simp add: unat_sub32 word_nat)
  have "same_bytes (unat b + 8) (unat c) m m''" if "(b, c) \<in> live bs" for b c
  proof -
    have "unat c \<le> unat (p - 8) \<or> unat d \<le> unat b"
      using live_disjoint [OF assms(2), of "p - 8" d b c] d(1,2) that by auto
    then have "same_bytes (unat b + 8) (unat c) m' m''"
      using p d(4) by (intro same_bytes_outside [OF assms(3)]) auto
    with assms(1) that show ?thesis by (auto simp: allocated_def same_bytes_def)
  qed
  with d show ?thesis by (auto simp: allocated_def)
qed

lemma kcalloc_spec:
  assumes "heap_ok s bs e" and "lock_ok (Suc 0) s" and "unat k * unat n \<le> 0x7FFFFF00"
    and "unat (program_break_point s) + round8 (unat k * unat n) + 8 + 4095 \<le> 0xFFC00000"
  shows "\<exists>p s' bs' e'. kcalloc k n s = retK p s' \<and> kept s s' \<and> heap_ok s' bs' e'
    \<and> (p = NULL \<and> bs' = bs \<and> mem s' = mem s
       \<or> p \<noteq> NULL \<and> allocated bs bs' p (unat k * unat n) (mem s) (mem s')
         \<and> (\<forall>x. unat p \<le> unat x \<and> unat x < unat p + unat k * unat n \<longrightarrow> mem s' x = 0))"
proof -
  let ?l = "lock_scheduler s"
  have kn: "unat (k * n) = unat k * unat n" using assms(3) by (simp add: unat_word_ariths)
  from kmalloc_safe [of ?l bs e "k * n"] assms kn lock_ok_lock [OF assms(2)] obtain p t bs' e' where
    t: "kmalloc (k * n) ?l = retK p t" "kept ?l t" "heap_ok t bs' e'" and
    res: "p = NULL \<and> bs' = bs \<and> mem t = mem s \<or> p \<noteq> NULL \<and> allocated bs bs' p (unat k * unat n) (mem s) (mem t)"
    by auto
  show ?thesis
  proof (cases "p = NULL")
    case True
    note u = nested_unlock [OF assms(2) t(2)]
    have "kcalloc k n s = retK NULL (unlocked s t)" using t(1) True u(1) by (simp add: kcalloc_def Let_def)
    with u(2) t(3) res True show ?thesis by auto
  next
    case False
    with res have al: "allocated bs bs' p (unat k * unat n) (mem s) (mem t)" by simp
    then obtain d where d: "(p - 8, d) \<in> live bs'" "8 \<le> p" "unat p + unat k * unat n \<le> unat d" by (auto simp: allocated_def)
    then have "unat p + unat (k * n) < 2 ^ 32" using kn unat_lt32 [of d] by (simp del: unat_lt32)
    note ms = memset_outside [OF this, of "mem t" 0, unfolded kn]
    let ?t = "t\<lparr>mem := snd (memset (mem t) p 0 (k * n))\<rparr>"
    have ok: "heap_ok ?t bs' e'"
      using d by (intro heap_ok_mem [OF t(3) ms(1) d(1)]) (simp_all add: unat_sub32 word_nat)
    note u = nested_unlock [OF assms(2) kept_mem [OF t(2), of "snd (memset (mem t) p 0 (k * n))"]]
    have "kcalloc k n s = retK p (unlocked s ?t)" using t(1) False u(1) by (simp add: kcalloc_def Let_def)
    with u(2) ok False allocated_mem [OF al t(3) ms(1)] ms(2) show ?thesis
      by (intro exI [of _ p] exI [of _ "unlocked s ?t"] exI [of _ bs'] exI [of _ e']) simp
  qed
qed

lemma available_space:
  assumes "heap_ok s bs e" and "(b, d) \<in> live bs"
  shows "unat (internal_heap_block_get_available_space b (mem s)) = unat d - unat b - 8"
proof -
  from live_member [OF assms(2)] obtain pre post where "bs = pre @ (b, d, False) # post" by blast
  with assms(1) have "\<not> blk_EOM (mem s) b" "blk_next (mem s) b = d" "unat b + 8 \<le> unat d"
    by (auto simp: heap_ok_def heap_list_def hseg_append)
  then show ?thesis by (simp add: internal_heap_block_get_available_space_def unat_sub32 word_nat)
qed

text \<open>The four ways through \<open>krealloc\<close>.\<close>

lemma krealloc_in_place:
  assumes "heap_ok s (pre @ (b, d, False) # post) e" and "lock_ok (Suc 0) s" and "0 < unat n" and "unat n \<le> unat d - unat b - 8"
    and "unat n \<le> 0x7FFFFF00"
  shows "\<exists>s'. krealloc (b + 8) n s = retK (b + 8) s' \<and> kept s s' \<and> heap_ok s' (pre @ split_blk (unat n) (b, d, False) @ post) e
    \<and> same_outside (unat b) (unat d) (mem s) (mem s')"
proof -
  let ?l = "lock_scheduler s" and ?bs = "pre @ (b, d, False) # post"
  have lv: "(b, d) \<in> live ?bs" by simp
  have hl: "heap_list (mem s) (heap_start s) ?bs e" using assms(1) by (simp add: heap_ok_def)
  then have one: "hseg (mem s) b [(b, d, False)] d" and bd: "unat b + 8 \<le> unat d" by (auto simp: heap_list_def hseg_append)
  let ?m = "heap_block_split b n (mem s)"
  have sp: "hseg ?m b (split_blk (unat n) (b, d, False)) d" "same_outside (unat b) (unat d) (mem s) ?m"
    using heap_block_split_spec [OF one, of n] assms(5) by simp_all
  have p8: "b + 8 \<noteq> 0" using bd unat_lt32 [of d] unat_add32 [of b 8] by (auto simp: word_nat simp del: unat_lt32)
  have le: "n \<le> internal_heap_block_get_available_space b (mem ?l)"
    using available_space [OF assms(1) lv] assms(4) by (simp add: word_nat)
  have u: "unlock_scheduler (?l\<lparr>mem := ?m\<rparr>) = retK () (unlocked s (?l\<lparr>mem := ?m\<rparr>))"
    using unlock_locked [OF assms(2)] by simp
  have "krealloc (b + 8) n s = retK (b + 8) (unlocked s (?l\<lparr>mem := ?m\<rparr>))"
    using p8 le assms(3) u by (simp add: krealloc_def Let_def unat_gt_0 del: unlocked_lock)
  moreover have "kept s (unlocked s (?l\<lparr>mem := ?m\<rparr>))" by (simp add: kept_def unlocked_def lock_scheduler_def)
  moreover have "heap_ok (unlocked s (?l\<lparr>mem := ?m\<rparr>)) (pre @ split_blk (unat n) (b, d, False) @ post) e"
    using heap_list_replace [OF hl sp(2,1)] assms(1) by (simp add: heap_ok_def del: unlocked_lock)
  ultimately show ?thesis using sp(2) by (intro exI [of _ "unlocked s (?l\<lparr>mem := ?m\<rparr>)"]) (simp del: unlocked_lock)
qed

text \<open>Moving the contents of a block to a new one and freeing it.\<close>

lemma move_block:
  assumes "heap_ok t bs1 e1" and "lock_ok 0 t" and "allocated bs bs1 p n m0 (mem t)" and "(b, d) \<in> live bs"
    and "unat k = unat d - unat b - 8" and "unat k < n"
  shows "\<exists>u bs2 d1. kfree (b + 8) (t\<lparr>mem := snd (memmove (mem t) p (b + 8) k)\<rparr>) = retK () u \<and> kept t u \<and> heap_ok u bs2 e1
    \<and> (p - 8, d1) \<notin> live bs \<and> live bs2 = insert (p - 8, d1) (live bs - {(b, d)}) \<and> 8 \<le> p \<and> unat p + n \<le> unat d1
    \<and> (\<forall>i. unat i < unat k \<longrightarrow> mem u (p + i) = m0 (b + 8 + i))
    \<and> (\<forall>(b', d') \<in> live bs - {(b, d)}. same_bytes (unat b' + 8) (unat d') m0 (mem u))"
proof -
  from assms(3) obtain d1 where d1: "(p - 8, d1) \<notin> live bs" "live bs1 = insert (p - 8, d1) (live bs)" "8 \<le> p" "unat p + n \<le> unat d1"
    by (auto simp: allocated_def)
  have live: "(b, d) \<in> live bs1" using assms(4) d1(2) by simp
  note bd = live_bounds [OF assms(1) live]
  have b8: "unat (b + 8) = unat b + 8" using bd(2,4) by (simp add: unat_add32)
  have p8: "unat (p - 8) + 8 = unat p" using d1(3) by (simp add: unat_sub32 word_nat)
  have pk: "unat p + unat k < 4294967296" using d1(4) assms(6) unat_lt32 [of d1] by linarith
  define m where "m = snd (memmove (mem t) p (b + 8) k)"
  have "in_range_ok p (b + 8) k" using pk b8 assms(5) bd by (simp add: in_range_ok_def)
  then have mv: "m x = (if x - p < k then mem t (b + 8 + (x - p)) else mem t x)" for x
    unfolding m_def by (rule memmove_any.copy_apply)
  have out: "same_outside (unat p) (unat p + unat k) (mem t) m"
    using mv diff_less_iff [of p k] pk by (auto simp: same_outside_def)
  have ok: "heap_ok (t\<lparr>mem := m\<rparr>) bs1 e1"
    using d1 p8 assms(6) by (intro heap_ok_mem [OF assms(1) out, of "p - 8" d1]) simp_all
  have "lock_ok 0 (t\<lparr>mem := m\<rparr>)" using assms(2) by (simp add: lock_ok_def)
  from kfree_safe [OF ok this live] obtain u bs2 where
    u: "kfree (b + 8) (t\<lparr>mem := m\<rparr>) = retK () u" "kept (t\<lparr>mem := m\<rparr>) u" "heap_ok u bs2 e1" "live bs2 = live bs1 - {(b, d)}"
      "\<forall>(b', d') \<in> live bs2. same_bytes (unat b' + 8) (unat d') m (mem u)" by auto
  have l2: "live bs2 = insert (p - 8, d1) (live bs - {(b, d)})" using u(4) d1(1,2) assms(4) by auto
  have "mem u (p + i) = m0 (b + 8 + i)" if i: "unat i < unat k" for i
  proof -
    have pi: "unat (p + i) = unat p + unat i" using pk i by (simp add: unat_add32)
    have "same_bytes (unat (p - 8) + 8) (unat d1) m (mem u)" using u(5) l2 by blast
    then have "mem u (p + i) = m (p + i)" using pi p8 i d1(4) assms(6) by (simp add: same_bytes_def)
    also have "\<dots> = mem t (b + 8 + i)" using mv i by (simp add: word_nat)
    finally show ?thesis
      using b8 i bd assms(3-5) by (auto simp: allocated_def same_bytes_def unat_add32)
  qed
  moreover have "allocated bs bs1 p n m0 m"
    using assms(6) by (intro allocated_mem [OF assms(3,1)] same_outside_mono [OF out]) simp_all
  then have "same_bytes (unat b' + 8) (unat d') m0 (mem u)" if "(b', d') \<in> live bs - {(b, d)}" for b' d'
  proof -
    from that \<open>allocated bs bs1 p n m0 m\<close> have "same_bytes (unat b' + 8) (unat d') m0 m" by (auto simp: allocated_def)
    moreover have "same_bytes (unat b' + 8) (unat d') m (mem u)" using u(5) l2 that by auto
    ultimately show ?thesis by (simp add: same_bytes_def)
  qed
  moreover have "kept t u" using u(2) by (simp add: kept_def)
  ultimately show ?thesis using u(1,3) l2 d1 by (intro exI [of _ u] exI [of _ bs2] exI [of _ d1]) (auto simp: m_def)
qed

lemma krealloc_move:
  assumes "heap_ok s bs e" and "lock_ok (Suc 0) s" and "(b, d) \<in> live bs" and "unat d - unat b - 8 < unat n" and "unat n \<le> 0x7FFFFF00"
    and "unat (program_break_point s) + round8 (unat n) + 8 + 4095 \<le> 0xFFC00000"
  shows "\<exists>p s' bs' e'. krealloc (b + 8) n s = retK p s' \<and> kept s s' \<and> heap_ok s' bs' e'
    \<and> (p = NULL \<and> bs' = bs \<and> mem s' = mem s
       \<or> p \<noteq> NULL \<and> (\<exists>d'. (p - 8, d') \<notin> live bs \<and> live bs' = insert (p - 8, d') (live bs - {(b, d)}) \<and> 8 \<le> p \<and> unat p + unat n \<le> unat d')
         \<and> (\<forall>i. unat i < unat d - unat b - 8 \<longrightarrow> mem s' (p + i) = mem s (b + 8 + i))
         \<and> (\<forall>(b', d') \<in> live bs - {(b, d)}. same_bytes (unat b' + 8) (unat d') (mem s) (mem s')))"
proof -
  let ?l = "lock_scheduler s" and ?av = "internal_heap_block_get_available_space b (mem s)"
  note av = available_space [OF assms(1,3)] and bd = live_bounds [OF assms(1,3)]
  have ne: "b + 8 \<noteq> 0" using bd(2,4) by (auto simp: word_unat_eq_iff unat_add32)
  have lt: "\<not> n \<le> ?av" "n \<noteq> 0" "unat ?av < unat n" using av assms(4) by (auto simp: word_nat)
  have eq: "krealloc (b + 8) n s = bindK (kmalloc n ?l) (\<lambda>new_block s.
      if new_block = NULL then bindK (unlock_scheduler s) (\<lambda>_ s. retK NULL s)
      else bindK (kfree (b + 8) (s\<lparr>mem := snd (memmove (mem s) new_block (b + 8) ?av)\<rparr>)) (\<lambda>_ s. bindK (unlock_scheduler s) (\<lambda>_ s. retK new_block s)))"
    unfolding krealloc_def Let_def using ne lt by (simp cong: if_cong)
  from kmalloc_safe [of ?l bs e n] assms lock_ok_lock [OF assms(2)] obtain p t bs1 e1 where
    t: "kmalloc n ?l = retK p t" "kept ?l t" "heap_ok t bs1 e1" and
    res: "p = NULL \<and> bs1 = bs \<and> mem t = mem s \<or> p \<noteq> NULL \<and> allocated bs bs1 p (unat n) (mem s) (mem t)"
    by auto
  show ?thesis
  proof (cases "p = NULL")
    case True
    note u = nested_unlock [OF assms(2) t(2)]
    have "krealloc (b + 8) n s = retK NULL (unlocked s t)" using t(1) True u(1) by (simp add: eq)
    with u(2) t(3) res True show ?thesis by auto
  next
    case False
    with res have al: "allocated bs bs1 p (unat n) (mem s) (mem t)" by simp
    from move_block [OF t(3) kept_lock_ok [OF t(2) lock_ok_lock [OF assms(2)]] al assms(3) av lt(3)] obtain u bs2 d1 where
      u: "kfree (b + 8) (t\<lparr>mem := snd (memmove (mem t) p (b + 8) ?av)\<rparr>) = retK () u" "kept t u" "heap_ok u bs2 e1"
        "(p - 8, d1) \<notin> live bs" "live bs2 = insert (p - 8, d1) (live bs - {(b, d)})" "8 \<le> p" "unat p + unat n \<le> unat d1"
        "\<forall>i. unat i < unat d - unat b - 8 \<longrightarrow> mem u (p + i) = mem s (b + 8 + i)"
        "\<forall>(b', d') \<in> live bs - {(b, d)}. same_bytes (unat b' + 8) (unat d') (mem s) (mem u)" unfolding av by blast
    note n = nested_unlock [OF assms(2) kept_trans [OF t(2) u(2)]]
    have "krealloc (b + 8) n s = retK p (unlocked s u)" using t(1) False u(1) n(1) by (simp add: eq)
    then show ?thesis
      using n(2) u False by (intro exI [of _ p] exI [of _ "unlocked s u"] exI [of _ bs2] exI [of _ e1]) auto
  qed
qed

section \<open>The initial heap\<close>

abbreviation (input) HEAP_END :: u32 where "HEAP_END \<equiv> 0xC03FFFF8"

definition heap_begin :: "vaddr \<Rightarrow> vaddr" where
  "heap_begin kernel_end = (if kernel_end mod PAGE_SIZE \<noteq> 0 then (kernel_end + PAGE_SIZE) AND NOT (PAGE_SIZE - 1) else kernel_end)"

lemma unat_heap_begin:
  assumes "unat k + 4096 < 2 ^ 32"
  shows "unat (heap_begin k) = (unat k + 4095) div 4096 * 4096"
proof -
  have m: "k mod PAGE_SIZE = 0 \<longleftrightarrow> unat k mod 4096 = 0" by (simp only: word_unat_eq_iff unat_mod) simp
  show ?thesis
  proof (cases "unat k mod 4096 = 0")
    case True
    then show ?thesis using m by (auto simp: heap_begin_def mod_eq_0_iff_dvd elim!: dvdE)
  next
    case False
    have "unat (k + 4096) = unat k + 4096" using assms by (simp add: unat_add32)
    moreover have "(unat k + 4095) div 4096 = (unat k + 4096) div 4096"
    proof -
      define q where "q = unat k div 4096"
      have "q * 4096 \<le> unat k" "unat k < q * 4096 + 4096"
        using div_eq_range [of 4096 "unat k" q] by (simp_all add: q_def)
      moreover have "unat k \<noteq> q * 4096" using False by (metis mod_mult_self2_is_0)
      ultimately have "(unat k + 4095) div 4096 = q + 1" "(unat k + 4096) div 4096 = q + 1"
        by (simp_all add: div_eq_range)
      then show ?thesis by simp
    qed
    ultimately show ?thesis using False m by (simp add: heap_begin_def unat_align_page)
  qed
qed

lemma heap_init_eq:
  "heap_init k s = (if 0xC0400000 \<le> heap_begin k then panicK (Abort ''KERNEL TOO BIG FOR INITIAL PAGE TABLE'')
     else retK () (s\<lparr>program_break_point := 0xC0400000, heap_start := heap_begin k,
       mem := internal_heap_block_set_metadata (heap_begin k) EOM_FALSE HEAP_BLOCK_FREE HEAP_END
         (internal_heap_block_set_metadata HEAP_END EOM_TRUE HEAP_BLOCK_USED NULL (mem s))\<rparr>))"
  unfolding heap_init_def heap_begin_def [symmetric] Let_def by (simp add: P2V_def)

definition one_block :: "u8 \<Rightarrow> u32 \<Rightarrow> memory \<Rightarrow> memory" where
  "one_block f b m = internal_heap_block_set_metadata b EOM_FALSE f HEAP_END
     (internal_heap_block_set_metadata HEAP_END EOM_TRUE HEAP_BLOCK_USED NULL m)"

lemma one_block_list:
  assumes "unat b + 8 \<le> 0xC03FFFF8"
  shows "heap_list (one_block f b m) b [(b, HEAP_END, f \<noteq> 0)] HEAP_END"
proof -
  let ?m1 = "internal_heap_block_set_metadata HEAP_END EOM_TRUE HEAP_BLOCK_USED NULL m"
  have "EOM_at (one_block f b m) HEAP_END"
    using header_same [OF same_bytes_outside [OF set_metadata_outside [of b ?m1 EOM_FALSE f HEAP_END]], of "0xC0400000" "0xC03FFFF8" HEAP_END]
      set_metadata_header [of HEAP_END EOM_TRUE HEAP_BLOCK_USED NULL m] assms by (simp add: EOM_at_def one_block_def)
  then show ?thesis using assms by (simp add: heap_list_def one_block_def)
qed

lemma heap_init_spec:
  assumes "vmm_inv s" and "heap_begin k < 0xC0400000" and "page_aligned (heap_begin k)"
  shows "\<exists>s'. heap_init k s = retK () s' \<and> heap_start s' = heap_begin k \<and> heap_ok s' [(heap_begin k, HEAP_END, True)] HEAP_END"
proof -
  let ?b = "heap_begin k"
  let ?s = "s\<lparr>program_break_point := 0xC0400000, heap_start := ?b, mem := one_block HEAP_BLOCK_FREE ?b (mem s)\<rparr>"
  obtain j where j: "unat ?b = j * 4096" using assms(3) by (auto simp: page_aligned_def mod_eq_0_iff_dvd elim!: dvdE)
  have "j * 4096 < 786432 * 4096 + 1024 * 4096" using assms(2) j by (simp add: word_nat)
  then have b: "unat ?b + 8 \<le> 0xC03FFFF8" using j by simp
  have "brk_inv ?s"
    using assms(1) vmm_inv_cong [of ?s s] by (auto simp: brk_inv_def mapped_writable_def)
  with one_block_list [OF b, of HEAP_BLOCK_FREE "mem s"] have "heap_ok ?s [(?b, HEAP_END, True)] HEAP_END" by (simp add: heap_ok_def)
  with assms(2) show ?thesis by (simp add: heap_init_eq one_block_def not_le [symmetric])
qed

section \<open>The allocator interface\<close>

text \<open>
  What a client of the heap relies on. \<open>blocks\<close> are the blocks handed out, as start address and
  capacity; \<open>room k\<close> says that the allocations to come, with 16 bytes of overhead each, need at most
  \<open>k\<close> bytes.
\<close>

definition apart :: "u32 \<times> nat \<Rightarrow> u32 \<times> nat \<Rightarrow> bool" where
  "apart = (\<lambda>(p, c) (q, d). unat p + c \<le> unat q \<or> unat q + d \<le> unat p)"

definition same_block :: "u32 \<times> nat \<Rightarrow> memory \<Rightarrow> memory \<Rightarrow> bool" where
  "same_block = (\<lambda>(p, c) m m'. same_bytes (unat p) (unat p + c) m m')"

lemma same_block_trans: "same_block x m m' \<Longrightarrow> same_block x m' m'' \<Longrightarrow> same_block x m m''"
  by (cases x) (simp add: same_block_def same_bytes_def)

locale allocator =
  fixes ok :: "'s \<Rightarrow> bool" and room :: "nat \<Rightarrow> 's \<Rightarrow> bool" and blocks :: "'s \<Rightarrow> (u32 \<times> nat) set" and bytes :: "'s \<Rightarrow> memory"
    and alloc :: "size_t \<Rightarrow> 's \<Rightarrow> (u32, 's) kres option" and release :: "u32 \<Rightarrow> 's \<Rightarrow> (unit, 's) kres option"
  assumes alloc_law: "ok s \<Longrightarrow> room (unat n + 16 + k) s \<Longrightarrow> \<exists>p s'. alloc n s = retK p s' \<and> ok s' \<and> room k s'
        \<and> (p = NULL \<and> blocks s' = blocks s \<or> p \<noteq> NULL \<and> (\<exists>c. unat n \<le> c \<and> (p, c) \<notin> blocks s \<and> blocks s' = insert (p, c) (blocks s)))
        \<and> (\<forall>x \<in> blocks s. same_block x (bytes s) (bytes s'))"
    and release_law: "ok s \<Longrightarrow> (p, c) \<in> blocks s \<Longrightarrow> \<exists>s'. release p s = retK () s' \<and> ok s' \<and> blocks s' = blocks s - {(p, c)}
        \<and> (\<forall>x \<in> blocks s'. same_block x (bytes s) (bytes s'))"
    and apart_law: "ok s \<Longrightarrow> x \<in> blocks s \<Longrightarrow> y \<in> blocks s \<Longrightarrow> x = y \<or> apart x y"
begin

text \<open>Two allocations, as \<open>create_kernel_task\<close> makes them: the blocks are apart from each other and from
  every block handed out before.\<close>

lemma alloc_twice:
  assumes "ok s" and "room (unat n + 16 + (unat n' + 16 + k)) s" and "alloc n s = retK p s'" and "p \<noteq> NULL"
    and "alloc n' s' = retK q s''" and "q \<noteq> NULL"
  shows "\<exists>c d. unat n \<le> c \<and> unat n' \<le> d \<and> blocks s'' = insert (q, d) (insert (p, c) (blocks s)) \<and> apart (p, c) (q, d)
    \<and> (\<forall>x \<in> blocks s. apart x (p, c) \<and> apart x (q, d) \<and> same_block x (bytes s) (bytes s'')) \<and> ok s'' \<and> room k s''"
proof -
  from alloc_law [OF assms(1,2)] assms(3,4) obtain c where
    c: "unat n \<le> c" "(p, c) \<notin> blocks s" "blocks s' = insert (p, c) (blocks s)" "ok s'" "room (unat n' + 16 + k) s'"
      "\<forall>x \<in> blocks s. same_block x (bytes s) (bytes s')" by (auto simp: retK_def)
  from alloc_law [OF c(4,5)] assms(5,6) obtain d where
    d: "unat n' \<le> d" "(q, d) \<notin> blocks s'" "blocks s'' = insert (q, d) (blocks s')" "ok s''" "room k s''"
      "\<forall>x \<in> blocks s'. same_block x (bytes s') (bytes s'')" by (auto simp: retK_def)
  have "x = y \<or> apart x y" if "x \<in> insert (q, d) (insert (p, c) (blocks s))" "y \<in> insert (q, d) (insert (p, c) (blocks s))" for x y
    using apart_law [OF d(4)] that c(3) d(3) by auto
  then have "apart (p, c) (q, d)" "\<forall>x \<in> blocks s. apart x (p, c) \<and> apart x (q, d)" using c(2,3) d(2) by blast+
  moreover have "\<forall>x \<in> blocks s. same_block x (bytes s) (bytes s'')" using same_block_trans c(3,6) d(6) by blast
  ultimately show ?thesis using c d by (intro exI [of _ c] exI [of _ d]) simp
qed

text \<open>An allocation that is given back at once leaves the same blocks.\<close>

lemma alloc_release:
  assumes "ok s" and "room (unat n + 16) s" and "alloc n s = retK p s'" and "p \<noteq> NULL"
  shows "\<exists>s''. release p s' = retK () s'' \<and> ok s'' \<and> blocks s'' = blocks s \<and> (\<forall>x \<in> blocks s. same_block x (bytes s) (bytes s''))"
proof -
  from alloc_law [OF assms(1), of n 0] assms(2-4) obtain c where
    c: "(p, c) \<notin> blocks s" "blocks s' = insert (p, c) (blocks s)" "ok s'" "\<forall>x \<in> blocks s. same_block x (bytes s) (bytes s')"
    by (auto simp: retK_def)
  from release_law [OF c(3), of p c] c(2) obtain s'' where
    s'': "release p s' = retK () s''" "ok s''" "blocks s'' = blocks s' - {(p, c)}" "\<forall>x \<in> blocks s''. same_block x (bytes s') (bytes s'')" by auto
  have "blocks s'' = blocks s" using s''(3) c(1,2) by auto
  moreover have "\<forall>x \<in> blocks s. same_block x (bytes s) (bytes s'')" using same_block_trans c(4) s''(4) \<open>blocks s'' = blocks s\<close> by blast
  ultimately show ?thesis using s'' by blast
qed

end

text \<open>The kernel heap is such an allocator.\<close>

definition heap_blocks :: "'z heap_scheme \<Rightarrow> (u32 \<times> nat) set" where
  "heap_blocks s = {(b + 8, unat d - unat b - 8) |b d bs e. heap_ok s bs e \<and> (b, d) \<in> live bs}"

definition heap_good :: "'z heap_scheme \<Rightarrow> bool" where
  "heap_good s \<longleftrightarrow> (\<exists>bs e. heap_ok s bs e) \<and> lock_ok 0 s"

definition heap_room :: "nat \<Rightarrow> 'z heap_scheme \<Rightarrow> bool" where
  "heap_room k s \<longleftrightarrow> unat (program_break_point s) + k + 4095 \<le> 0xFFC00000"

lemma hseg_unique:
  "hseg m a bs e \<Longrightarrow> EOM_at m e \<Longrightarrow> hseg m a bs' e' \<Longrightarrow> EOM_at m e' \<Longrightarrow> bs = bs' \<and> e = e'"
proof (induction bs arbitrary: a bs')
  case Nil
  then show ?case by (cases bs') (auto simp: EOM_at_def)
next
  case (Cons x bs)
  obtain b d f where x: "x = (b, d, f)" by (cases x)
  obtain y ys where bs': "bs' = y # ys" using Cons.prems x by (cases bs') (auto simp: EOM_at_def)
  obtain b' d' f' where y: "y = (b', d', f')" by (cases y)
  from Cons.prems(1,3) x y bs' have eq: "b' = b" "d' = d" "f' = f" "hseg m d bs e" "hseg m d ys e'" by auto
  with Cons.IH [OF eq(4) Cons.prems(2) eq(5) Cons.prems(4)] x y bs' show ?case by simp
qed

lemma heap_ok_unique: "heap_ok s bs e \<Longrightarrow> heap_ok s bs' e' \<Longrightarrow> bs' = bs \<and> e' = e"
  unfolding heap_ok_def heap_list_def using hseg_unique by metis

lemma heap_blocks_eq:
  assumes "heap_ok s bs e"
  shows "heap_blocks s = (\<lambda>(b, d). (b + 8, unat d - unat b - 8)) ` live bs"
proof -
  have "heap_ok s bs' e' \<longleftrightarrow> bs' = bs \<and> e' = e" for bs' e' using heap_ok_unique [OF assms] assms by blast
  then show ?thesis unfolding heap_blocks_def by auto
qed

lemma unat_payload:
  assumes "heap_ok s bs e" and "(b, d) \<in> live bs"
  shows "unat (b + 8) = unat b + 8" "unat (b + 8) + (unat d - unat b - 8) = unat d"
  using live_bounds [OF assms] by (simp_all add: unat_add32)

lemma inj_payload:
  assumes "heap_ok s bs e"
  shows "inj_on (\<lambda>(b, d). (b + 8, unat d - unat b - 8)) (live bs)"
proof (rule inj_onI, clarsimp)
  fix b d d' assume l: "(b, d) \<in> live bs" "(b, d') \<in> live bs"
  show "d = d'" using live_disjoint [OF assms l] live_bounds [OF assms l(1)] live_bounds [OF assms l(2)] by auto
qed

lemma same_block_live:
  assumes "heap_ok s bs e" and "(b, d) \<in> live bs"
  shows "same_block (b + 8, unat d - unat b - 8) m m' \<longleftrightarrow> same_bytes (unat b + 8) (unat d) m m'"
  using unat_payload [OF assms] by (simp add: same_block_def)

lemma kmalloc_alloc_law:
  assumes "heap_good s" and "heap_room (unat n + 16 + k) s"
  shows "\<exists>p s'. kmalloc n s = retK p s' \<and> heap_good s' \<and> heap_room k s'
    \<and> (p = NULL \<and> heap_blocks s' = heap_blocks s \<or> p \<noteq> NULL \<and> (\<exists>c. unat n \<le> c \<and> (p, c) \<notin> heap_blocks s \<and> heap_blocks s' = insert (p, c) (heap_blocks s)))
    \<and> (\<forall>x \<in> heap_blocks s. same_block x (mem s) (mem s'))"
proof -
  obtain bs e where h: "heap_ok s bs e" and l: "lock_ok 0 s" using assms(1) by (auto simp: heap_good_def)
  have pb: "0xC0400000 \<le> unat (program_break_point s)" "unat e + 8 = unat (program_break_point s)" using h by (simp_all add: heap_ok_def brk_inv_def word_nat)
  have n: "unat n \<le> 0x7FFFFF00" "unat (program_break_point s) + round8 (unat n) + 8 + 4095 \<le> 0xFFC00000"
    using assms(2) pb round8_bounds(2) [of "unat n"] by (simp_all add: heap_room_def)
  from kmalloc_safe [OF h l n] obtain p s' bs' e' where
    s': "kmalloc n s = retK p s'" "kept s s'" "heap_ok s' bs' e'" "unat e' \<le> unat e + 8 + round8 (unat n)" and
    res: "p = NULL \<and> bs' = bs \<and> mem s' = mem s \<or> p \<noteq> NULL \<and> allocated bs bs' p (unat n) (mem s) (mem s')" by blast
  have good: "heap_good s'" using s'(2,3) kept_lock_ok [OF s'(2) l] by (auto simp: heap_good_def)
  have "unat e' + 8 = unat (program_break_point s')" using s'(3) by (simp add: heap_ok_def)
  then have room: "heap_room k s'" using s'(4) pb(2) assms(2) round8_bounds(2) [of "unat n"] by (simp add: heap_room_def)
  note eq = heap_blocks_eq [OF h] and eq' = heap_blocks_eq [OF s'(3)]
  show ?thesis
  proof (cases "p = NULL")
    case True
    with res s'(1) good room eq eq' show ?thesis by (auto simp: same_block_def same_bytes_def)
  next
    case False
    with res obtain d where d: "(p - 8, d) \<notin> live bs" "live bs' = insert (p - 8, d) (live bs)" "8 \<le> p" "unat p + unat n \<le> unat d"
      and sb: "\<forall>(b, d) \<in> live bs. same_bytes (unat b + 8) (unat d) (mem s) (mem s')" by (auto simp: allocated_def)
    let ?c = "unat d - unat (p - 8) - 8"
    have "unat (p - 8) + 8 = unat p" using d(3) by (simp add: unat_sub32 word_nat)
    then have c: "unat n \<le> ?c" using d(4) by simp
    have "(p, ?c) \<notin> heap_blocks s"
      using inj_payload [OF s'(3)] d(1,2) unfolding eq inj_on_def by fastforce
    moreover have "heap_blocks s' = insert (p, ?c) (heap_blocks s)" using eq eq' d(2) by simp
    moreover have "\<forall>x \<in> heap_blocks s. same_block x (mem s) (mem s')" using sb same_block_live [OF h] unfolding eq by auto
    ultimately show ?thesis using s'(1) good room c False by blast
  qed
qed

lemma kfree_release_law:
  assumes "heap_good s" and "(p, c) \<in> heap_blocks s"
  shows "\<exists>s'. kfree p s = retK () s' \<and> heap_good s' \<and> heap_blocks s' = heap_blocks s - {(p, c)}
    \<and> (\<forall>x \<in> heap_blocks s'. same_block x (mem s) (mem s'))"
proof -
  obtain bs e where h: "heap_ok s bs e" and l: "lock_ok 0 s" using assms(1) by (auto simp: heap_good_def)
  from assms(2) obtain b d where b: "(b, d) \<in> live bs" "p = b + 8" "c = unat d - unat b - 8" by (auto simp: heap_blocks_eq [OF h])
  from kfree_safe [OF h l b(1)] obtain s' bs' where
    s': "kfree (b + 8) s = retK () s'" "kept s s'" "heap_ok s' bs' e" "live bs' = live bs - {(b, d)}"
    and sb: "\<forall>(b', d') \<in> live bs'. same_bytes (unat b' + 8) (unat d') (mem s) (mem s')" by blast
  have "heap_good s'" using s'(2,3) kept_lock_ok [OF s'(2) l] by (auto simp: heap_good_def)
  moreover have "heap_blocks s' = heap_blocks s - {(p, c)}"
    unfolding heap_blocks_eq [OF h] heap_blocks_eq [OF s'(3)] s'(4)
    by (subst inj_on_image_set_diff [OF inj_payload [OF h]]) (use b in auto)
  moreover have "\<forall>x \<in> heap_blocks s'. same_block x (mem s) (mem s')"
    using sb same_block_live [OF s'(3)] unfolding heap_blocks_eq [OF s'(3)] by auto
  ultimately show ?thesis using s'(1) b(2) by blast
qed

lemma heap_blocks_apart:
  assumes "heap_good s" and "x \<in> heap_blocks s" and "y \<in> heap_blocks s"
  shows "x = y \<or> apart x y"
proof -
  obtain bs e where h: "heap_ok s bs e" using assms(1) by (auto simp: heap_good_def)
  obtain b d b' d' where x: "x = (b + 8, unat d - unat b - 8)" "(b, d) \<in> live bs" and y: "y = (b' + 8, unat d' - unat b' - 8)" "(b', d') \<in> live bs"
    using assms(2,3) by (auto simp: heap_blocks_eq [OF h])
  from live_disjoint [OF h x(2) y(2)] unat_payload [OF h x(2)] unat_payload [OF h y(2)] show ?thesis
    unfolding x(1) y(1) apart_def by auto
qed

interpretation kheap: allocator heap_good heap_room heap_blocks mem kmalloc kfree
  by unfold_locales (rule kmalloc_alloc_law kfree_release_law heap_blocks_apart; assumption)+

section \<open>Properties\<close>

text \<open>A heap of one block from 0xC0121000, for the witnesses.\<close>

definition example_heap :: "u8 \<Rightarrow> heap" where
  "example_heap f = one_page_heap (one_block f 0xC0121000 (\<lambda>_. 0)) 0xC0400000 0xC0121000 ()"

lemma one_page_heap_ok:
  "heap_ok (one_page_heap (one_block f 0xC0121000 (\<lambda>_. 0)) 0xC0400000 0xC0121000 z) [(0xC0121000, HEAP_END, f \<noteq> 0)] HEAP_END"
  using one_block_list [of "0xC0121000" f "\<lambda>_. 0"] 
    one_page_heap_brk [of "0xC0400000" "one_block f 0xC0121000 (\<lambda>_. 0)" "0xC0121000" z] by (simp add: heap_ok_def)

lemma example_heap_ok: "heap_ok (example_heap f) [(0xC0121000, HEAP_END, f \<noteq> 0)] HEAP_END"
  unfolding example_heap_def by (rule one_page_heap_ok)

lemma example_heap_lock: "lock_ok (Suc 0) (example_heap f)" "lock_ok 0 (example_heap f)"
  by (simp_all add: lock_ok_def example_heap_def one_page_heap_def three_tasks_def empty_space_def)

lemma example_heap_fields [simp]:
  "program_break_point (example_heap f) = 0xC0400000" "heap_start (example_heap f) = 0xC0121000" "mem (example_heap f) = one_block f 0xC0121000 (\<lambda>_. 0)"
  by (simp_all add: example_heap_def)

lemma example_heap_good: "heap_good (example_heap f)"
  using example_heap_ok example_heap_lock(2) by (auto simp: heap_good_def)

text \<open>\<open>heap_init\<close>. When the kernel image ends at least a page below the first 4 MB of the higher
  half, the heap starts at the image's end rounded up to a page, consists of one free block up to
  the EOM block just below 4 MB, and the break is at 4 MB; a larger image aborts.\<close>

theorem heap_init_correct:
  assumes "vmm_inv s" and "unat kernel_end + 4096 < 2 ^ 32"
  shows "if unat kernel_end \<le> 0xC03FF000
    then \<exists>s'. heap_init kernel_end s = retK () s' \<and> unat (heap_start s') = (unat kernel_end + 4095) div 4096 * 4096
      \<and> heap_ok s' [(heap_start s', HEAP_END, True)] HEAP_END
    else heap_init kernel_end s = panicK (Abort ''KERNEL TOO BIG FOR INITIAL PAGE TABLE'')"
proof -
  note b = unat_heap_begin [OF assms(2)]
  have le: "heap_begin kernel_end < 0xC0400000 \<longleftrightarrow> unat kernel_end \<le> 0xC03FF000"
  proof -
    have "unat (heap_begin kernel_end) < 787456 * 4096 \<longleftrightarrow> (unat kernel_end + 4095) div 4096 < 787456"
      unfolding b by (simp only: mult_less_cancel2) simp
    also have "\<dots> \<longleftrightarrow> unat kernel_end + 4095 < 787456 * 4096" by (rule div_less_iff_less_mult) simp
    finally show ?thesis by (auto simp: word_nat)
  qed
  have "page_aligned (heap_begin kernel_end)" by (simp add: page_aligned_def b)
  with heap_init_spec [OF assms(1), of kernel_end] le b show ?thesis
    by (auto simp: heap_init_eq not_less [symmetric])
qed

text \<open>An image that ends in the middle of a page.\<close>

theorem heap_init_correct_witness:
  "\<exists>s'. heap_init 0xC0120ABC (one_page_heap (\<lambda>_. 0) 0 0 ()) = retK () s' \<and> unat (heap_start s') = 0xC0121000
     \<and> heap_ok s' [(heap_start s', HEAP_END, True)] HEAP_END"
  using heap_init_correct [OF one_page_heap_inv [of "\<lambda>_. 0" 0 0 "()"], of "0xC0120ABC"] by simp

text \<open>C3: \<open>kmalloc\<close> refines first fit on the abstract block list: it takes the first free block that
  is large enough for the size rounded up to 8, splits it when at least 16 bytes beside a header
  remain, and otherwise turns the EOM block into a used block of exactly that size at the break, or
  returns \<open>NULL\<close> with the heap unchanged. Bytes outside the chosen block do not change, and the
  scheduler is as before with interrupts enabled unless an outer lock is held.\<close>

theorem kmalloc_first_fit:
  assumes "heap_ok s bs e" and "lock_ok 0 s" and "unat n \<le> 0x7FFFFF00"
    and "unat (program_break_point s) + round8 (unat n) + 8 + 4095 \<le> 0xFFC00000"
  shows "\<exists>p s'. kmalloc n s = retK p s' \<and> kept s s'
    \<and> (case abs_alloc (round8 (unat n)) bs of
         Some (q, bs') \<Rightarrow> p = q + 8 \<and> heap_ok s' bs' e
           \<and> (\<exists>d. (q, d, True) \<in> set bs \<and> same_outside (unat q) (unat d) (mem s) (mem s'))
       | None \<Rightarrow> p = NULL \<and> heap_ok s' bs e \<and> mem s' = mem s
           \<or> (\<exists>e'. p = e + 8 \<and> heap_ok s' (bs @ [(e, e', False)]) e' \<and> unat e' = unat e + 8 + round8 (unat n)
                \<and> same_outside (unat e) (unat e' + 8) (mem s) (mem s')))"
  using assms by (rule kmalloc_spec)

text \<open>Witness of C3: 100 bytes of the initial heap, rounded up to 104.\<close>

theorem kmalloc_first_fit_witness:
  "\<exists>s'. kmalloc 100 (example_heap 1) = retK 0xC0121008 s'
     \<and> heap_ok s' [(0xC0121000, 0xC0121070, False), (0xC0121070, HEAP_END, True)] HEAP_END"
  using kmalloc_first_fit [OF example_heap_ok [of 1] example_heap_lock(2) [of 1], of 100]
  by (auto simp: round8_def fits_def split_blk_def)

text \<open>C7: memory safety of the heap. A block returned by \<open>kmalloc\<close> has room for the bytes asked for
  and lies apart from every block handed out and not yet freed; those blocks stay handed out and keep
  their contents. On \<open>NULL\<close> nothing is handed out.\<close>

theorem kmalloc_safe_blocks:
  assumes "heap_good s" and "heap_room (unat n + 16) s"
  shows "\<exists>p s'. kmalloc n s = retK p s' \<and> heap_good s'
    \<and> (p = NULL \<and> heap_blocks s' = heap_blocks s
       \<or> p \<noteq> NULL \<and> (\<exists>c. unat n \<le> c \<and> heap_blocks s' = insert (p, c) (heap_blocks s) \<and> (\<forall>x \<in> heap_blocks s. apart x (p, c))))
    \<and> (\<forall>x \<in> heap_blocks s. same_block x (mem s) (mem s'))"
proof -
  from kheap.alloc_law [OF assms(1), of n 0] assms(2) obtain p s' where
    s': "kmalloc n s = retK p s'" "heap_good s'" "\<forall>x \<in> heap_blocks s. same_block x (mem s) (mem s')" and
    r: "p = NULL \<and> heap_blocks s' = heap_blocks s \<or> p \<noteq> NULL \<and> (\<exists>c. unat n \<le> c \<and> (p, c) \<notin> heap_blocks s \<and> heap_blocks s' = insert (p, c) (heap_blocks s))"
    by auto
  have "\<forall>x \<in> heap_blocks s. apart x (p, c)" if "(p, c) \<notin> heap_blocks s" "heap_blocks s' = insert (p, c) (heap_blocks s)" for c
    using kheap.apart_law [OF s'(2)] that by blast
  with r have "p = NULL \<and> heap_blocks s' = heap_blocks s
     \<or> p \<noteq> NULL \<and> (\<exists>c. unat n \<le> c \<and> heap_blocks s' = insert (p, c) (heap_blocks s) \<and> (\<forall>x \<in> heap_blocks s. apart x (p, c)))" by blast
  with s' show ?thesis by blast
qed

text \<open>Witness of C7: a second block beside the one that covers the initial heap.\<close>

theorem kmalloc_safe_blocks_witness:
  "(0xC0121008, 0x2DEFF0) \<in> heap_blocks (example_heap 0)
   \<and> (\<exists>p s'. kmalloc 64 (example_heap 0) = retK p s' \<and> heap_good s' \<and> same_block (0xC0121008, 0x2DEFF0) (mem (example_heap 0)) (mem s'))"
proof -
  have "(0xC0121008, 0x2DEFF0) \<in> heap_blocks (example_heap 0)" by (simp add: heap_blocks_eq [OF example_heap_ok])
  then show ?thesis using kmalloc_safe_blocks [OF example_heap_good, of 64 0] by (auto simp: heap_room_def)
qed

text \<open>C14: \<open>kmalloc\<close> and \<open>kfree\<close> keep the heap tidy: when no two free blocks are adjacent and all block
  starts are multiples of 8, both still hold afterwards, and \<open>kmalloc\<close> returns a multiple of 8.\<close>

theorem heap_stays_tidy:
  assumes "heap_ok s bs e" and "lock_ok 0 s" and "no_adjacent (frees bs)" and "aligned_blks bs" and "8 dvd unat e"
    and "unat n \<le> 0x7FFFFF00" and "unat (program_break_point s) + round8 (unat n) + 8 + 4095 \<le> 0xFFC00000"
  shows "(\<exists>p s' bs' e'. kmalloc n s = retK p s' \<and> heap_ok s' bs' e' \<and> no_adjacent (frees bs') \<and> aligned_blks bs'
      \<and> 8 dvd unat e' \<and> 8 dvd unat p)
    \<and> (\<forall>(b, d) \<in> live bs. \<exists>s' bs'. kfree (b + 8) s = retK () s' \<and> heap_ok s' bs' e \<and> no_adjacent (frees bs') \<and> aligned_blks bs')"
proof (intro conjI ballI)
  have seg: "hseg (mem s) (heap_start s) bs e" and e8: "unat e + 8 = unat (program_break_point s)"
    using assms(1) by (simp_all add: heap_ok_def heap_list_def)
  have dvd8: "8 dvd unat (q + 8)" if "8 dvd unat q" for q :: u32
    using that by (simp add: unat_word_ariths dvd_mod)
  from kmalloc_spec [OF assms(1,2,6,7)] obtain p s' where s': "kmalloc n s = retK p s'" and
    res: "case abs_alloc (round8 (unat n)) bs of
         Some (q, bs') \<Rightarrow> p = q + 8 \<and> heap_ok s' bs' e
           \<and> (\<exists>d. (q, d, True) \<in> set bs \<and> same_outside (unat q) (unat d) (mem s) (mem s'))
       | None \<Rightarrow> p = NULL \<and> heap_ok s' bs e \<and> mem s' = mem s
           \<or> (\<exists>e'. p = e + 8 \<and> heap_ok s' (bs @ [(e, e', False)]) e' \<and> unat e' = unat e + 8 + round8 (unat n)
                \<and> same_outside (unat e) (unat e' + 8) (mem s) (mem s'))" by blast
  show "\<exists>p s' bs' e'. kmalloc n s = retK p s' \<and> heap_ok s' bs' e' \<and> no_adjacent (frees bs') \<and> aligned_blks bs' \<and> 8 dvd unat e' \<and> 8 dvd unat p"
  proof (cases "abs_alloc (round8 (unat n)) bs")
    case (Some a)
    obtain q bs' where a: "a = (q, bs')" by (cases a)
    with Some res have r: "p = q + 8" "heap_ok s' bs' e" by auto
    note al = abs_alloc_aligned [OF Some [unfolded a] assms(4) dvd_round8 seg] abs_alloc_coalesced [OF Some [unfolded a] assms(3)]
    show ?thesis using s' r al dvd8 assms(5) by (intro exI [of _ p] exI [of _ s'] exI [of _ bs'] exI [of _ e]) simp
  next
    case None
    show ?thesis
    proof (cases "p = NULL \<and> heap_ok s' bs e")
      case True
      with s' assms show ?thesis by (intro exI [of _ p] exI [of _ s'] exI [of _ bs] exI [of _ e]) simp
    next
      case False
      with None res obtain e' where e': "p = e + 8" "heap_ok s' (bs @ [(e, e', False)]) e'" "unat e' = unat e + 8 + round8 (unat n)" by auto
      with s' assms dvd8 show ?thesis
        by (intro exI [of _ p] exI [of _ s'] exI [of _ "bs @ [(e, e', False)]"] exI [of _ e']) (simp add: no_adjacent_append)
    qed
  qed
next
  fix x assume "x \<in> live bs"
  then obtain b d where x: "x = (b, d)" "(b, d) \<in> live bs" by (cases x) auto
  from live_member [OF x(2)] obtain pre post where bs: "bs = pre @ (b, d, False) # post" by blast
  from kfree_spec [OF assms(1) [unfolded bs] assms(2)] abs_free_coalesced [OF assms(3) [unfolded bs]] abs_free_aligned [OF assms(4) [unfolded bs]]
  show "case x of (b, d) \<Rightarrow> \<exists>s' bs'. kfree (b + 8) s = retK () s' \<and> heap_ok s' bs' e \<and> no_adjacent (frees bs') \<and> aligned_blks bs'"
    unfolding x by auto
qed

text \<open>Witness of C14: the initial heap.\<close>

theorem heap_stays_tidy_witness:
  "\<exists>p s' bs' e'. kmalloc 13 (example_heap 1) = retK p s' \<and> heap_ok s' bs' e' \<and> no_adjacent (frees bs') \<and> 8 dvd unat p"
  using heap_stays_tidy [OF example_heap_ok [of 1] example_heap_lock(2) [of 1], of 13] by (auto simp: round8_def)

text \<open>C15: \<open>kfree\<close> refines the abstract release: the block becomes free and is merged with a free
  successor and a free predecessor; it terminates, and only header bytes of the block list change.\<close>

theorem kfree_merges:
  assumes "heap_ok s (pre @ (b, n, f) # post) e" and "lock_ok 0 s"
  shows "\<exists>s'. kfree (b + 8) s = retK () s' \<and> kept s s' \<and> heap_ok s' (abs_free pre b n post) e
    \<and> headers_only (pre @ (b, n, f) # post) (mem s) (mem s')"
  using assms by (rule kfree_spec)

text \<open>Witness of C15.\<close>

theorem kfree_merges_witness:
  "\<exists>s'. kfree 0xC0121008 (example_heap 0) = retK () s' \<and> heap_ok s' [(0xC0121000, HEAP_END, True)] HEAP_END"
  using kfree_merges [of "example_heap 0" "[]" "0xC0121000" HEAP_END False "[]" HEAP_END] example_heap_ok [of 0] example_heap_lock(2) [of 0]
  by (auto simp: abs_free_def merge_next_def)

text \<open>C16: freeing undoes allocating: when a free block is large enough and no two free blocks are
  adjacent, \<open>kmalloc\<close> followed by \<open>kfree\<close> of its result restores the block list.\<close>

theorem kmalloc_kfree_roundtrip:
  assumes "heap_ok s bs e" and "lock_ok 0 s" and "no_adjacent (frees bs)" and "\<exists>x \<in> set bs. fits (round8 (unat n)) x"
    and "unat n \<le> 0x7FFFFF00" and "unat (program_break_point s) + round8 (unat n) + 8 + 4095 \<le> 0xFFC00000"
  shows "\<exists>s'. bindK (kmalloc n s) (\<lambda>p. kfree p) = retK () s' \<and> heap_ok s' bs e \<and> kept s s'"
proof -
  from assms(4) obtain q bs' where al: "abs_alloc (round8 (unat n)) bs = Some (q, bs')"
    using abs_alloc_None [of "round8 (unat n)" bs] by (cases "abs_alloc (round8 (unat n)) bs") auto
  with kmalloc_spec [OF assms(1,2,5,6)] obtain t where t: "kmalloc n s = retK (q + 8) t" "kept s t" "heap_ok t bs' e" by auto
  then have "hseg (mem t) (heap_start t) bs' e" by (simp add: heap_ok_def heap_list_def)
  from abs_alloc_free [OF al assms(3) this] obtain pre d post where
    bs': "bs' = pre @ (q, d, False) # post" "abs_free pre q d post = bs" by blast
  from kfree_spec [of t pre q d False post e] t(3) kept_lock_ok [OF t(2) assms(2)] bs'(1) obtain u where
    "kfree (q + 8) t = retK () u" "kept t u" "heap_ok u (abs_free pre q d post) e" by auto
  with t bs'(2) kept_trans [OF t(2)] show ?thesis by auto
qed

text \<open>Witness of C16.\<close>

theorem kmalloc_kfree_roundtrip_witness:
  "\<exists>s'. bindK (kmalloc 4096 (example_heap 1)) (\<lambda>p. kfree p) = retK () s' \<and> heap_ok s' [(0xC0121000, HEAP_END, True)] HEAP_END"
  using kmalloc_kfree_roundtrip [OF example_heap_ok [of 1] example_heap_lock(2) [of 1], of 4096] by (auto simp: round8_def fits_def)

text \<open>\<open>kcalloc\<close>, for a product that does not overflow: a block for \<open>nmemb\<close> times \<open>size\<close> bytes, all
  of them 0, apart from the others, whose contents are kept; or \<open>NULL\<close> and nothing changed.\<close>

theorem kcalloc_zeroed:
  assumes "heap_ok s bs e" and "lock_ok (Suc 0) s" and "unat k * unat n \<le> 0x7FFFFF00"
    and "unat (program_break_point s) + round8 (unat k * unat n) + 8 + 4095 \<le> 0xFFC00000"
  shows "\<exists>p s' bs' e'. kcalloc k n s = retK p s' \<and> kept s s' \<and> heap_ok s' bs' e'
    \<and> (p = NULL \<and> bs' = bs \<and> mem s' = mem s
       \<or> p \<noteq> NULL \<and> allocated bs bs' p (unat k * unat n) (mem s) (mem s')
         \<and> (\<forall>x. unat p \<le> unat x \<and> unat x < unat p + unat k * unat n \<longrightarrow> mem s' x = 0))"
  using assms by (rule kcalloc_spec)

text \<open>At a concrete state.\<close>

theorem kcalloc_zeroed_witness:
  "\<exists>p s'. kcalloc 3 5 (example_heap 1) = retK p s' \<and> (p = NULL \<or> mem s' p = 0)"
proof -
  have "unat p < unat p + unat (3 :: u32) * unat (5 :: u32)" for p :: u32 by simp
  then show ?thesis
    using kcalloc_zeroed [OF example_heap_ok [of 1] example_heap_lock(1) [of 1], of 3 5] by (auto simp: round8_def)
qed

text \<open>C26: \<open>krealloc\<close> of a block that is too small: a block with room for the new size that holds the
  old contents, the old block freed, every other block untouched; or \<open>NULL\<close> with the old block and
  its contents as they were.\<close>

theorem krealloc_moves:
  assumes "heap_ok s bs e" and "lock_ok (Suc 0) s" and "(b, d) \<in> live bs" and "unat d - unat b - 8 < unat n" and "unat n \<le> 0x7FFFFF00"
    and "unat (program_break_point s) + round8 (unat n) + 8 + 4095 \<le> 0xFFC00000"
  shows "\<exists>p s' bs' e'. krealloc (b + 8) n s = retK p s' \<and> kept s s' \<and> heap_ok s' bs' e'
    \<and> (p = NULL \<and> bs' = bs \<and> mem s' = mem s
       \<or> p \<noteq> NULL \<and> (\<exists>d'. (p - 8, d') \<notin> live bs \<and> live bs' = insert (p - 8, d') (live bs - {(b, d)}) \<and> 8 \<le> p \<and> unat p + unat n \<le> unat d')
         \<and> (\<forall>i. unat i < unat d - unat b - 8 \<longrightarrow> mem s' (p + i) = mem s (b + 8 + i))
         \<and> (\<forall>(b', d') \<in> live bs - {(b, d)}. same_bytes (unat b' + 8) (unat d') (mem s) (mem s')))"
  using assms by (rule krealloc_move)

text \<open>Witness of C26: growing a block that covers the initial heap.\<close>

theorem krealloc_moves_witness:
  "\<exists>p s'. krealloc 0xC0121008 0x300000 (example_heap 0) = retK p s'
     \<and> (p = NULL \<or> mem s' (p + 5) = mem (example_heap 0) 0xC012100D)"
proof -
  have five: "unat (5 :: u32) < unat HEAP_END - unat (0xC0121000 :: u32) - 8" "(0xC0121000 :: u32) + 8 + 5 = 0xC012100D" by simp_all
  have "(0xC0121000, HEAP_END) \<in> live [(0xC0121000, HEAP_END, (0 :: u8) \<noteq> 0)]" by simp
  from krealloc_moves [OF example_heap_ok [of 0] example_heap_lock(1) [of 0] this, of "0x300000"]
  obtain p s' where s': "krealloc (0xC0121000 + 8) 0x300000 (example_heap 0) = retK p s'"
    "p = NULL \<or> (\<forall>i. unat i < unat HEAP_END - unat (0xC0121000 :: u32) - 8 \<longrightarrow> mem s' (p + i) = mem (example_heap 0) (0xC0121000 + 8 + i))"
    by (auto simp: round8_def simp del: example_heap_fields(3))
  then have "p = NULL \<or> mem s' (p + 5) = mem (example_heap 0) 0xC012100D" using five by metis
  with s'(1) show ?thesis by auto
qed

text \<open>\<open>krealloc\<close> breaks the alignment. Shrinking a block in place splits it at the size as given,
  not rounded up: the remaining free block then starts at that offset, so an 8-aligned block list
  does not stay aligned for a size that is not a multiple of 8.\<close>

theorem krealloc_misaligns:
  assumes "heap_ok s (pre @ (b, d, False) # post) e" and "lock_ok (Suc 0) s" and "8 dvd unat b" and "\<not> 8 dvd unat n"
    and "round8 (unat n) + 24 \<le> unat d - unat b - 8" and "unat n \<le> 0x7FFFFF00"
  shows "\<exists>s'. krealloc (b + 8) n s = retK (b + 8) s' \<and> heap_ok s' (pre @ (b, b + 8 + n, False) # (b + 8 + n, d, True) # post) e
    \<and> \<not> 8 dvd unat (b + 8 + n)"
proof -
  have le: "unat n + 24 \<le> unat d - unat b - 8" "unat n \<le> unat d - unat b - 8" using assms(5) round8_bounds(1) [of "unat n"] by simp_all
  have "0 < unat n" using assms(4) by (cases "unat n = 0") auto
  from krealloc_in_place [OF assms(1,2) this le(2) assms(6)] obtain s' where
    s': "krealloc (b + 8) n s = retK (b + 8) s'" "heap_ok s' (pre @ split_blk (unat n) (b, d, False) @ post) e" by blast
  have "unat b + 8 \<le> unat d" using assms(1) by (auto simp: heap_ok_def heap_list_def hseg_append)
  from unat_split_point [OF this le(1)] have "unat (b + 8 + n) = unat b + 8 + unat n" by simp
  moreover have "\<not> 8 dvd unat b + 8 + unat n" using assms(3,4) by (simp add: dvd_add_right_iff)
  ultimately show ?thesis using s' assms(5) by (simp add: split_blk_def)
qed

text \<open>13 bytes.\<close>

theorem krealloc_misaligns_witness:
  "\<exists>s'. krealloc 0xC0121008 13 (example_heap 0) = retK 0xC0121008 s'
     \<and> heap_ok s' [(0xC0121000, 0xC0121015, False), (0xC0121015, HEAP_END, True)] HEAP_END"
  using krealloc_misaligns [of "example_heap 0" "[]" "0xC0121000" HEAP_END "[]" HEAP_END 13] example_heap_ok [of 0] example_heap_lock(1) [of 0]
  by (auto simp: round8_def)
end
