(* ===== verification/Interrupts.thy ===== *)
theory Interrupts
  imports Heap_Client
begin

text \<open>
  The interrupt descriptor table and the dispatch of interrupts (\<open>interrupts/idt.c\<close>,
  \<open>interrupts/idt.h\<close>), with the port writes that program the interrupt controllers. The entry stubs
  \<open>isr0\<close> to \<open>isr177\<close> and \<open>irq0\<close> to \<open>irq15\<close> are assembly labels: their addresses are arguments.
  A handler is known by its address; what the function at an address does is an argument \<open>call\<close>.
\<close>

section \<open>State\<close>

record IdtEntry =
  base_low :: u16
  sel :: u16
  always0 :: u8
  flags :: u8
  base_high :: u16

record IdtRegister =
  idtr_limit :: u16
  idtr_base :: u32

text \<open>The part of \<open>struct Registers\<close> that the C code reads.\<close>

record Registers =
  int_no :: u32
  err_code :: u32

text \<open>\<open>port_log\<close> lists the writes to I/O ports, the last one first; \<open>idtr\<close> is the processor's register.\<close>

record kernel = heap +
  idt_entries :: "u8 \<Rightarrow> IdtEntry"
  idt_ptr :: IdtRegister
  idtr :: IdtRegister
  irq_routines :: "u32 \<Rightarrow> u32"
  port_log :: "(u16 \<times> u8) list"

section \<open>Operations\<close>

definition outb :: "u16 \<Rightarrow> u8 \<Rightarrow> 'z kernel_scheme \<Rightarrow> 'z kernel_scheme" where
  "outb port val s = s\<lparr>port_log := (port, val) # port_log s\<rparr>"

abbreviation (input) IDT_FLAG_KERNEL_INTERRUPT_GATE :: u8 where "IDT_FLAG_KERNEL_INTERRUPT_GATE \<equiv> 0x80 OR 0x00 OR 0x0E"
abbreviation (input) IDT_FLAG_USER_ACCESS :: u8 where "IDT_FLAG_USER_ACCESS \<equiv> 0x60"
abbreviation (input) GDT_OFFSET_KERNEL_CODE :: u16 where "GDT_OFFSET_KERNEL_CODE \<equiv> 0x08"
abbreviation (input) PIC1 :: u16 where "PIC1 \<equiv> 0x20"
abbreviation (input) PIC2 :: u16 where "PIC2 \<equiv> 0xA0"
abbreviation (input) PIC1_DATA :: u16 where "PIC1_DATA \<equiv> PIC1 + 1"
abbreviation (input) PIC2_DATA :: u16 where "PIC2_DATA \<equiv> PIC2 + 1"
abbreviation (input) PIC_EOI :: u8 where "PIC_EOI \<equiv> 0x20"
abbreviation (input) ICW1_DEFAULT :: u8 where "ICW1_DEFAULT \<equiv> 0x10 OR 0x01"
abbreviation (input) PIC1_VECTOR_OFFSET :: u8 where "PIC1_VECTOR_OFFSET \<equiv> 0x20"
abbreviation (input) PIC2_VECTOR_OFFSET :: u8 where "PIC2_VECTOR_OFFSET \<equiv> 0x28"
abbreviation (input) ICW3_SLAVE_ON_IRQ2 :: u8 where "ICW3_SLAVE_ON_IRQ2 \<equiv> 0x04"
abbreviation (input) ICW3_IS_SLAVE :: u8 where "ICW3_IS_SLAVE \<equiv> 0x02"
abbreviation (input) ICW4_8086_MODE :: u8 where "ICW4_8086_MODE \<equiv> 0x01"
abbreviation (input) PIC_IMR_UNMASK_ALL :: u8 where "PIC_IMR_UNMASK_ALL \<equiv> 0x00"
abbreviation (input) PIT_CH0_DATA_PORT :: u16 where "PIT_CH0_DATA_PORT \<equiv> 0x40"
abbreviation (input) PIT_CMD_REG_PORT :: u16 where "PIT_CMD_REG_PORT \<equiv> 0x43"
abbreviation (input) PIT_SC_CHANNEL0 :: u8 where "PIT_SC_CHANNEL0 \<equiv> 0x00"
abbreviation (input) PIT_RW_LOBYTE_ONLY :: u8 where "PIT_RW_LOBYTE_ONLY \<equiv> 0x10"
abbreviation (input) PIT_RW_LOHI_BYTE :: u8 where "PIT_RW_LOHI_BYTE \<equiv> 0x30"
abbreviation (input) PIT_MODE_3_SQ_WAVE :: u8 where "PIT_MODE_3_SQ_WAVE \<equiv> 0x06"
abbreviation (input) PIT_BIN_MODE :: u8 where "PIT_BIN_MODE \<equiv> 0x00"

definition idt_gate_set :: "u8 \<Rightarrow> u32 \<Rightarrow> u16 \<Rightarrow> u8 \<Rightarrow> 'z kernel_scheme \<Rightarrow> 'z kernel_scheme" where
  "idt_gate_set num base selector fl s =
     s\<lparr>idt_entries := (idt_entries s)(num := \<lparr>base_low = ucast (base AND 0xFFFF), sel = selector, always0 = 0,
        flags = fl OR IDT_FLAG_USER_ACCESS, base_high = ucast (drop_bit 16 base AND 0xFFFF)\<rparr>)\<rparr>"

definition exception_messages :: "string list" where
  "exception_messages =
     [''division by zero'', ''debug'', ''non maskable interrupt'', ''breakpoint'', ''into detected overflow'',
      ''out of bounds'', ''invalid opcode'', ''no coprocessor'', ''double fault'', ''coprocessor segment overrun'',
      ''bad tss'', ''segment not present'', ''stack fault'', ''general protection fault'', ''page fault'',
      ''unknown interrupt'', ''coprocessor fault'', ''alignment fault'', ''machine check'', ''reserved'',
      ''reserved'', ''reserved'', ''reserved'', ''reserved'', ''reserved'', ''reserved'', ''reserved'',
      ''reserved'', ''reserved'', ''reserved'', ''reserved'', ''reserved'']"

text \<open>A gate with the kernel's code selector and flags, as every call in \<open>idt_init\<close> makes it.\<close>

definition kernel_gate :: "(nat \<Rightarrow> u32) \<Rightarrow> nat \<Rightarrow> nat \<Rightarrow> 'z kernel_scheme \<Rightarrow> 'z kernel_scheme" where
  "kernel_gate stub num i = idt_gate_set (of_nat num) (stub i) GDT_OFFSET_KERNEL_CODE IDT_FLAG_KERNEL_INTERRUPT_GATE"

text \<open>\<open>_idt_flush\<close> loads the register from the given place, here the contents of \<open>idt_ptr\<close>, and turns interrupts on.\<close>

definition idt_flush :: "IdtRegister \<Rightarrow> 'z kernel_scheme \<Rightarrow> 'z kernel_scheme" where
  "idt_flush r s = s\<lparr>idtr := r, irq_enabled := True\<rparr>"

definition idt_init :: "u32 \<Rightarrow> (nat \<Rightarrow> u32) \<Rightarrow> (nat \<Rightarrow> u32) \<Rightarrow> 'z kernel_scheme \<Rightarrow> 'z kernel_scheme" where
  "idt_init idt_addr isr irq s =
     (let s = s\<lparr>idt_ptr := \<lparr>idtr_limit = 256 * 8 - 1, idtr_base = idt_addr\<rparr>\<rparr>;
          s = s\<lparr>idt_entries := \<lambda>_. \<lparr>base_low = 0, sel = 0, always0 = 0, flags = 0, base_high = 0\<rparr>\<rparr>;
          s = outb PIC1 ICW1_DEFAULT s;
          s = outb PIC2 ICW1_DEFAULT s;
          s = outb PIC1_DATA PIC1_VECTOR_OFFSET s;
          s = outb PIC2_DATA PIC2_VECTOR_OFFSET s;
          s = outb PIC1_DATA ICW3_SLAVE_ON_IRQ2 s;
          s = outb PIC2_DATA ICW3_IS_SLAVE s;
          s = outb PIC1_DATA ICW4_8086_MODE s;
          s = outb PIC2_DATA ICW4_8086_MODE s;
          s = outb PIC1_DATA PIC_IMR_UNMASK_ALL s;
          s = outb PIC2_DATA PIC_IMR_UNMASK_ALL s;
          s = fold (\<lambda>i. kernel_gate isr i i) [0..<32] s;
          s = fold (\<lambda>i. kernel_gate irq (32 + i) i) [0..<16] s;
          s = kernel_gate isr 128 128 s;
          s = kernel_gate isr 177 177 s;
          control_byte = PIT_SC_CHANNEL0 OR PIT_RW_LOBYTE_ONLY OR PIT_MODE_3_SQ_WAVE OR PIT_BIN_MODE;
          s = outb PIT_CMD_REG_PORT control_byte s;
          s = outb PIT_CH0_DATA_PORT 0 s;
          s = outb PIT_CH0_DATA_PORT 0 s
      in idt_flush (idt_ptr s) s)"

definition irq_install_handler :: "u32 \<Rightarrow> u32 \<Rightarrow> 'z kernel_scheme \<Rightarrow> 'z kernel_scheme" where
  "irq_install_handler irq handler s = s\<lparr>irq_routines := (irq_routines s)(irq := handler)\<rparr>"

definition irq_uninstall_handler :: "u32 \<Rightarrow> 'z kernel_scheme \<Rightarrow> 'z kernel_scheme" where
  "irq_uninstall_handler irq s = s\<lparr>irq_routines := (irq_routines s)(irq := NULL)\<rparr>"

definition isr_handler :: "Registers \<Rightarrow> 'z kernel_scheme \<Rightarrow> (unit, 'z kernel_scheme) kres option" where
  "isr_handler regs s =
     (if int_no regs < 32 then panicK (Abort (exception_messages ! unat (int_no regs))) else retK () s)"

definition irq_handler ::
  "(u32 \<Rightarrow> Registers \<Rightarrow> 'z kernel_scheme \<Rightarrow> (unit, 'z kernel_scheme) kres option) \<Rightarrow> Registers \<Rightarrow> 'z kernel_scheme
   \<Rightarrow> (unit, 'z kernel_scheme) kres option" where
  "irq_handler call regs s =
     (let handler = irq_routines s (int_no regs - 32)
      in bindK (if handler \<noteq> NULL then call handler regs s else retK () s) (\<lambda>_ s.
         let s = (if 40 \<le> int_no regs then outb PIC2 PIC_EOI s else s)
         in retK () (outb PIC1 PIC_EOI s)))"

section \<open>The table\<close>

text \<open>How the processor reads a gate: the handler's address, whether it is a present 32-bit interrupt
  gate, and the least privileged ring that may raise it with an \<open>int\<close> instruction.\<close>

definition gate_offset :: "IdtEntry \<Rightarrow> u32" where
  "gate_offset e = push_bit 16 (ucast (base_high e)) OR ucast (base_low e)"

definition gate_present :: "IdtEntry \<Rightarrow> bool" where
  "gate_present e \<longleftrightarrow> bit (flags e) 7"

definition gate_type :: "IdtEntry \<Rightarrow> u8" where
  "gate_type e = flags e AND 0x1F"

definition gate_dpl :: "IdtEntry \<Rightarrow> u8" where
  "gate_dpl e = drop_bit 5 (flags e) AND 3"

definition stub_of :: "(nat \<Rightarrow> u32) \<Rightarrow> (nat \<Rightarrow> u32) \<Rightarrow> u8 \<Rightarrow> u32 option" where
  "stub_of isr irq v =
     (if unat v < 32 then Some (isr (unat v)) else if unat v < 48 then Some (irq (unat v - 32))
      else if v = 128 \<or> v = 177 then Some (isr (unat v)) else None)"

lemma gate_offset_split: "push_bit 16 (ucast (ucast (drop_bit 16 b AND 0xFFFF) :: u16)) OR ucast (ucast (b AND 0xFFFF) :: u16) = b" for b :: u32
proof (rule bit_word_eqI)
  fix n assume n: "n < LENGTH(32)"
  have m: "bit (0xFFFF :: u32) k \<longleftrightarrow> k < 16" "bit (0xFFFF :: u16) k \<longleftrightarrow> k < 16" "bit (0xFFFF :: int) k \<longleftrightarrow> k < 16" for k
    using bit_mask_iff [of 16 k, where 'a = "32 word"] bit_mask_iff [of 16 k, where 'a = "16 word"] bit_mask_iff [of 16 k, where 'a = int]
    by (auto simp: mask_eq_exp_minus_1 simp del: bit_mask_iff)
  show "bit (push_bit 16 (ucast (ucast (drop_bit 16 b AND 0xFFFF) :: u16)) OR ucast (ucast (b AND 0xFFFF) :: u16) :: u32) n \<longleftrightarrow> bit b n"
    using n by (cases "n < 16") (auto simp: bit_simps m)
qed

lemma outb_simps [simp]:
  "idt_entries (outb p v s) = idt_entries s" "idt_ptr (outb p v s) = idt_ptr s" "irq_routines (outb p v s) = irq_routines s"
  "port_log (outb p v s) = (p, v) # port_log s" "heap.truncate (outb p v s) = heap.truncate s"
  by (simp_all add: outb_def heap.defs)

lemma kernel_gate_simps [simp]:
  "idt_ptr (kernel_gate f k i s) = idt_ptr s" "irq_routines (kernel_gate f k i s) = irq_routines s" "port_log (kernel_gate f k i s) = port_log s"
  by (simp_all add: kernel_gate_def idt_gate_set_def)

definition gate :: "u32 \<Rightarrow> IdtEntry" where
  "gate a = \<lparr>base_low = ucast (a AND 0xFFFF), sel = 8, always0 = 0, flags = 0xEE, base_high = ucast (drop_bit 16 a AND 0xFFFF)\<rparr>"

lemma kernel_gate_entries: "idt_entries (kernel_gate f k i s) = (idt_entries s)(of_nat k := gate (f i))"
  by (simp add: kernel_gate_def idt_gate_set_def gate_def)

lemma fold_gates_fields [simp]:
  "idt_ptr (fold (\<lambda>i. kernel_gate f (k i) i) xs s) = idt_ptr s"
  "irq_routines (fold (\<lambda>i. kernel_gate f (k i) i) xs s) = irq_routines s"
  "port_log (fold (\<lambda>i. kernel_gate f (k i) i) xs s) = port_log s"
  by (induction xs arbitrary: s) simp_all

lemma fold_gates:
  "b + n \<le> 256 \<Longrightarrow> idt_entries (fold (\<lambda>i. kernel_gate f (b + i) i) [0..<n] s) v =
      (if b \<le> unat v \<and> unat v < b + n then gate (f (unat v - b)) else idt_entries s v)"
proof (induction n)
  case (Suc n)
  have "unat (of_nat (b + n) :: u8) = b + n" using Suc.prems by (simp add: unat_of_nat del: of_nat_add)
  then have "v = of_nat (b + n) \<longleftrightarrow> unat v = b + n" by (simp add: word_unat_eq_iff del: of_nat_add)
  with Suc show ?case by (auto simp: kernel_gate_entries simp del: of_nat_add)
qed auto

lemma idt_init_entries:
  "idt_entries (idt_init a isr irq s) v =
     (case stub_of isr irq v of Some f \<Rightarrow> gate f | None \<Rightarrow> \<lparr>base_low = 0, sel = 0, always0 = 0, flags = 0, base_high = 0\<rparr>)"
proof -
  have v: "v = 128 \<longleftrightarrow> unat v = 128" "v = 177 \<longleftrightarrow> unat v = 177" by (auto simp: word_unat_eq_iff)
  show ?thesis
    using v by (simp add: idt_init_def idt_flush_def Let_def kernel_gate_entries stub_of_def fold_gates [of 0 32 isr, simplified] fold_gates [of 32 16 irq])
qed

section \<open>Properties\<close>

text \<open>C21: the table \<open>idt_init\<close> loads. Every exception, every interrupt line and the vectors 128 and 177
  have a present 32-bit interrupt gate through the kernel's code segment whose offset is exactly
  the address of the vector's stub, and no other vector has one. All these gates can be raised
  from ring 3. The register holds the table's address and its size less one.\<close>

theorem idt_init_gates:
  "let t = idt_init idt_addr isr irq s in
     idtr t = \<lparr>idtr_limit = 2047, idtr_base = idt_addr\<rparr> \<and>
     (\<forall>v. case stub_of isr irq v of
        Some f \<Rightarrow> gate_present (idt_entries t v) \<and> gate_offset (idt_entries t v) = f \<and> sel (idt_entries t v) = 8
                \<and> gate_type (idt_entries t v) = 0x0E \<and> gate_dpl (idt_entries t v) = 3
      | None \<Rightarrow> \<not> gate_present (idt_entries t v))"
proof -
  have "idtr (idt_init idt_addr isr irq s) = \<lparr>idtr_limit = 2047, idtr_base = idt_addr\<rparr>"
    by (simp add: idt_init_def idt_flush_def Let_def)
  moreover have "gate_present (gate f)" "gate_offset (gate f) = f" "sel (gate f) = 8" "gate_type (gate f) = 0x0E" "gate_dpl (gate f) = 3" for f
    using gate_offset_split [of f] by (simp_all add: gate_present_def gate_offset_def gate_type_def gate_dpl_def gate_def)
  ultimately show ?thesis
    unfolding Let_def by (auto simp: idt_init_entries gate_present_def split: option.splits)
qed

text \<open>Dispatch of an interrupt line. The handler installed for the line runs, and when it returns
  the interrupt is acknowledged: at the second controller too exactly for the lines 8 to 15, and
  always at the first; a line without a handler is only acknowledged.\<close>

theorem irq_handler_dispatch:
  assumes "32 \<le> int_no regs" and "int_no regs < 48"
    and "irq_routines s (int_no regs - 32) \<noteq> NULL \<Longrightarrow> call (irq_routines s (int_no regs - 32)) regs s = retK () t"
    and "irq_routines s (int_no regs - 32) = NULL \<Longrightarrow> t = s"
  shows "\<exists>t'. irq_handler call regs s = retK () t' \<and> t'\<lparr>port_log := port_log t\<rparr> = t
    \<and> port_log t' = (if 8 \<le> int_no regs - 32 then [(PIC1, PIC_EOI), (PIC2, PIC_EOI)] else [(PIC1, PIC_EOI)]) @ port_log t"
proof -
  have "8 \<le> int_no regs - 32 \<longleftrightarrow> 40 \<le> int_no regs" using assms(1) by (simp add: word_nat unat_sub32) arith
  with assms(3,4) show ?thesis
    by (cases "irq_routines s (int_no regs - 32) = NULL") (auto simp: irq_handler_def Let_def outb_def)
qed

text \<open>A kernel with a one-block heap and a handler for line 9, for the witnesses.\<close>

definition idle_kernel :: "'z \<Rightarrow> 'z kernel_scheme" where
  "idle_kernel z = one_page_heap (one_block 1 0xC0121000 (\<lambda>_. 0)) 0xC0400000 0xC0121000
     \<lparr>idt_entries = \<lambda>_. \<lparr>base_low = 0, sel = 0, always0 = 0, flags = 0, base_high = 0\<rparr>, idt_ptr = \<lparr>idtr_limit = 0, idtr_base = 0\<rparr>,
      idtr = \<lparr>idtr_limit = 0, idtr_base = 0\<rparr>, irq_routines = (\<lambda>_. 0)(9 := 0xC0105000), port_log = [], \<dots> = z\<rparr>"

text \<open>Line 9, whose handler returns at once.\<close>

theorem irq_handler_dispatch_witness:
  "\<exists>t'. irq_handler (\<lambda>_ _ s. retK () s) \<lparr>int_no = 41, err_code = 0\<rparr> (idle_kernel ()) = retK () t'
     \<and> port_log t' = [(PIC1, PIC_EOI), (PIC2, PIC_EOI)]"
  using irq_handler_dispatch [of "\<lparr>int_no = 41, err_code = 0\<rparr>" "idle_kernel ()" "\<lambda>_ _ s. retK () s" "idle_kernel ()"]
  by (auto simp: idle_kernel_def one_page_heap_def three_tasks_def empty_space_def)

end
