(* ===== verification/Tasks.thy ===== *)
theory Tasks
  imports Scheduler
begin

text \<open>
  Blocking, waking, sleeping and ending tasks (\<open>scheduler/task.c\<close>, \<open>scheduler/sleep.c\<close> and
  \<open>mark_task_for_death\<close> of \<open>scheduler/scheduler.c\<close>): the lists of ready, sleeping and dead tasks
  that run through the \<open>next\<close> fields of the task control blocks.
\<close>

section \<open>Operations\<close>

text \<open>One search loop of \<open>get_task_state\<close>; the inner \<open>None\<close> is its end without a hit.\<close>

partial_function (option) find_task_state :: "'z sched_scheme \<Rightarrow> u32 \<Rightarrow> u32 \<Rightarrow> u32 option option" where
  "find_task_state s pid node =
     (if node \<noteq> NULL then
        if tid (tcb s node) = pid then Some (Some (state (tcb s node)))
        else find_task_state s pid (tnext (tcb s node))
      else Some None)"

definition get_task_state :: "u32 \<Rightarrow> 'z sched_scheme \<Rightarrow> u32 option" where
  "get_task_state pid s =
     (if current_task_PCB s \<noteq> NULL \<and> tid (tcb s (current_task_PCB s)) = pid
      then Some (state (tcb s (current_task_PCB s)))
      else case find_task_state s pid (first_ready_to_run_task s) of None \<Rightarrow> None | Some (Some st) \<Rightarrow> Some st | Some None \<Rightarrow>
           case find_task_state s pid (sleeping_taskes s) of None \<Rightarrow> None | Some (Some st) \<Rightarrow> Some st | Some None \<Rightarrow>
           case find_task_state s pid (dead_tasks s) of None \<Rightarrow> None | Some (Some st) \<Rightarrow> Some st | Some None \<Rightarrow>
           Some (- 1))"

definition block_task :: "u32 \<Rightarrow> 'z sched_scheme \<Rightarrow> (unit, 'z sched_scheme) kres option" where
  "block_task reason s =
     (let s = lock_scheduler s;
          s = upd_tcb (current_task_PCB s) (\<lambda>t. t\<lparr>state := reason\<rparr>) s
      in bindK (unlock_scheduler s) (\<lambda>_ s. schedule s))"

definition enqueue_ready :: "u32 \<Rightarrow> 'z sched_scheme \<Rightarrow> 'z sched_scheme" where
  "enqueue_ready task s =
     (if first_ready_to_run_task s = NULL then s\<lparr>first_ready_to_run_task := task, last_ready_to_run_task := task\<rparr>
      else (upd_tcb (last_ready_to_run_task s) (\<lambda>t. t\<lparr>tnext := task\<rparr>) s)\<lparr>last_ready_to_run_task := task\<rparr>)"

definition unblock_task :: "u32 \<Rightarrow> 'z sched_scheme \<Rightarrow> (unit, 'z sched_scheme) kres option" where
  "unblock_task task s =
     (let s = lock_scheduler s;
          s = upd_tcb task (\<lambda>t. t\<lparr>state := TASK_STATE_READY_TO_RUN, tnext := NULL\<rparr>) s
      in unlock_scheduler (enqueue_ready task s))"

definition push_dead :: "'z sched_scheme \<Rightarrow> 'z sched_scheme" where
  "push_dead s =
     (let s = upd_tcb (current_task_PCB s) (\<lambda>t. t\<lparr>tnext := dead_tasks s\<rparr>) s
      in s\<lparr>dead_tasks := current_task_PCB s\<rparr>)"

definition terminate_task :: "'z sched_scheme \<Rightarrow> (unit, 'z sched_scheme) kres option" where
  "terminate_task s =
     (let s = push_dead (lock_scheduler s)
      in bindK (unlock_scheduler s) (\<lambda>_ s.
         bindK (block_task TASK_STATE_TERMINATED s) (\<lambda>_ s.
         panicK (Abort ''task terminate_task returned: no other taskes ready to run. ie: you fucked up''))))"

text \<open>The code a task's function returns to.\<close>

definition mark_task_for_death :: "'z sched_scheme \<Rightarrow> (unit, 'z sched_scheme) kres option" where
  "mark_task_for_death s =
     (let s = lock_scheduler s;
          s = upd_tcb (current_task_PCB s) (\<lambda>t. t\<lparr>state := TASK_STATE_DEAD\<rparr>) s;
          s = push_dead s
      in bindK (unlock_scheduler s) (\<lambda>_ s.
         bindK (schedule s) (\<lambda>_ s.
         panicK (Abort ''task cleanup task returned: no other taskes ready to run. ie: you fucked up''))))"

definition get_current_task_time_used :: "'z sched_scheme \<Rightarrow> u64 \<times> 'z sched_scheme" where
  "get_current_task_time_used s =
     (let s = update_time_used s in (time_used (tcb s (current_task_PCB s)), s))"

text \<open>The argument is a \<open>uint32_t\<close>, stored to a \<open>uint64_t\<close>.\<close>

definition micro_sleep_until :: "u32 \<Rightarrow> 'z sched_scheme \<Rightarrow> (unit, 'z sched_scheme) kres option" where
  "micro_sleep_until micro_seconds s =
     (let s = lock_scheduler s;
          s = upd_tcb (current_task_PCB s) (\<lambda>t. t\<lparr>target_wakeup_time := ucast micro_seconds\<rparr>) s;
          s = upd_tcb (current_task_PCB s) (\<lambda>t. t\<lparr>tnext := sleeping_taskes s\<rparr>) s;
          s = s\<lparr>sleeping_taskes := current_task_PCB s\<rparr>
      in bindK (unlock_scheduler s) (\<lambda>_ s. block_task TASK_STATE_SLEEPING s))"

definition micro_sleep :: "u32 \<Rightarrow> 'z sched_scheme \<Rightarrow> (unit, 'z sched_scheme) kres option" where
  "micro_sleep micro_seconds s = micro_sleep_until (ucast (read_ticks_since_boot s + ucast micro_seconds)) s"

definition sleep :: "u32 \<Rightarrow> 'z sched_scheme \<Rightarrow> (unit, 'z sched_scheme) kres option" where
  "sleep seconds s = micro_sleep (seconds * 1000) s"

partial_function (option) awoken_loop ::
  "u64 \<Rightarrow> u32 \<Rightarrow> u32 \<Rightarrow> 'z sched_scheme \<Rightarrow> (unit, 'z sched_scheme) kres option" where
  "awoken_loop ticks prev cur s =
     (if cur \<noteq> NULL then
        let nxt = tnext (tcb s cur)
        in if target_wakeup_time (tcb s cur) \<le> ticks then
             bindK (unblock_task cur (if prev = NULL then s\<lparr>sleeping_taskes := nxt\<rparr>
                                       else upd_tcb prev (\<lambda>t. t\<lparr>tnext := nxt\<rparr>) s)) (\<lambda>_ s.
             awoken_loop ticks prev nxt s)
           else awoken_loop ticks cur nxt s
      else retK () s)"

definition internal_update_awoken_taskes :: "u64 \<Rightarrow> 'z sched_scheme \<Rightarrow> (unit, 'z sched_scheme) kres option" where
  "internal_update_awoken_taskes ticks s =
     (let s = lock_scheduler s
      in bindK (awoken_loop ticks NULL (sleeping_taskes s) s) (\<lambda>_ s. unlock_scheduler s))"

section \<open>Lists of tasks\<close>

definition sleepers :: "'z sched_scheme \<Rightarrow> u32 list \<Rightarrow> bool" where
  "sleepers s xs \<longleftrightarrow> chain (tnexts s) (sleeping_taskes s) xs"

definition dead :: "'z sched_scheme \<Rightarrow> u32 list \<Rightarrow> bool" where
  "dead s xs \<longleftrightarrow> chain (tnexts s) (dead_tasks s) xs"

lemma ready_queue_distinct: "ready_queue s xs \<Longrightarrow> distinct xs" "ready_queue s xs \<Longrightarrow> NULL \<notin> set xs"
  by (auto simp: ready_queue_def dest: chain_distinct chain_not_NULL)

lemma ready_queue_first: "ready_queue s xs \<Longrightarrow> first_ready_to_run_task s = NULL \<longleftrightarrow> xs = []"
  by (auto simp: ready_queue_def dest: chain_NULL)

lemma enqueue_ready_queue:
  assumes "ready_queue s xs" and "t \<noteq> NULL" and "t \<notin> set xs" and "tnext (tcb s t) = NULL"
  shows "ready_queue (enqueue_ready t s) (xs @ [t])"
proof (cases "xs = []")
  case True
  with assms ready_queue_first [OF assms(1)] show ?thesis by (simp add: ready_queue_def enqueue_ready_def)
next
  case False
  have "last_ready_to_run_task s = last xs" "first_ready_to_run_task s \<noteq> NULL"
    using False assms(1) ready_queue_first [OF assms(1)] by (auto simp: ready_queue_def)
  moreover have "last xs \<noteq> t" "last xs \<noteq> NULL"
    using assms(3) ready_queue_distinct(2) [OF assms(1)] last_in_set [OF False] by metis+
  ultimately have l: "last_ready_to_run_task s = last xs" "first_ready_to_run_task s \<noteq> NULL" "last xs \<noteq> t" "last xs \<noteq> NULL" by auto
  have "tnexts (enqueue_ready t s) = (tnexts s)(last xs := t, t := NULL)"
    using l assms(4) by (auto simp: enqueue_ready_def fun_eq_iff)
  with chain_snoc [of "tnexts s" "first_ready_to_run_task s" xs t] assms False l show ?thesis
    by (simp add: ready_queue_def enqueue_ready_def del: fun_upd_apply)
qed

lemma enqueue_ready_simps [simp]:
  "state (tcb (enqueue_ready t s) p) = state (tcb s p)" "tid (tcb (enqueue_ready t s) p) = tid (tcb s p)"
  "target_wakeup_time (tcb (enqueue_ready t s) p) = target_wakeup_time (tcb s p)"
  "sleeping_taskes (enqueue_ready t s) = sleeping_taskes s" "dead_tasks (enqueue_ready t s) = dead_tasks s"
  "current_task_PCB (enqueue_ready t s) = current_task_PCB s" "same_lock r (enqueue_ready t s) = same_lock r s"
  "ticks_since_boot (enqueue_ready t s) = ticks_since_boot s" "sched.more (enqueue_ready t s) = sched.more s"
  "IRQ_disable_counter (enqueue_ready t s) = IRQ_disable_counter s" "irq_enabled (enqueue_ready t s) = irq_enabled s"
  "postpone_task_switches_counter (enqueue_ready t s) = postpone_task_switches_counter s"
  "task_switches_postponed_flag (enqueue_ready t s) = task_switches_postponed_flag s"
  by (auto simp: enqueue_ready_def same_lock_def)

lemma enqueue_ready_tnext:
  assumes "ready_queue s xs" and "p \<notin> set xs"
  shows "tnext (tcb (enqueue_ready t s) p) = tnext (tcb s p)"
  using assms ready_queue_first [OF assms(1)] last_in_set [of xs] by (auto simp: enqueue_ready_def ready_queue_def)

lemma upd_tcb_lock [simp]: "same_lock r (upd_tcb p f s) = same_lock r s"
  by (simp add: same_lock_def)

lemma unlocked_simps [simp]:
  "tcb (unlocked r s) = tcb s" "first_ready_to_run_task (unlocked r s) = first_ready_to_run_task s"
  "last_ready_to_run_task (unlocked r s) = last_ready_to_run_task s" "sleeping_taskes (unlocked r s) = sleeping_taskes s"
  "dead_tasks (unlocked r s) = dead_tasks s" "current_task_PCB (unlocked r s) = current_task_PCB s"
  "resume (unlocked r s) = resume s" "ticks_since_boot (unlocked r s) = ticks_since_boot s" "last_tick (unlocked r s) = last_tick s"
  "postpone_task_switches_counter (unlocked r s) = postpone_task_switches_counter r"
  "IRQ_disable_counter (unlocked r s) = IRQ_disable_counter r"
  "task_switches_postponed_flag (unlocked r s) = task_switches_postponed_flag s"
  "irq_enabled (unlocked r s) = (IRQ_disable_counter r = 0)" "sched.more (unlocked r s) = sched.more s"
  by (simp_all add: unlocked_def)

lemma lock_scheduler_simps [simp]:
  "tcb (lock_scheduler s) = tcb s" "first_ready_to_run_task (lock_scheduler s) = first_ready_to_run_task s"
  "last_ready_to_run_task (lock_scheduler s) = last_ready_to_run_task s" "sleeping_taskes (lock_scheduler s) = sleeping_taskes s"
  "dead_tasks (lock_scheduler s) = dead_tasks s" "current_task_PCB (lock_scheduler s) = current_task_PCB s"
  "resume (lock_scheduler s) = resume s" "ticks_since_boot (lock_scheduler s) = ticks_since_boot s" "last_tick (lock_scheduler s) = last_tick s"
  "task_switches_postponed_flag (lock_scheduler s) = task_switches_postponed_flag s" "sched.more (lock_scheduler s) = sched.more s"
  by (simp_all add: lock_scheduler_def)

lemma ready_queue_cong:
  assumes "first_ready_to_run_task t = first_ready_to_run_task s" "last_ready_to_run_task t = last_ready_to_run_task s"
    "\<And>p. p \<in> set xs \<Longrightarrow> tnext (tcb t p) = tnext (tcb s p)"
  shows "ready_queue t xs = ready_queue s xs"
  using chain_cong [of xs "tnexts t" "tnexts s"] assms by (simp add: ready_queue_def)

text \<open>What waking a task does.\<close>

lemma unblock_task_spec:
  assumes "lock_ok 0 s" and "ready_queue s rs" and "t \<noteq> NULL" and "t \<notin> set rs"
  shows "\<exists>s'. unblock_task t s = retK () s' \<and> ready_queue s' (rs @ [t])
    \<and> (\<forall>p. state (tcb s' p) = (if p = t then TASK_STATE_READY_TO_RUN else state (tcb s p)))
    \<and> (\<forall>p. p \<notin> insert t (set rs) \<longrightarrow> tnext (tcb s' p) = tnext (tcb s p))
    \<and> (\<forall>p. target_wakeup_time (tcb s' p) = target_wakeup_time (tcb s p) \<and> tid (tcb s' p) = tid (tcb s p))
    \<and> sleeping_taskes s' = sleeping_taskes s \<and> dead_tasks s' = dead_tasks s \<and> current_task_PCB s' = current_task_PCB s
    \<and> IRQ_disable_counter s' = IRQ_disable_counter s \<and> postpone_task_switches_counter s' = postpone_task_switches_counter s
    \<and> task_switches_postponed_flag s' = task_switches_postponed_flag s \<and> irq_enabled s' = (IRQ_disable_counter s = 0)
    \<and> sched.more s' = sched.more s \<and> ticks_since_boot s' = ticks_since_boot s"
proof -
  let ?u = "upd_tcb t (\<lambda>x. x\<lparr>state := TASK_STATE_READY_TO_RUN, tnext := NULL\<rparr>) (lock_scheduler s)"
  let ?t = "enqueue_ready t ?u"
  have q: "ready_queue ?u rs" using assms(2,4) by (subst ready_queue_cong [of _ s]) auto
  have "same_lock (lock_scheduler s) ?t" by (simp add: same_lock_def)
  then have "unblock_task t s = retK () (unlocked s ?t)"
    using unlock_locked [OF assms(1)] by (simp add: unblock_task_def Let_def)
  moreover have "ready_queue (unlocked s ?t) (rs @ [t])"
    using enqueue_ready_queue [OF q assms(3,4)] by (subst ready_queue_cong [of _ ?t]) simp_all
  moreover have "tnext (tcb ?t p) = tnext (tcb s p)" if "p \<notin> insert t (set rs)" for p
    using enqueue_ready_tnext [OF q, of p] that by simp
  ultimately show ?thesis by (intro exI [of _ "unlocked s ?t"]) simp
qed


section \<open>The tick handler\<close>

definition due :: "u64 \<Rightarrow> 'z sched_scheme \<Rightarrow> u32 \<Rightarrow> bool" where
  "due ticks s p \<longleftrightarrow> target_wakeup_time (tcb s p) \<le> ticks"

text \<open>The effect of waking the tasks \<open>ws\<close>, in this order.\<close>

definition woken :: "u32 list \<Rightarrow> u32 list \<Rightarrow> 'z sched_scheme \<Rightarrow> 'z sched_scheme \<Rightarrow> bool" where
  "woken rs ws s s' \<longleftrightarrow> ready_queue s' (rs @ ws)
     \<and> (\<forall>p. state (tcb s' p) = (if p \<in> set ws then TASK_STATE_READY_TO_RUN else state (tcb s p)))
     \<and> (\<forall>p. target_wakeup_time (tcb s' p) = target_wakeup_time (tcb s p) \<and> tid (tcb s' p) = tid (tcb s p))
     \<and> dead_tasks s' = dead_tasks s \<and> current_task_PCB s' = current_task_PCB s \<and> same_lock s s'
     \<and> sched.more s' = sched.more s \<and> ticks_since_boot s' = ticks_since_boot s"

lemma woken_step:
  assumes "woken rs [t] s s1" and "woken (rs @ [t]) ws s1 s2"
  shows "woken rs (t # ws) s s2"
  using assms by (auto simp: woken_def same_lock_def)

text \<open>One task that is due: it leaves the sleeping list and goes to the end of the ready queue.\<close>

lemma awoken_loop_due:
  assumes "sleepers s (pre @ x # xs)" and "prev = (if pre = [] then NULL else last pre)" and "ready_queue s rs"
    and "set rs \<inter> set (pre @ x # xs) = {}" and "lock_ok 0 s" and "IRQ_disable_counter s \<noteq> 0" and "\<not> irq_enabled s" and "due ticks s x"
  shows "\<exists>v. awoken_loop ticks prev x s = awoken_loop ticks prev (tnext (tcb s x)) v \<and> sleepers v (pre @ xs) \<and> ready_queue v (rs @ [x])
    \<and> woken rs [x] s v \<and> lock_ok 0 v \<and> IRQ_disable_counter v \<noteq> 0 \<and> \<not> irq_enabled v \<and> due ticks v = due ticks s"
proof -
  have ch: "chain (tnexts s) (sleeping_taskes s) (pre @ x # xs)" using assms(1) by (simp add: sleepers_def)
  have dist: "distinct (pre @ x # xs)" using ch by (rule chain_distinct)
  have x: "x \<noteq> NULL" using chain_append [OF ch] by auto
  define u where "u = (if prev = NULL then s\<lparr>sleeping_taskes := tnext (tcb s x)\<rparr> else upd_tcb prev (\<lambda>t. t\<lparr>tnext := tnext (tcb s x)\<rparr>) s)"
  have prev: "prev = NULL \<longleftrightarrow> pre = []"
    using assms(2) chain_not_NULL [OF ch] last_in_set [of pre] by (metis Un_iff set_append)
  have su: "sleepers u (pre @ xs)"
  proof (cases "pre = []")
    case True
    with prev ch show ?thesis by (simp add: u_def sleepers_def)
  next
    case False
    have "tnexts u = (tnexts s)(last pre := tnext (tcb s x))" "sleeping_taskes u = sleeping_taskes s"
      using False prev assms(2) by (auto simp: u_def)
    with chain_remove [OF ch False] show ?thesis by (simp add: sleepers_def)
  qed
  have same: "state (tcb u p) = state (tcb s p)" "target_wakeup_time (tcb u p) = target_wakeup_time (tcb s p)"
    "tid (tcb u p) = tid (tcb s p)" "dead_tasks u = dead_tasks s" "current_task_PCB u = current_task_PCB s" "same_lock s u"
    "sched.more u = sched.more s" "lock_ok 0 u" "IRQ_disable_counter u = IRQ_disable_counter s" "ticks_since_boot u = ticks_since_boot s" for p
    using assms(5) by (auto simp: u_def same_lock_def lock_ok_def)
  have notin: "x \<notin> set rs" "prev \<notin> set rs"
    using assms(2,4) ready_queue_distinct(2) [OF assms(3)] last_in_set [of pre] by (auto split: if_splits)
  have qu: "ready_queue u rs" using assms(3) notin by (subst ready_queue_cong [of _ s]) (auto simp: u_def)
  from unblock_task_spec [OF same(8) qu x notin(1)] obtain v where v: "unblock_task x u = retK () v" "ready_queue v (rs @ [x])"
    "\<And>p. state (tcb v p) = (if p = x then TASK_STATE_READY_TO_RUN else state (tcb u p))"
    "\<And>p. p \<notin> insert x (set rs) \<Longrightarrow> tnext (tcb v p) = tnext (tcb u p)"
    "\<And>p. target_wakeup_time (tcb v p) = target_wakeup_time (tcb u p)" "\<And>p. tid (tcb v p) = tid (tcb u p)"
    "sleeping_taskes v = sleeping_taskes u" "dead_tasks v = dead_tasks u" "current_task_PCB v = current_task_PCB u"
    "IRQ_disable_counter v = IRQ_disable_counter u" "postpone_task_switches_counter v = postpone_task_switches_counter u"
    "task_switches_postponed_flag v = task_switches_postponed_flag u" "irq_enabled v = (IRQ_disable_counter u = 0)" "sched.more v = sched.more u"
    "ticks_since_boot v = ticks_since_boot u" by blast
  have "woken rs [x] s v" using v same assms(6,7) by (auto simp: woken_def same_lock_def)
  moreover have "tnexts v p = tnexts u p" if "p \<in> set (pre @ xs)" for p
    using that dist assms(4) by (intro v(4)) auto
  from chain_cong [of "pre @ xs" "tnexts v" "tnexts u", OF this] su v(7) have "sleepers v (pre @ xs)" by (simp add: sleepers_def)
  moreover have "lock_ok 0 v" "IRQ_disable_counter v \<noteq> 0" "\<not> irq_enabled v" using v(10-13) same(8,9) assms(6) by (auto simp: lock_ok_def)
  moreover have "due ticks v = due ticks s" using v(5) same(2) by (auto simp: due_def)
  moreover have "awoken_loop ticks prev x s = awoken_loop ticks prev (tnext (tcb s x)) v"
    using x assms(8) v(1) by (subst awoken_loop.simps) (simp add: due_def flip: u_def)
  ultimately show ?thesis using v(2) by blast
qed

lemma awoken_loop_spec:
  assumes "sleepers s (pre @ xs)" and "prev = (if pre = [] then NULL else last pre)" and "cur = (if xs = [] then NULL else hd xs)"
    and "ready_queue s rs" and "set rs \<inter> set (pre @ xs) = {}" and "lock_ok 0 s" and "IRQ_disable_counter s \<noteq> 0" and "\<not> irq_enabled s"
  shows "\<exists>s'. awoken_loop ticks prev cur s = retK () s' \<and> sleepers s' (pre @ filter (\<lambda>p. \<not> due ticks s p) xs)
    \<and> woken rs (filter (due ticks s) xs) s s'"
  using assms
proof (induction xs arbitrary: pre prev cur s rs)
  case Nil
  then show ?case by (subst awoken_loop.simps) (auto simp: woken_def same_lock_def)
next
  case (Cons x xs)
  have ch: "chain (tnexts s) (sleeping_taskes s) (pre @ x # xs)" using Cons.prems(1) by (simp add: sleepers_def)
  have x: "cur = x" "x \<noteq> NULL" "chain (tnexts s) (tnext (tcb s x)) xs" using chain_append [OF ch] Cons.prems(3) by auto
  then have nxt: "tnext (tcb s x) = (if xs = [] then NULL else hd xs)" by (cases xs) auto
  show ?case
  proof (cases "due ticks s x")
    case False
    have "awoken_loop ticks prev cur s = awoken_loop ticks x (tnext (tcb s x)) s"
      using x False by (subst awoken_loop.simps) (simp add: due_def)
    with Cons.IH [of s "pre @ [x]" x "tnext (tcb s x)" rs] Cons.prems nxt False show ?thesis by simp
  next
    case True
    from awoken_loop_due [OF Cons.prems(1,2,4-8) True] obtain v where
      v: "awoken_loop ticks prev x s = awoken_loop ticks prev (tnext (tcb s x)) v" "sleepers v (pre @ xs)" "ready_queue v (rs @ [x])"
        "woken rs [x] s v" "lock_ok 0 v" "IRQ_disable_counter v \<noteq> 0" "\<not> irq_enabled v" "due ticks v = due ticks s" by blast
    have "set (rs @ [x]) \<inter> set (pre @ xs) = {}" using Cons.prems(5) chain_distinct [OF ch] by auto
    with v obtain s' where s': "awoken_loop ticks prev (tnext (tcb s x)) v = retK () s'"
      "sleepers s' (pre @ filter (\<lambda>p. \<not> due ticks v p) xs)" "woken (rs @ [x]) (filter (due ticks v) xs) v s'"
      using Cons.IH [of v pre prev "tnext (tcb s x)" "rs @ [x]"] Cons.prems(2) nxt by blast
    with v(1,8) x(1) woken_step [OF v(4)] True show ?thesis by (intro exI [of _ s']) simp
  qed
qed

lemma update_awoken_spec:
  assumes "sleepers s xs" and "ready_queue s rs" and "set rs \<inter> set xs = {}" and "lock_ok 1 s"
  shows "\<exists>s'. internal_update_awoken_taskes ticks s = retK () s' \<and> sleepers s' (filter (\<lambda>p. \<not> due ticks s p) xs)
    \<and> ready_queue s' (rs @ filter (due ticks s) xs)
    \<and> (\<forall>p. state (tcb s' p) = (if p \<in> set xs \<and> due ticks s p then TASK_STATE_READY_TO_RUN else state (tcb s p)))
    \<and> (\<forall>p. target_wakeup_time (tcb s' p) = target_wakeup_time (tcb s p) \<and> tid (tcb s' p) = tid (tcb s p))
    \<and> dead_tasks s' = dead_tasks s \<and> current_task_PCB s' = current_task_PCB s
    \<and> IRQ_disable_counter s' = IRQ_disable_counter s \<and> postpone_task_switches_counter s' = postpone_task_switches_counter s
    \<and> task_switches_postponed_flag s' = task_switches_postponed_flag s \<and> irq_enabled s' = (IRQ_disable_counter s = 0)
    \<and> sched.more s' = sched.more s \<and> ticks_since_boot s' = ticks_since_boot s"
proof -
  let ?l = "lock_scheduler s"
  have l: "sleepers ?l ([] @ xs)" "ready_queue ?l rs" "due ticks ?l = due ticks s" "\<not> irq_enabled ?l"
    using assms(1,2) by (auto simp: sleepers_def ready_queue_def due_def lock_scheduler_def)
  have lk: "lock_ok 0 ?l" using assms(4) lock_ok_lock [of 0 s] by simp
  have "IRQ_disable_counter ?l \<noteq> 0"
    using assms(4) unat_inc32 [of "IRQ_disable_counter s"] by (auto simp: lock_ok_def lock_scheduler_def unat_eq_0 [symmetric])
  moreover have "sleeping_taskes ?l = (if xs = [] then NULL else hd xs)" using assms(1) by (cases xs) (auto simp: sleepers_def)
  moreover have "set rs \<inter> set ([] @ xs) = {}" using assms(3) by simp
  ultimately obtain t where t: "awoken_loop ticks NULL (sleeping_taskes ?l) ?l = retK () t"
    "sleepers t (filter (\<lambda>p. \<not> due ticks s p) xs)" "woken rs (filter (due ticks s) xs) ?l t"
    using awoken_loop_spec [OF l(1) _ _ l(2) _ lk _ l(4), of NULL "sleeping_taskes ?l" ticks] l(3) by auto
  then have "same_lock ?l t" by (simp add: woken_def)
  from unlock_locked [OF assms(4) this] t(1)
  have "internal_update_awoken_taskes ticks s = retK () (unlocked s t)"
    by (simp add: internal_update_awoken_taskes_def)
  moreover have "sleepers (unlocked s t) (filter (\<lambda>p. \<not> due ticks s p) xs)" "ready_queue (unlocked s t) (rs @ filter (due ticks s) xs)"
    using t(2,3) by (simp_all add: sleepers_def ready_queue_def woken_def)
  ultimately show ?thesis
    using t(3) by (intro exI [of _ "unlocked s t"]) (auto simp: woken_def same_lock_def)
qed

section \<open>Looking up, ending and blocking tasks\<close>

lemma find_task_state_spec:
  "chain (tnexts s) a xs \<Longrightarrow>
   find_task_state s pid a = Some (map_option (\<lambda>p. state (tcb s p)) (find (\<lambda>p. tid (tcb s p) = pid) xs))"
proof (induction xs arbitrary: a)
  case Nil
  then show ?case by (subst find_task_state.simps) simp
next
  case (Cons x xs)
  then show ?case by (subst find_task_state.simps) auto
qed

text \<open>The state after the locked part of \<open>block_task\<close>.\<close>

definition blocked :: "u32 \<Rightarrow> 'z sched_scheme \<Rightarrow> 'z sched_scheme" where
  "blocked reason s = (upd_tcb (current_task_PCB s) (\<lambda>t. t\<lparr>state := reason\<rparr>) s)\<lparr>irq_enabled := (IRQ_disable_counter s = 0)\<rparr>"

lemma block_task_eq:
  assumes "lock_ok k s"
  shows "block_task reason s = schedule (blocked reason s)"
proof -
  let ?t = "upd_tcb (current_task_PCB s) (\<lambda>t. t\<lparr>state := reason\<rparr>) (lock_scheduler s)"
  have "same_lock (lock_scheduler s) ?t" by (simp add: same_lock_def)
  from unlock_locked [OF assms this]
  have "block_task reason s = schedule (unlocked s ?t)" by (simp add: block_task_def Let_def)
  also have "unlocked s ?t = blocked reason s" by (simp add: blocked_def unlocked_def upd_tcb_def lock_scheduler_def)
  finally show ?thesis .
qed

lemma blocked_simps [simp]:
  "first_ready_to_run_task (blocked r s) = first_ready_to_run_task s" "last_ready_to_run_task (blocked r s) = last_ready_to_run_task s"
  "current_task_PCB (blocked r s) = current_task_PCB s" "tnext (tcb (blocked r s) p) = tnext (tcb s p)"
  "state (tcb (blocked r s) p) = (if p = current_task_PCB s then r else state (tcb s p))"
  "target_wakeup_time (tcb (blocked r s) p) = target_wakeup_time (tcb s p)"
  "sleeping_taskes (blocked r s) = sleeping_taskes s" "dead_tasks (blocked r s) = dead_tasks s"
  "postpone_task_switches_counter (blocked r s) = postpone_task_switches_counter s"
  "task_switches_postponed_flag (blocked r s) = task_switches_postponed_flag s"
  "IRQ_disable_counter (blocked r s) = IRQ_disable_counter s"
  by (simp_all add: blocked_def)

lemma ready_queue_blocked [simp]: "ready_queue (blocked r s) xs = ready_queue s xs"
  by (rule ready_queue_cong) simp_all

lemma schedule_from_tnext:
  assumes "postpone_task_switches_counter s = 0" and "first_ready_to_run_task s \<noteq> NULL" and "\<not> runnable s"
  shows "\<exists>s'. schedule_from r s = switchK s' \<and> tnexts s' = tnexts s \<and> (\<forall>p. target_wakeup_time (tcb s' p) = target_wakeup_time (tcb s p))
    \<and> (\<forall>p. tid (tcb s' p) = tid (tcb s p)) \<and> ticks_since_boot s' = ticks_since_boot s"
proof -
  have "schedule_from r s = switchK (resume_task (load_task r (first_ready_to_run_task s) (popped s)))"
    using schedule_from_eq [OF assms(1,2), of r] assms(1,3) by (simp add: switch_to_task_def)
  then show ?thesis by (auto simp: load_task_def popped_def update_time_used_def Let_def fun_eq_iff)
qed

text \<open>Leaving the CPU for a reason other than its turn being over.\<close>

lemma block_task_spec:
  assumes "lock_ok k s" and "postpone_task_switches_counter s = 0" and "ready_queue s (n # xs)" and "current_task_PCB s \<noteq> NULL"
    and "current_task_PCB s \<notin> set (n # xs)" and "reason \<notin> {TASK_STATE_RUNNING, TASK_STATE_READY_TO_RUN}"
  shows "\<exists>s'. block_task reason s = switchK s' \<and> current_task_PCB s' = n \<and> ready_queue s' xs
    \<and> state (tcb s' (current_task_PCB s)) = reason \<and> tnexts s' = tnexts s
    \<and> (\<forall>p. target_wakeup_time (tcb s' p) = target_wakeup_time (tcb s p))
    \<and> sleeping_taskes s' = sleeping_taskes s \<and> dead_tasks s' = dead_tasks s"
proof -
  let ?b = "blocked reason s"
  have b: "postpone_task_switches_counter ?b = 0" "ready_queue ?b (n # xs)" "current_task_PCB ?b \<noteq> NULL" "current_task_PCB ?b \<notin> set (n # xs)"
    using assms by simp_all
  have nr: "\<not> runnable ?b" using assms(6) by (simp add: runnable_def)
  have "first_ready_to_run_task ?b \<noteq> NULL" using b(2) ready_queue_first by blast
  from schedule_from_tnext [OF b(1) this nr, of Plain] schedule_from_spec [OF b, of Plain] nr assms(5) block_task_eq [OF assms(1)]
  show ?thesis by (fastforce simp: schedule_def)
qed


text \<open>Going to sleep.\<close>

definition asleep :: "u32 \<Rightarrow> 'z sched_scheme \<Rightarrow> 'z sched_scheme" where
  "asleep us s = (upd_tcb (current_task_PCB s) (\<lambda>t. t\<lparr>target_wakeup_time := ucast us, tnext := sleeping_taskes s\<rparr>) s)
     \<lparr>sleeping_taskes := current_task_PCB s, irq_enabled := (IRQ_disable_counter s = 0)\<rparr>"

lemma micro_sleep_until_eq:
  assumes "lock_ok k s"
  shows "micro_sleep_until us s = block_task TASK_STATE_SLEEPING (asleep us s)"
proof -
  let ?t = "(upd_tcb (current_task_PCB s) (\<lambda>t. t\<lparr>target_wakeup_time := ucast us, tnext := sleeping_taskes s\<rparr>) (lock_scheduler s))
     \<lparr>sleeping_taskes := current_task_PCB s\<rparr>"
  have "same_lock (lock_scheduler s) ?t" by (simp add: same_lock_def)
  from unlock_locked [OF assms this]
  have "micro_sleep_until us s = block_task TASK_STATE_SLEEPING (unlocked s ?t)"
    by (simp add: micro_sleep_until_def Let_def upd_tcb_def)
  also have "unlocked s ?t = asleep us s" by (simp add: asleep_def unlocked_def upd_tcb_def lock_scheduler_def)
  finally show ?thesis .
qed

lemma asleep_simps [simp]:
  "first_ready_to_run_task (asleep u s) = first_ready_to_run_task s" "last_ready_to_run_task (asleep u s) = last_ready_to_run_task s"
  "current_task_PCB (asleep u s) = current_task_PCB s"
  "tnext (tcb (asleep u s) p) = (if p = current_task_PCB s then sleeping_taskes s else tnext (tcb s p))"
  "target_wakeup_time (tcb (asleep u s) p) = (if p = current_task_PCB s then ucast u else target_wakeup_time (tcb s p))"
  "state (tcb (asleep u s) p) = state (tcb s p)"
  "sleeping_taskes (asleep u s) = current_task_PCB s" "dead_tasks (asleep u s) = dead_tasks s"
  "postpone_task_switches_counter (asleep u s) = postpone_task_switches_counter s"
  "task_switches_postponed_flag (asleep u s) = task_switches_postponed_flag s"
  "IRQ_disable_counter (asleep u s) = IRQ_disable_counter s" "lock_ok k (asleep u s) = lock_ok k s"
  by (simp_all add: asleep_def lock_ok_def)

lemma asleep_lists:
  assumes "current_task_PCB s \<noteq> NULL" and "current_task_PCB s \<notin> set xs"
  shows "ready_queue s xs \<Longrightarrow> ready_queue (asleep u s) xs" "sleepers s xs \<Longrightarrow> sleepers (asleep u s) (current_task_PCB s # xs)"
proof -
  have "tnexts (asleep u s) p = tnexts s p" if "p \<in> set xs" for p using that assms(2) by auto
  from chain_cong [OF this] assms show "ready_queue s xs \<Longrightarrow> ready_queue (asleep u s) xs"
    "sleepers s xs \<Longrightarrow> sleepers (asleep u s) (current_task_PCB s # xs)"
    by (simp_all add: ready_queue_def sleepers_def)
qed

lemma micro_sleep_until_spec:
  assumes "lock_ok k s" and "postpone_task_switches_counter s = 0" and "ready_queue s (n # xs)" and "sleepers s ys"
    and "current_task_PCB s \<noteq> NULL" and "current_task_PCB s \<notin> set (n # xs) \<union> set ys"
  shows "\<exists>s'. micro_sleep_until us s = switchK s' \<and> current_task_PCB s' = n \<and> ready_queue s' xs
    \<and> sleepers s' (current_task_PCB s # ys) \<and> state (tcb s' (current_task_PCB s)) = TASK_STATE_SLEEPING
    \<and> target_wakeup_time (tcb s' (current_task_PCB s)) = ucast us"
proof -
  let ?a = "asleep us s"
  have q: "ready_queue ?a (n # xs)" "sleepers ?a (current_task_PCB s # ys)"
    using asleep_lists [OF assms(5)] assms(3,4,6) by auto
  obtain s' where s': "block_task TASK_STATE_SLEEPING ?a = switchK s'" "current_task_PCB s' = n" "ready_queue s' xs"
    "state (tcb s' (current_task_PCB ?a)) = TASK_STATE_SLEEPING" "tnexts s' = tnexts ?a"
    "\<forall>p. target_wakeup_time (tcb s' p) = target_wakeup_time (tcb ?a p)" "sleeping_taskes s' = sleeping_taskes ?a"
    using block_task_spec [of k ?a n xs TASK_STATE_SLEEPING] assms(1,2,5,6) q(1) by auto
  have "sleepers s' (current_task_PCB s # ys)" using q(2) s'(5,7) by (simp add: sleepers_def)
  with s' micro_sleep_until_eq [OF assms(1)] show ?thesis by (intro exI [of _ s']) simp
qed

text \<open>With no task ready, \<open>schedule\<close> returns: a task that goes to sleep goes on running, and a second
  time it becomes its own successor in the list of sleeping tasks.\<close>

lemma micro_sleep_until_alone:
  assumes "lock_ok k s" and "postpone_task_switches_counter s = 0" and "first_ready_to_run_task s = NULL"
  shows "micro_sleep_until us s = retK () (blocked TASK_STATE_SLEEPING (asleep us s))"
proof -
  have "lock_ok k (asleep us s)" using assms(1) by simp
  from micro_sleep_until_eq [OF assms(1), of us] block_task_eq [OF this, of TASK_STATE_SLEEPING] assms(2,3) show ?thesis
    by (simp add: schedule_def schedule_from_def)
qed

text \<open>A cyclic list of sleeping tasks none of which is due keeps the tick handler going for ever.\<close>

lemma awoken_loop_cycle:
  assumes "sleeping_taskes s = c" and "c \<noteq> NULL" and "tnext (tcb s c) = c" and "\<not> due ticks s c"
  shows "awoken_loop ticks prev c s = None"
proof (rule ccontr)
  assume "awoken_loop ticks prev c s \<noteq> None"
  then obtain r where "awoken_loop ticks prev c s = Some r" by auto
  then show False
    using assms(2-4)
  proof (induction rule: awoken_loop.raw_induct [rotated, consumes 1])
    case (1 f ticks prev cur s r)
    then show ?case by (auto simp: due_def split: if_splits)
  qed
qed


text \<open>Ending a task: it leaves the CPU for the dead list.\<close>

definition buried :: "'z sched_scheme \<Rightarrow> 'z sched_scheme" where
  "buried s = (push_dead s)\<lparr>irq_enabled := (IRQ_disable_counter s = 0)\<rparr>"

lemma buried_simps [simp]:
  "first_ready_to_run_task (buried s) = first_ready_to_run_task s" "last_ready_to_run_task (buried s) = last_ready_to_run_task s"
  "current_task_PCB (buried s) = current_task_PCB s" "dead_tasks (buried s) = current_task_PCB s"
  "tnext (tcb (buried s) p) = (if p = current_task_PCB s then dead_tasks s else tnext (tcb s p))"
  "state (tcb (buried s) p) = state (tcb s p)" "sleeping_taskes (buried s) = sleeping_taskes s"
  "postpone_task_switches_counter (buried s) = postpone_task_switches_counter s" "lock_ok k (buried s) = lock_ok k s"
  by (simp_all add: buried_def push_dead_def lock_ok_def Let_def)

lemma push_dead_unlock:
  assumes "lock_ok k s"
  shows "unlock_scheduler (push_dead (lock_scheduler s)) = retK () (buried s)"
proof -
  have "same_lock (lock_scheduler s) (push_dead (lock_scheduler s))" by (simp add: push_dead_def same_lock_def Let_def)
  from unlock_locked [OF assms this] show ?thesis
    by (simp add: buried_def unlocked_def push_dead_def upd_tcb_def lock_scheduler_def Let_def)
qed

lemma buried_lists:
  assumes "current_task_PCB s \<noteq> NULL" and "current_task_PCB s \<notin> set xs"
  shows "ready_queue s xs \<Longrightarrow> ready_queue (buried s) xs" "sleepers s xs \<Longrightarrow> sleepers (buried s) xs"
    "dead s xs \<Longrightarrow> dead (buried s) (current_task_PCB s # xs)"
proof -
  have "tnexts (buried s) p = tnexts s p" if "p \<in> set xs" for p using that assms(2) by auto
  from chain_cong [OF this] assms show "ready_queue s xs \<Longrightarrow> ready_queue (buried s) xs" "sleepers s xs \<Longrightarrow> sleepers (buried s) xs"
    "dead s xs \<Longrightarrow> dead (buried s) (current_task_PCB s # xs)"
    by (simp_all add: ready_queue_def sleepers_def dead_def)
qed

lemma terminate_task_eq:
  assumes "lock_ok k s"
  shows "terminate_task s = bindK (block_task TASK_STATE_TERMINATED (buried s)) (\<lambda>_ s.
    panicK (Abort ''task terminate_task returned: no other taskes ready to run. ie: you fucked up''))"
  by (simp add: terminate_task_def push_dead_unlock [OF assms] Let_def)

lemma mark_task_for_death_eq:
  assumes "lock_ok k s"
  shows "mark_task_for_death s = bindK (schedule (blocked TASK_STATE_DEAD (buried s))) (\<lambda>_ s.
    panicK (Abort ''task cleanup task returned: no other taskes ready to run. ie: you fucked up''))"
proof -
  let ?s = "upd_tcb (current_task_PCB s) (\<lambda>t. t\<lparr>state := TASK_STATE_DEAD\<rparr>) s"
  have "lock_ok k ?s" using assms by (simp add: lock_ok_def)
  moreover have "upd_tcb (current_task_PCB s) (\<lambda>t. t\<lparr>state := TASK_STATE_DEAD\<rparr>) (lock_scheduler s) = lock_scheduler ?s"
    by (simp add: upd_tcb_def lock_scheduler_def)
  moreover have "t\<lparr>state := TASK_STATE_DEAD, tnext := d\<rparr> = t\<lparr>tnext := d, state := TASK_STATE_DEAD\<rparr>" for t d by simp
  then have "buried ?s = blocked TASK_STATE_DEAD (buried s)"
    by (intro sched.equality) (simp_all add: buried_def push_dead_def blocked_def upd_tcb_def Let_def fun_eq_iff)
  ultimately show ?thesis by (simp add: mark_task_for_death_def push_dead_unlock Let_def)
qed

section \<open>Properties\<close>

text \<open>The tick handler wakes exactly the tasks that are due. It ends; the tasks whose wake-up time
  has come leave the list of sleeping tasks and go to the end of the ready queue in the order they
  had, ready to run; the others stay asleep in their order, and no other task changes.\<close>

theorem update_awoken_wakes_due:
  assumes "sleepers s xs" and "ready_queue s rs" and "set rs \<inter> set xs = {}" and "lock_ok 1 s"
  shows "\<exists>s'. internal_update_awoken_taskes ticks s = retK () s'
    \<and> sleepers s' (filter (\<lambda>p. ticks < target_wakeup_time (tcb s p)) xs)
    \<and> ready_queue s' (rs @ filter (\<lambda>p. target_wakeup_time (tcb s p) \<le> ticks) xs)
    \<and> (\<forall>p. state (tcb s' p) = (if p \<in> set xs \<and> target_wakeup_time (tcb s p) \<le> ticks then TASK_STATE_READY_TO_RUN else state (tcb s p)))
    \<and> dead_tasks s' = dead_tasks s \<and> current_task_PCB s' = current_task_PCB s"
proof -
  have "due ticks s = (\<lambda>p. target_wakeup_time (tcb s p) \<le> ticks)" by (auto simp: due_def)
  moreover have "(\<lambda>p. \<not> target_wakeup_time (tcb s p) \<le> ticks) = (\<lambda>p. ticks < target_wakeup_time (tcb s p))" by auto
  ultimately show ?thesis using update_awoken_spec [OF assms, of ticks] by metis
qed

text \<open>Three tasks, one running and two asleep until ticks 5 and 9, for the witnesses.\<close>

definition two_sleepers :: sched where
  "two_sleepers = (three_tasks ())\<lparr>first_ready_to_run_task := 0, last_ready_to_run_task := 0, sleeping_taskes := 0x2000,
     tcb := (\<lambda>p. if p = 0x1000 then blank_task 0 0 2
       else if p = 0x2000 then (blank_task 1 0x3000 3)\<lparr>target_wakeup_time := 5\<rparr>
       else (blank_task 2 0 3)\<lparr>target_wakeup_time := 9\<rparr>)\<rparr>"

lemma two_sleepers_lists:
  "sleepers two_sleepers [0x2000, 0x3000]" "ready_queue two_sleepers []" "lock_ok 1 two_sleepers" "dead two_sleepers []"
  by (simp_all add: two_sleepers_def sleepers_def ready_queue_def lock_ok_def dead_def three_tasks_def empty_space_def blank_task_def)

lemma two_sleepers_tcb:
  "tcb two_sleepers = (\<lambda>p. if p = 0x1000 then blank_task 0 0 2
       else if p = 0x2000 then (blank_task 1 0x3000 3)\<lparr>target_wakeup_time := 5\<rparr>
       else (blank_task 2 0 3)\<lparr>target_wakeup_time := 9\<rparr>)"
  by (simp add: two_sleepers_def)

text \<open>At tick 7 the first sleeper wakes.\<close>

theorem update_awoken_wakes_due_witness:
  "\<exists>s'. internal_update_awoken_taskes 7 two_sleepers = retK () s' \<and> sleepers s' [0x3000] \<and> ready_queue s' [0x2000]"
  using update_awoken_wakes_due [OF two_sleepers_lists(1,2) _ two_sleepers_lists(3), of 7] by (auto simp: two_sleepers_tcb)

text \<open>C19: \<open>get_task_state\<close> ends and returns the state of the first task with the given id among the
  current task, the ready, the sleeping and the dead tasks, in this order, and
  \<open>TASK_STATE_NOT_FOUND\<close> when there is none.\<close>

theorem get_task_state_correct:
  assumes "current_task_PCB s \<noteq> NULL" and "ready_queue s rs" and "sleepers s xs" and "dead s ds"
  shows "get_task_state pid s = Some (case find (\<lambda>p. tid (tcb s p) = pid) (current_task_PCB s # rs @ xs @ ds) of
    None \<Rightarrow> TASK_STATE_NOT_FOUND | Some p \<Rightarrow> state (tcb s p))"
proof -
  have app: "find P (us @ vs) = (case find P us of None \<Rightarrow> find P vs | Some p \<Rightarrow> Some p)" for P and us vs :: "u32 list"
    by (induction us) auto
  show ?thesis
    using assms find_task_state_spec [of s "first_ready_to_run_task s" rs pid]
      find_task_state_spec [of s "sleeping_taskes s" xs pid] find_task_state_spec [of s "dead_tasks s" ds pid]
    by (auto simp: get_task_state_def ready_queue_def sleepers_def dead_def app split: option.splits)
qed

text \<open>Witness of C19.\<close>

theorem get_task_state_correct_witness:
  "get_task_state 2 two_sleepers = Some TASK_STATE_SLEEPING \<and> get_task_state 7 two_sleepers = Some TASK_STATE_NOT_FOUND"
proof -
  have c: "current_task_PCB two_sleepers = 0x1000" by (simp add: two_sleepers_def three_tasks_fields)
  then show ?thesis
    using get_task_state_correct [OF _ two_sleepers_lists(2,1,4), of 2] get_task_state_correct [OF _ two_sleepers_lists(2,1,4), of 7]
    by (simp add: two_sleepers_tcb blank_task_def)
qed

text \<open>C18: ending a task. When another task is ready, \<open>terminate_task\<close> and \<open>mark_task_for_death\<close> give the
  CPU to the head of the ready queue; the ended task is on the dead list with its final state and
  not in the ready queue. When none is ready the kernel aborts.\<close>

theorem task_end_correct:
  assumes "lock_ok 0 s" and "postpone_task_switches_counter s = 0" and "ready_queue s rs" and "dead s ds"
    and "current_task_PCB s \<noteq> NULL" and "current_task_PCB s \<notin> set rs \<union> set ds"
  shows "if rs = [] then (\<exists>m. terminate_task s = panicK (Abort m)) \<and> (\<exists>m. mark_task_for_death s = panicK (Abort m))
    else (\<exists>s'. terminate_task s = switchK s' \<and> current_task_PCB s' = hd rs \<and> ready_queue s' (tl rs)
        \<and> dead s' (current_task_PCB s # ds) \<and> state (tcb s' (current_task_PCB s)) = TASK_STATE_TERMINATED)
      \<and> (\<exists>s'. mark_task_for_death s = switchK s' \<and> current_task_PCB s' = hd rs \<and> ready_queue s' (tl rs)
        \<and> dead s' (current_task_PCB s # ds) \<and> state (tcb s' (current_task_PCB s)) = TASK_STATE_DEAD)"
proof -
  have lists: "ready_queue (buried s) rs" "dead (buried s) (current_task_PCB s # ds)"
    using buried_lists [OF assms(5)] assms(3,4,6) by auto
  have lk: "lock_ok 0 (buried s)" using assms(1) by simp
  note eqs = terminate_task_eq [OF assms(1)] mark_task_for_death_eq [OF assms(1)] block_task_eq [OF lk]
  show ?thesis
  proof (cases rs)
    case Nil
    then have "first_ready_to_run_task s = NULL" using ready_queue_first [OF assms(3)] by simp
    with Nil assms(2) show ?thesis by (auto simp: eqs schedule_def schedule_from_def)
  next
    case (Cons n rs')
    have "\<exists>s'. schedule (blocked r (buried s)) = switchK s' \<and> current_task_PCB s' = n \<and> ready_queue s' rs'
        \<and> dead s' (current_task_PCB s # ds) \<and> state (tcb s' (current_task_PCB s)) = r"
      if "r \<notin> {TASK_STATE_RUNNING, TASK_STATE_READY_TO_RUN}" for r
    proof -
      from block_task_spec [OF lk, of n rs' r] that assms(2,5,6) lists(1) Cons obtain s' where
        s': "block_task r (buried s) = switchK s'" "current_task_PCB s' = n" "ready_queue s' rs'"
          "state (tcb s' (current_task_PCB s)) = r" "tnexts s' = tnexts (buried s)" "dead_tasks s' = dead_tasks (buried s)" by auto
      then have "dead s' (current_task_PCB s # ds)" using lists(2) by (simp add: dead_def)
      with s' block_task_eq [OF lk, of r] show ?thesis by auto
    qed
    from this [of TASK_STATE_TERMINATED] this [of TASK_STATE_DEAD] Cons show ?thesis by (auto simp: eqs)
  qed
qed

text \<open>Witness of C18.\<close>

theorem task_end_correct_witness:
  "\<exists>s'. mark_task_for_death (three_tasks ()) = switchK s' \<and> ready_queue s' [0x3000] \<and> dead s' [0x1000]"
proof -
  have "ready_queue (three_tasks ()) [0x2000, 0x3000]" using three_tasks_running [of "()"] by (simp add: running_def)
  moreover have "dead (three_tasks ()) []" "lock_ok 0 (three_tasks ())"
    by (simp_all add: dead_def lock_ok_def three_tasks_def empty_space_def)
  ultimately show ?thesis using task_end_correct [of "three_tasks ()" "[0x2000, 0x3000]" "[]"] by (auto simp: three_tasks_fields)
qed

text \<open>C32: sleeping needs another ready task. When none is ready, \<open>micro_sleep_until\<close> returns at once and
  leaves the caller running in the list of sleeping tasks; if it sleeps again, the list becomes a
  cycle, and the next tick before the wake-up time never ends.\<close>

theorem sleep_alone_hangs:
  assumes "lock_ok 1 s" and "postpone_task_switches_counter s = 0" and "first_ready_to_run_task s = NULL"
    and "current_task_PCB s \<noteq> NULL" and "ticks < ucast us"
  shows "\<exists>s' s''. micro_sleep_until us' s = retK () s' \<and> current_task_PCB s' = current_task_PCB s
    \<and> micro_sleep_until us s' = retK () s'' \<and> internal_update_awoken_taskes ticks s'' = None"
proof -
  let ?s1 = "blocked TASK_STATE_SLEEPING (asleep us' s)"
  let ?s2 = "blocked TASK_STATE_SLEEPING (asleep us ?s1)"
  have one: "micro_sleep_until us' s = retK () ?s1" using assms(1-3) by (rule micro_sleep_until_alone)
  have lk: "lock_ok 1 ?s1" using assms(1) by (simp add: lock_ok_def)
  have two: "micro_sleep_until us ?s1 = retK () ?s2"
    by (rule micro_sleep_until_alone [OF lk]) (use assms in simp_all)
  have "awoken_loop ticks NULL (current_task_PCB s) (lock_scheduler ?s2) = None"
    by (rule awoken_loop_cycle) (use assms(4,5) in \<open>simp_all add: due_def\<close>)
  then have "internal_update_awoken_taskes ticks ?s2 = None" by (simp add: internal_update_awoken_taskes_def)
  with one two show ?thesis by (intro exI [of _ ?s1] exI [of _ ?s2]) simp
qed

text \<open>Witness of C32.\<close>

theorem sleep_alone_hangs_witness:
  "\<exists>s' s''. micro_sleep_until 100 two_sleepers = retK () s' \<and> micro_sleep_until 200 s' = retK () s''
     \<and> internal_update_awoken_taskes 101 s'' = None"
  using sleep_alone_hangs [OF two_sleepers_lists(3), of 101 200 100] by (auto simp: two_sleepers_def three_tasks_fields)

end
