(* ===== verification/Timer.thy ===== *)
theory Timer
  imports Interrupts Tasks
begin

text \<open>
  The timer (\<open>interrupts/timer.c\<close>): programming the interval timer, the list of functions that run
  on every tick, and the tick handler. The nodes of the list live in a typed store indexed by their
  addresses; an installed function is known by its address, and \<open>call\<close> says what it does.
\<close>

section \<open>State and operations\<close>

record TimerEvent =
  func :: u32
  tev_next :: u32

record timer = kernel +
  timer_events :: u32
  tev :: "u32 \<Rightarrow> TimerEvent"

abbreviation (input) FREQ_HZ :: u32 where "FREQ_HZ \<equiv> 1193180"
abbreviation (input) freq :: u32 where "freq \<equiv> 1000"

definition timer_init :: "u32 \<Rightarrow> 'z timer_scheme \<Rightarrow> 'z timer_scheme" where
  "timer_init irq_0_handler_addr s =
     (let s = s\<lparr>ticks_since_boot := 0\<rparr>;
          s = irq_install_handler 0 irq_0_handler_addr s;
          divisor = FREQ_HZ div freq;
          command_byte = PIT_SC_CHANNEL0 OR PIT_RW_LOHI_BYTE OR PIT_MODE_3_SQ_WAVE OR PIT_BIN_MODE;
          s = outb PIT_CMD_REG_PORT command_byte s;
          s = outb PIT_CH0_DATA_PORT (ucast divisor AND 0xFF) s
      in outb PIT_CH0_DATA_PORT (ucast (drop_bit 8 divisor) AND 0xFF) s)"

definition install_timer_event :: "u32 \<Rightarrow> 'z timer_scheme \<Rightarrow> (u32, 'z timer_scheme) kres option" where
  "install_timer_event f s =
     bindK (kmalloc 8 s) (\<lambda>new_event s.
       if new_event = NULL then retK NULL s
       else let s = s\<lparr>tev := (tev s)(new_event := \<lparr>func = f, tev_next = NULL\<rparr>)\<rparr>;
                s = (if timer_events s = NULL then s\<lparr>timer_events := new_event\<rparr>
                     else s\<lparr>tev := (tev s)(new_event := (tev s new_event)\<lparr>tev_next := timer_events s\<rparr>), timer_events := new_event\<rparr>)
            in retK new_event s)"

partial_function (option) uninstall_loop :: "u32 \<Rightarrow> u32 \<Rightarrow> 'z timer_scheme \<Rightarrow> (unit, 'z timer_scheme) kres option" where
  "uninstall_loop event current s =
     (if tev_next (tev s current) \<noteq> NULL then
        if tev_next (tev s current) = event then
          kfree event (s\<lparr>tev := (tev s)(current := (tev s current)\<lparr>tev_next := tev_next (tev s event)\<rparr>)\<rparr>)
        else uninstall_loop event (tev_next (tev s current)) s
      else retK () s)"

definition uninstall_timer_event :: "u32 \<Rightarrow> 'z timer_scheme \<Rightarrow> (unit, 'z timer_scheme) kres option" where
  "uninstall_timer_event event s =
     (let s = lock_scheduler s
      in bindK (if event = NULL \<or> timer_events s = NULL then retK () s
                else if timer_events s = event then kfree event (s\<lparr>timer_events := tev_next (tev s event)\<rparr>)
                else uninstall_loop event (timer_events s) s) (\<lambda>_ s.
         unlock_scheduler s))"

partial_function (option) irq_0_loop ::
  "(u32 \<Rightarrow> u64 \<Rightarrow> 'z timer_scheme \<Rightarrow> (unit, 'z timer_scheme) kres option) \<Rightarrow> u32 \<Rightarrow> 'z timer_scheme \<Rightarrow> (unit, 'z timer_scheme) kres option" where
  "irq_0_loop call node s =
     (if node \<noteq> NULL then
        bindK (call (func (tev s node)) (ticks_since_boot s) s) (\<lambda>_ s. irq_0_loop call (tev_next (tev s node)) s)
      else retK () s)"

definition irq_0_handler ::
  "(u32 \<Rightarrow> u64 \<Rightarrow> 'z timer_scheme \<Rightarrow> (unit, 'z timer_scheme) kres option) \<Rightarrow> 'z timer_scheme \<Rightarrow> (unit, 'z timer_scheme) kres option" where
  "irq_0_handler call s =
     (let s = s\<lparr>ticks_since_boot := ticks_since_boot s + 1\<rparr>
      in irq_0_loop call (timer_events s) s)"

section \<open>The list of timer events\<close>

definition events :: "'z timer_scheme \<Rightarrow> u32 list \<Rightarrow> bool" where
  "events s es \<longleftrightarrow> chain (\<lambda>p. tev_next (tev s p)) (timer_events s) es"

text \<open>The heap does not see the scheduler's or the timer's data.\<close>

lemma heap_ok_cong:
  assumes "page_frames_state_bitmap t = page_frames_state_bitmap s" "pre_frames t = pre_frames s" "allocate t = allocate s"
    "pframe t = pframe s" "pmem t = pmem s" "cr3 t = cr3 s" "tlb t = tlb s" "program_break_point t = program_break_point s"
    "mem t = mem s" "heap_start t = heap_start s"
  shows "heap_ok t bs e = heap_ok s bs e"
  using brk_inv_cong [OF assms(1-8)] assms(8-10) by (simp add: heap_ok_def)

lemma heap_ok_frame [simp]:
  "heap_ok (s\<lparr>tcb := x\<rparr>) bs e = heap_ok s bs e" "heap_ok (s\<lparr>resume := y\<rparr>) bs e = heap_ok s bs e"
  "heap_ok (s\<lparr>current_pid := k\<rparr>) bs e = heap_ok s bs e" "heap_ok (s\<lparr>first_ready_to_run_task := p\<rparr>) bs e = heap_ok s bs e"
  "heap_ok (s\<lparr>last_ready_to_run_task := p\<rparr>) bs e = heap_ok s bs e" "heap_ok (s\<lparr>dead_tasks := p\<rparr>) bs e = heap_ok s bs e"
  "heap_ok (s\<lparr>current_task_PCB := p\<rparr>) bs e = heap_ok s bs e" "heap_ok (s\<lparr>last_tick := k\<rparr>) bs e = heap_ok s bs e"
  "heap_ok (s\<lparr>irq_enabled := b\<rparr>) bs e = heap_ok s bs e" "heap_ok (upd_tcb p f s) bs e = heap_ok s bs e"
  "heap_ok (s\<lparr>IRQ_disable_counter := c\<rparr>) bs e = heap_ok s bs e" "heap_ok (s\<lparr>postpone_task_switches_counter := c\<rparr>) bs e = heap_ok s bs e"
  "heap_ok (s\<lparr>task_switches_postponed_flag := g\<rparr>) bs e = heap_ok s bs e" "heap_ok (s\<lparr>sleeping_taskes := p\<rparr>) bs e = heap_ok s bs e"
  by (rule heap_ok_cong; simp add: upd_tcb_def)+

lemma heap_ok_timer [simp]:
  "heap_ok (t\<lparr>tev := v\<rparr>) bs e = heap_ok t bs e" "heap_ok (t\<lparr>timer_events := p\<rparr>) bs e = heap_ok t bs e"
  by (rule heap_ok_cong; simp)+

lemma heap_ok_enqueue [simp]: "heap_ok (enqueue_ready p s) bs e = heap_ok s bs e"
  by (simp add: enqueue_ready_def)

text \<open>What the heap's operations keep of the scheduler.\<close>

definition kept_sched :: "'z heap_scheme \<Rightarrow> 'z heap_scheme \<Rightarrow> bool" where
  "kept_sched s s' \<longleftrightarrow> IRQ_disable_counter s' = IRQ_disable_counter s
     \<and> postpone_task_switches_counter s' = postpone_task_switches_counter s
     \<and> task_switches_postponed_flag s' = task_switches_postponed_flag s \<and> irq_enabled s' = (IRQ_disable_counter s = 0)
     \<and> current_task_PCB s' = current_task_PCB s \<and> first_ready_to_run_task s' = first_ready_to_run_task s
     \<and> last_ready_to_run_task s' = last_ready_to_run_task s \<and> dead_tasks s' = dead_tasks s
     \<and> sleeping_taskes s' = sleeping_taskes s \<and> tcb s' = tcb s \<and> resume s' = resume s
     \<and> ticks_since_boot s' = ticks_since_boot s \<and> last_tick s' = last_tick s \<and> current_pid s' = current_pid s"

lemma kept_kept_sched: "kept s s' \<Longrightarrow> kept_sched s s'"
  by (simp add: kept_def kept_sched_def)

lemma kept_timer: "kept s s' \<Longrightarrow> tev s' = tev s \<and> timer_events s' = timer_events s"
  by (cases s; cases s') (simp add: kept_def)

lemma kmalloc_kept:
  assumes "heap_good s" and "heap_room (unat n + 16 + k) s" and "kmalloc n s = retK p s'"
  shows "kept s s'"
proof -
  obtain bs e where h: "heap_ok s bs e" and l: "lock_ok 0 s" using assms(1) by (auto simp: heap_good_def)
  have pb: "0xC0400000 \<le> unat (program_break_point s)" using h by (simp add: heap_ok_def brk_inv_def word_nat)
  have n: "unat n \<le> 0x7FFFFF00" "unat (program_break_point s) + round8 (unat n) + 8 + 4095 \<le> 0xFFC00000"
    using assms(2) pb round8_bounds(2) [of "unat n"] by (simp_all add: heap_room_def)
  from kmalloc_spec [OF h l n] assms(3) show ?thesis by auto
qed

lemma kfree_kept:
  assumes "heap_good s" and "(p, c) \<in> heap_blocks s" and "kfree p s = retK () s'"
  shows "kept s s'"
proof -
  obtain bs e where h: "heap_ok s bs e" and l: "lock_ok 0 s" using assms(1) by (auto simp: heap_good_def)
  from assms(2) obtain b d where b: "(b, d) \<in> live bs" "p = b + 8" by (auto simp: heap_blocks_eq [OF h])
  from kfree_safe [OF h l b(1)] b(2) assms(3) show ?thesis by auto
qed

lemma heap_blocks_cong: "(\<And>bs e. heap_ok t bs e = heap_ok s bs e) \<Longrightarrow> heap_blocks t = heap_blocks s"
  by (simp add: heap_blocks_def)

lemma apart_start: "apart (p, c) (p, d) \<Longrightarrow> c = 0 \<or> d = 0"
  by (auto simp: apart_def)


lemma install_timer_event_spec:
  assumes "heap_good s" and "heap_room (24 + k) s" and "events s es" and "\<forall>e \<in> set es. \<exists>c \<ge> 8. (e, c) \<in> heap_blocks s"
  shows "\<exists>p s'. install_timer_event f s = retK p s' \<and> kept_sched s s' \<and> heap_good s' \<and> heap_room k s'
    \<and> (p = NULL \<and> events s' es \<and> heap_blocks s' = heap_blocks s
       \<or> p \<noteq> NULL \<and> events s' (p # es) \<and> func (tev s' p) = f \<and> (\<forall>e \<in> set es. tev s' e = tev s e)
         \<and> (\<exists>c \<ge> 8. (p, c) \<notin> heap_blocks s \<and> heap_blocks s' = insert (p, c) (heap_blocks s)))"
proof -
  have n: "heap_room (unat (8 :: u32) + 16 + k) s" using assms(2) by simp
  from kheap.alloc_law [OF assms(1) n] obtain p t where
    t: "kmalloc 8 s = retK p t" "heap_good t" "heap_room k t" and
    r: "p = NULL \<and> heap_blocks t = heap_blocks s \<or> p \<noteq> NULL \<and> (\<exists>c \<ge> 8. (p, c) \<notin> heap_blocks s \<and> heap_blocks t = insert (p, c) (heap_blocks s))" by auto
  note kept = kmalloc_kept [OF assms(1) n t(1)] and kt = kept_timer [OF kmalloc_kept [OF assms(1) n t(1)]]
  show ?thesis
  proof (cases "p = NULL")
    case True
    then have "install_timer_event f s = retK NULL t" using t(1) by (simp add: install_timer_event_def)
    then show ?thesis using True t r kt assms(3) kept_kept_sched [OF kept] by (auto simp: events_def)
  next
    case False
    with r obtain c where c: "8 \<le> c" "(p, c) \<notin> heap_blocks s" "heap_blocks t = insert (p, c) (heap_blocks s)" by auto
    let ?t = "t\<lparr>tev := (tev s)(p := \<lparr>func = f, tev_next = timer_events s\<rparr>), timer_events := p\<rparr>"
    have eq: "install_timer_event f s = retK p ?t" using t(1) False kt by (auto simp: install_timer_event_def Let_def)
    have notin: "p \<notin> set es"
    proof
      assume "p \<in> set es"
      with assms(4) obtain d where d: "8 \<le> d" "(p, d) \<in> heap_blocks s" by blast
      with kheap.apart_law [OF t(2), of "(p, c)" "(p, d)"] c have "apart (p, c) (p, d)" by auto
      from apart_start [OF this] c(1) d(1) show False by simp
    qed
    have "heap_good ?t" using t(2) by (simp add: heap_good_def lock_ok_def)
    moreover have "heap_room k ?t" using t(3) by (simp add: heap_room_def)
    moreover have "tev_next (tev ?t x) = tev_next (tev s x)" if "x \<in> set es" for x using that notin by auto
    from chain_cong [of es "\<lambda>x. tev_next (tev ?t x)" "\<lambda>x. tev_next (tev s x)", OF this]
    have "events ?t (p # es)" using assms(3) False by (simp add: events_def)
    moreover have "heap_blocks ?t = heap_blocks t" by (rule heap_blocks_cong) simp
    moreover have "kept_sched s ?t" using kept by (simp add: kept_def kept_sched_def)
    ultimately show ?thesis using eq False c notin \<open>events ?t (p # es)\<close> by (intro exI [of _ p] exI [of _ ?t]) auto
  qed
qed

text \<open>Taking an event out of the list and giving its block back.\<close>

lemma uninstall_loop_spec:
  assumes "chain (\<lambda>p. tev_next (tev s p)) a (pre @ x # e # post)" and "a = hd (pre @ [x])"
  shows "uninstall_loop e a s = kfree e (s\<lparr>tev := (tev s)(x := (tev s x)\<lparr>tev_next := tev_next (tev s e)\<rparr>)\<rparr>)"
  using assms(1) chain_distinct [OF assms(1)] assms(2)
proof (induction pre arbitrary: a)
  case Nil
  then show ?case by (subst uninstall_loop.simps) auto
next
  case (Cons y pre)
  then have y: "a = y" "y \<noteq> NULL" "chain (\<lambda>p. tev_next (tev s p)) (tev_next (tev s y)) (pre @ x # e # post)" by auto
  then have "tev_next (tev s y) = hd (pre @ [x])" "tev_next (tev s y) \<noteq> NULL" "tev_next (tev s y) \<in> set (pre @ [x])" by (cases pre; auto)+
  moreover from this(3) have "tev_next (tev s y) \<noteq> e" using Cons.prems(2) by auto
  ultimately show ?case using Cons.IH [OF y(3)] Cons.prems(2) y(1) by (subst uninstall_loop.simps) (auto simp: fun_upd_def)
qed

lemma uninstall_timer_event_spec:
  assumes "heap_good s" and "lock_ok 1 s" and "events s (pre @ e # post)" and "(e, c) \<in> heap_blocks s"
  shows "\<exists>s'. uninstall_timer_event e s = retK () s' \<and> heap_good s' \<and> events s' (pre @ post) \<and> heap_blocks s' = heap_blocks s - {(e, c)}"
proof -
  let ?l = "lock_scheduler s" and ?nx = "\<lambda>p. tev_next (tev s p)"
  have ch: "chain ?nx (timer_events s) (pre @ e # post)" using assms(3) by (simp add: events_def)
  have dist: "distinct (pre @ e # post)" using ch by (rule chain_distinct)
  have l: "tev ?l = tev s" "timer_events ?l = timer_events s" by (simp_all add: lock_scheduler_def)
  have e0: "e \<noteq> NULL" "timer_events s \<noteq> NULL" using chain_not_NULL [OF ch] chain_NULL [OF ch] by auto
  define u where "u = (if pre = [] then ?l\<lparr>timer_events := ?nx e\<rparr> else ?l\<lparr>tev := (tev s)(last pre := (tev s (last pre))\<lparr>tev_next := ?nx e\<rparr>)\<rparr>)"
  have "(if timer_events ?l = e then kfree e (?l\<lparr>timer_events := tev_next (tev ?l e)\<rparr>) else uninstall_loop e (timer_events ?l) ?l) = kfree e u"
  proof (cases "pre = []")
    case True
    then show ?thesis using ch l by (simp add: u_def)
  next
    case False
    have ne: "timer_events s \<noteq> e" using ch dist False by (cases pre) auto
    obtain pre' x where pre: "pre = pre' @ [x]" using False by (metis rev_exhaust)
    have "chain (\<lambda>p. tev_next (tev ?l p)) (timer_events s) (pre' @ x # e # post)" using ch l by (simp add: pre)
    moreover have "timer_events s = hd (pre' @ [x])" using ch by (cases pre') (auto simp: pre)
    ultimately have "uninstall_loop e (timer_events s) ?l = kfree e u"
      using uninstall_loop_spec [of ?l "timer_events s" pre' x e post] l by (simp add: u_def pre)
    then show ?thesis using ne l by simp
  qed
  then have eq: "uninstall_timer_event e s = bindK (kfree e u) (\<lambda>_ s. unlock_scheduler s)"
    using e0 l by (simp add: uninstall_timer_event_def Let_def)
  have ev: "events u (pre @ post)"
  proof (cases "pre = []")
    case True
    then show ?thesis using ch l by (simp add: events_def u_def)
  next
    case False
    have "(\<lambda>p. tev_next (tev u p)) = ?nx(last pre := ?nx e)" using False by (auto simp: u_def)
    with chain_remove [OF ch False] False l show ?thesis by (simp add: events_def u_def)
  qed
  have okl: "heap_ok u bs e' = heap_ok s bs e'" for bs e' using heap_ok_lock [of s] by (auto simp: u_def)
  have bl: "heap_blocks u = heap_blocks s" by (rule heap_blocks_cong) (rule okl)
  have "lock_ok 0 u" using lock_ok_lock [of 0 s] assms(2) by (auto simp: u_def lock_ok_def)
  then have good: "heap_good u" using assms(1) okl by (auto simp: heap_good_def)
  from kheap.release_law [OF good, of e c] assms(4) bl obtain t where
    t: "kfree e u = retK () t" "heap_good t" "heap_blocks t = heap_blocks s - {(e, c)}" by auto
  have k: "kept u t" using kfree_kept [OF good _ t(1), of c] assms(4) bl by simp
  have "IRQ_disable_counter s + 1 \<noteq> 0"
    using assms(2) unat_inc32 [of "IRQ_disable_counter s"] by (auto simp: lock_ok_def unat_eq_0 [symmetric])
  with k have sl: "same_lock ?l t" by (auto simp: kept_def same_lock_def lock_scheduler_def u_def split: if_splits)
  have "uninstall_timer_event e s = retK () (unlocked s t)" using eq t(1) unlock_locked [OF assms(2) sl] by simp
  moreover have "events (unlocked s t) (pre @ post)" using ev kept_timer [OF k] by (simp add: events_def unlocked_def)
  moreover have "heap_good (unlocked s t)" using t(2) assms(2) sl by (auto simp: heap_good_def lock_ok_def same_lock_def lock_scheduler_def)
  moreover have "heap_blocks (unlocked s t) = heap_blocks t" by (rule heap_blocks_cong) simp
  ultimately show ?thesis using t(3) by (intro exI [of _ "unlocked s t"]) simp
qed


section \<open>Properties\<close>

text \<open>Timer events. Installing a function puts a node for it at the front of the list, in a block
  of its own, or returns \<open>NULL\<close> and changes nothing; uninstalling any node of the list takes exactly
  that node out and gives exactly its block back.\<close>

theorem timer_event_lists:
  assumes "heap_good s" and "lock_ok 1 s" and "events s es" and "\<forall>e \<in> set es. \<exists>c \<ge> 8. (e, c) \<in> heap_blocks s"
    and "heap_room 24 s"
  shows "(\<exists>p s'. install_timer_event f s = retK p s' \<and> heap_good s'
      \<and> (p = NULL \<and> events s' es \<and> heap_blocks s' = heap_blocks s
         \<or> p \<noteq> NULL \<and> events s' (p # es) \<and> func (tev s' p) = f
           \<and> (\<exists>c \<ge> 8. (p, c) \<notin> heap_blocks s \<and> heap_blocks s' = insert (p, c) (heap_blocks s))))
    \<and> (\<forall>e \<in> set es. \<exists>s' c. uninstall_timer_event e s = retK () s' \<and> heap_good s' \<and> events s' (remove1 e es)
        \<and> (e, c) \<in> heap_blocks s \<and> heap_blocks s' = heap_blocks s - {(e, c)})"
proof (intro conjI ballI)
  show "\<exists>p s'. install_timer_event f s = retK p s' \<and> heap_good s'
      \<and> (p = NULL \<and> events s' es \<and> heap_blocks s' = heap_blocks s
         \<or> p \<noteq> NULL \<and> events s' (p # es) \<and> func (tev s' p) = f
           \<and> (\<exists>c \<ge> 8. (p, c) \<notin> heap_blocks s \<and> heap_blocks s' = insert (p, c) (heap_blocks s)))"
    using install_timer_event_spec [of s 0 es f] assms by auto
next
  fix e assume e: "e \<in> set es"
  then obtain pre post where es: "es = pre @ e # post" "e \<notin> set pre" by (auto dest: split_list_first)
  obtain c where c: "(e, c) \<in> heap_blocks s" using assms(4) e by blast
  from uninstall_timer_event_spec [OF assms(1,2) assms(3) [unfolded es(1)] c] c es
  show "\<exists>s' c. uninstall_timer_event e s = retK () s' \<and> heap_good s' \<and> events s' (remove1 e es)
        \<and> (e, c) \<in> heap_blocks s \<and> heap_blocks s' = heap_blocks s - {(e, c)}"
    by (auto simp: remove1_append)
qed

text \<open>A kernel without timer events and two sleeping tasks, for the witnesses.\<close>

definition quiet_timer :: "'z \<Rightarrow> 'z timer_scheme" where
  "quiet_timer z = (idle_kernel \<lparr>timer_events = 0, tev = \<lambda>_. \<lparr>func = 0xC0106000, tev_next = 0\<rparr>, \<dots> = z\<rparr>)
     \<lparr>first_ready_to_run_task := 0, last_ready_to_run_task := 0, sleeping_taskes := 0x2000, tcb := tcb two_sleepers\<rparr>"

lemma quiet_timer_ok: "heap_ok (quiet_timer z) [(0xC0121000, HEAP_END, True)] HEAP_END"
proof -
  have "heap_ok (idle_kernel \<lparr>timer_events = 0, tev = \<lambda>_. \<lparr>func = 0xC0106000, tev_next = 0\<rparr>, \<dots> = z\<rparr>) [(0xC0121000, HEAP_END, True)] HEAP_END"
    unfolding idle_kernel_def using one_page_heap_ok [of 1] by simp
  then show ?thesis by (simp add: quiet_timer_def)
qed


lemma quiet_timer_fields:
  "timer_events (quiet_timer z) = 0" "sleepers (quiet_timer z) [0x2000, 0x3000]" "ready_queue (quiet_timer z) []"
  "lock_ok 1 (quiet_timer z)" "program_break_point (quiet_timer z) = 0xC0400000" "ticks_since_boot (quiet_timer z) = 7"
  "tcb (quiet_timer z) = tcb two_sleepers" "tev (quiet_timer z) = (\<lambda>_. \<lparr>func = 0xC0106000, tev_next = 0\<rparr>)"
  by (simp_all add: quiet_timer_def idle_kernel_def one_page_heap_def three_tasks_def empty_space_def sleepers_def ready_queue_def
      lock_ok_def two_sleepers_tcb blank_task_def)

lemma quiet_timer_good: "heap_good (quiet_timer z)"
  using quiet_timer_ok [of z] quiet_timer_fields(4) [of z] by (auto simp: heap_good_def lock_ok_def)

text \<open>At a concrete state.\<close>

theorem timer_event_lists_witness:
  "\<exists>p s'. install_timer_event 0xC0106000 (quiet_timer ()) = retK p s' \<and> heap_good s' \<and> (p = NULL \<or> events s' [p])"
proof -
  have "events (quiet_timer ()) []" by (simp add: events_def quiet_timer_fields)
  then show ?thesis
    using timer_event_lists [OF quiet_timer_good quiet_timer_fields(4), of "()" "[]" "0xC0106000"] by (auto simp: heap_room_def quiet_timer_fields)
qed


text \<open>C9: a tick. With \<open>internal_update_awoken_taskes\<close> as the only installed event, the timer interrupt
  ends and counts one tick; exactly the tasks whose wake-up time is not after the new count leave the list of sleeping tasks and
  go to the end of the ready queue, in their order, as ready tasks; every other task keeps its state.\<close>

theorem tick_wakes_due:
  assumes "events s [e]" and "call (func (tev s e)) = internal_update_awoken_taskes"
    and "sleepers s xs" and "ready_queue s rs" and "set rs \<inter> set xs = {}" and "lock_ok 1 s"
  shows "\<exists>s'. irq_0_handler call s = retK () s'
    \<and> sleepers s' (filter (\<lambda>p. \<not> due (ticks_since_boot s + 1) s p) xs)
    \<and> ready_queue s' (rs @ filter (due (ticks_since_boot s + 1) s) xs) \<and> events s' [e]
    \<and> ticks_since_boot s' = ticks_since_boot s + 1
    \<and> (\<forall>p. state (tcb s' p) = (if p \<in> set xs \<and> due (ticks_since_boot s + 1) s p then TASK_STATE_READY_TO_RUN else state (tcb s p)))"
proof -
  let ?s = "s\<lparr>ticks_since_boot := ticks_since_boot s + 1\<rparr>"
  have l: "sleepers ?s xs" "ready_queue ?s rs" "lock_ok 1 ?s" "due k ?s = due k s" for k
    using assms(3,4,6) by (auto simp: sleepers_def ready_queue_def lock_ok_def due_def)
  from update_awoken_spec [OF l(1,2) assms(5) l(3), of "ticks_since_boot s + 1"] obtain s' where
    s': "internal_update_awoken_taskes (ticks_since_boot s + 1) ?s = retK () s'"
      "sleepers s' (filter (\<lambda>p. \<not> due (ticks_since_boot s + 1) s p) xs)" "ready_queue s' (rs @ filter (due (ticks_since_boot s + 1) s) xs)"
      "sched.more s' = sched.more ?s" "ticks_since_boot s' = ticks_since_boot ?s"
      "\<forall>p. state (tcb s' p) = (if p \<in> set xs \<and> due (ticks_since_boot s + 1) s p then TASK_STATE_READY_TO_RUN else state (tcb ?s p))"
    unfolding l(4) by blast
  from s'(4) have t: "tev s' = tev s" "timer_events s' = timer_events s" by (cases s; cases s'; simp)+
  have e: "timer_events s = e" "e \<noteq> NULL" "tev_next (tev s e) = NULL" using assms(1) by (auto simp: events_def)
  have "irq_0_handler call s = retK () s'"
    using e s'(1) t assms(2) by (simp add: irq_0_handler_def, subst irq_0_loop.simps, simp, subst irq_0_loop.simps, simp)
  then show ?thesis using s' t assms(1) by (auto simp: events_def)
qed

text \<open>Witness of C9: tick 8, when the task that sleeps until 5 wakes.\<close>

theorem tick_wakes_due_witness:
  "\<exists>s'. irq_0_handler (\<lambda>_. internal_update_awoken_taskes) ((quiet_timer ())\<lparr>timer_events := 0xC0121008\<rparr>) = retK () s'
     \<and> sleepers s' [0x3000] \<and> ready_queue s' [0x2000] \<and> ticks_since_boot s' = 8"
proof -
  let ?s = "(quiet_timer ())\<lparr>timer_events := 0xC0121008\<rparr>"
  have l: "events ?s [0xC0121008]" "sleepers ?s [0x2000, 0x3000]" "ready_queue ?s []" "lock_ok 1 ?s"
    using quiet_timer_fields [of "()"] by (simp_all add: events_def sleepers_def ready_queue_def lock_ok_def)
  moreover have "due 8 ?s 0x2000" "\<not> due 8 ?s 0x3000" by (simp_all add: due_def quiet_timer_fields two_sleepers_tcb)
  ultimately show ?thesis
    using tick_wakes_due [OF l(1) _ l(2,3) _ l(4), of "\<lambda>_. internal_update_awoken_taskes"] by (simp add: quiet_timer_fields) blast
qed

end
