(* ===== verification/Kernel_Tasks.thy ===== *)
theory Kernel_Tasks
  imports Timer
begin

text \<open>
  Making and freeing kernel tasks (\<open>scheduler/scheduler.c\<close>, \<open>scheduler/forge_kernel_stack.S\<close>): the
  parts of the scheduler that allocate. A task control block lies in a block of the heap, and its
  contents in the typed store; the forged stack is written to the heap's bytes. The addresses of
  the functions a new task runs are arguments.
\<close>

section \<open>Operations\<close>

abbreviation (input) SIZEOF_TCB :: size_t where "SIZEOF_TCB \<equiv> 44"
abbreviation (input) KERNEL_STACK_SIZE :: size_t where "KERNEL_STACK_SIZE \<equiv> PAGE_SIZE * 4"

text \<open>The control block after \<open>memset\<close>.\<close>

definition zero_tcb :: TaskControlBlock where
  "zero_tcb = \<lparr>tid = 0, esp = 0, esp0 = 0, tcb_cr3 = 0, tnext = NULL, state = 0, time_used = 0, stack_base = NULL, target_wakeup_time = 0\<rparr>"

definition forge_kernel_stack :: "u32 \<Rightarrow> u32 \<Rightarrow> u32 \<Rightarrow> u32 \<Rightarrow> memory \<Rightarrow> u32 \<times> memory" where
  "forge_kernel_stack stack_top task task_start_up cleanup_func m =
     (let eax = stack_top - 4; m = store32 m eax cleanup_func;
          eax = eax - 4; m = store32 m eax task;
          eax = eax - 4; m = store32 m eax task_start_up;
          eax = eax - 16;
          m = store32 m eax 0; m = store32 m (eax + 4) 0; m = store32 m (eax + 8) 0; m = store32 m (eax + 12) 0
      in (eax, m))"

definition multitasking_initialize :: "u32 \<Rightarrow> 'z timer_scheme \<Rightarrow> (unit, 'z timer_scheme) kres option" where
  "multitasking_initialize internal_update_awoken_taskes_addr s =
     (let s = s\<lparr>irq_enabled := False\<rparr>
      in bindK (kmalloc SIZEOF_TCB s) (\<lambda>kernel_task s.
         if kernel_task = NULL then panicK (Abort ''failed to allocate kernel task'')
         else
           let s = upd_tcb kernel_task (\<lambda>_. zero_tcb) s;
               s = upd_tcb kernel_task (\<lambda>t. t\<lparr>tcb_cr3 := cr3 s\<rparr>) s;
               s = upd_tcb kernel_task (\<lambda>t. t\<lparr>tnext := kernel_task\<rparr>) s;
               s = s\<lparr>current_task_PCB := kernel_task\<rparr>;
               s = upd_tcb kernel_task (\<lambda>t. t\<lparr>state := TASK_STATE_RUNNING\<rparr>) s;
               s = upd_tcb kernel_task (\<lambda>t. t\<lparr>tid := ucast (current_pid s)\<rparr>) s;
               s = upd_tcb kernel_task (\<lambda>t. t\<lparr>stack_base := NULL\<rparr>) s;
               s = s\<lparr>last_tick := read_ticks_since_boot s\<rparr>
           in bindK (install_timer_event internal_update_awoken_taskes_addr s) (\<lambda>_ s.
              retK () (s\<lparr>postpone_task_switches_counter := 0, task_switches_postponed_flag := 0, IRQ_disable_counter := 0,
                         irq_enabled := True\<rparr>))))"

definition create_kernel_task :: "u32 \<Rightarrow> u32 \<Rightarrow> u32 \<Rightarrow> 'z heap_scheme \<Rightarrow> (u32, 'z heap_scheme) kres option" where
  "create_kernel_task task_start_up mark_task_for_death_addr f s =
     (let s = lock_scheduler s;
          s = s\<lparr>current_pid := current_pid s + 1\<rparr>
      in bindK (kmalloc SIZEOF_TCB s) (\<lambda>new_task s.
         if new_task = NULL then panicK (Abort ''failed to allocate kernel task'')
         else
           bindK (kmalloc KERNEL_STACK_SIZE (upd_tcb new_task (\<lambda>_. zero_tcb) s)) (\<lambda>stack_base_ptr s.
           if stack_base_ptr = NULL then
             bindK (kfree new_task s) (\<lambda>_ s. panicK (Abort ''failed to allocate task stack''))
           else
             let stack_top = stack_base_ptr + KERNEL_STACK_SIZE;
                 (e, m) = forge_kernel_stack stack_top f task_start_up mark_task_for_death_addr (mem s);
                 s = s\<lparr>mem := m, resume := (resume s)(new_task := Fresh)\<rparr>;
                 s = upd_tcb new_task (\<lambda>t. t\<lparr>esp := e, esp0 := stack_top, tcb_cr3 := cr3 s, state := TASK_STATE_READY_TO_RUN,
                       tid := ucast (current_pid s), stack_base := stack_base_ptr\<rparr>) s;
                 s = enqueue_ready new_task s
             in bindK (unlock_scheduler s) (\<lambda>_ s. retK new_task s))))"

definition free_task :: "u32 \<Rightarrow> 'z heap_scheme \<Rightarrow> (unit, 'z heap_scheme) kres option" where
  "free_task node s = bindK (kfree (stack_base (tcb s node)) s) (\<lambda>_ s. kfree node s)"

partial_function (option) cleanup_loop :: "u32 \<Rightarrow> 'z heap_scheme \<Rightarrow> (unit, 'z heap_scheme) kres option" where
  "cleanup_loop node s =
     (if node \<noteq> NULL then
        let nxt = tnext (tcb s node)
        in bindK (free_task node s) (\<lambda>_ s. cleanup_loop nxt s)
      else retK () s)"

definition dead_tasks_cleanup :: "'z heap_scheme \<Rightarrow> (unit, 'z heap_scheme) kres option" where
  "dead_tasks_cleanup s =
     (let s = lock_scheduler s
      in bindK (cleanup_loop (dead_tasks s) s) (\<lambda>_ s. unlock_scheduler (s\<lparr>dead_tasks := NULL\<rparr>)))"

section \<open>The forged stack\<close>

lemma store32_range: "unat a + 4 \<le> c \<Longrightarrow> c \<le> 2 ^ 32 \<Longrightarrow> b \<le> unat a \<Longrightarrow> same_outside b c m (store32 m a v)"
  by (rule same_outside_mono [OF store32_outside]) auto

lemma load32_other:
  assumes "unat a + 4 \<le> unat b \<or> unat b + 4 \<le> unat a" and "unat a + 4 \<le> 2 ^ 32" and "unat b + 4 \<le> 2 ^ 32"
  shows "load32 (store32 m a v) b = load32 m b"
proof -
  have "store32 m a v (b + of_nat k) = m (b + of_nat k)" if "k < 4" for k
  proof -
    have "unat (b + of_nat k) = unat b + k" using that assms(3) by (simp add: unat_add32 unat_of_nat)
    then show ?thesis using store32_outside [OF assms(2), of m v] assms(1) that by (auto simp: same_outside_def)
  qed
  from this [of 0] this [of 1] this [of 2] this [of 3] show ?thesis by (intro load32_cong) simp_all
qed

lemma forge_kernel_stack_spec:
  assumes "forge_kernel_stack tp f st cl m = (e, m')" and "28 \<le> unat tp"
  shows "unat e = unat tp - 28" "same_outside (unat tp - 28) (unat tp) m m'"
    "load32 m' (e + 16) = st" "load32 m' (e + 20) = f" "load32 m' (e + 24) = cl"
proof -
  have e: "e = tp - 28" and m': "m' = store32 (store32 (store32 (store32 (store32 (store32 (store32 m (tp - 4) cl) (tp - 8) f) (tp - 12) st)
      (tp - 28) 0) (tp - 24) 0) (tp - 20) 0) (tp - 16) 0"
    using assms(1) by (auto simp: forge_kernel_stack_def Let_def)
  obtain n where n: "unat tp = n + 28" using assms(2) by (metis le_add_diff_inverse2)
  have u: "unat (tp - 4) = n + 24" "unat (tp - 8) = n + 20" "unat (tp - 12) = n + 16" "unat (tp - 16) = n + 12"
    "unat (tp - 20) = n + 8" "unat (tp - 24) = n + 4" "unat (tp - 28) = n"
    using n by (simp_all add: unat_sub32 word_nat)
  show "unat e = unat tp - 28" using e u n by simp
  have b: "n + 28 \<le> 2 ^ 32" using unat_lt32 [of tp] n by (simp del: unat_lt32)
  show "same_outside (unat tp - 28) (unat tp) m m'"
    unfolding m' n by (intro same_outside_trans [OF _ store32_range] store32_range) (use b in \<open>simp_all add: u\<close>)
  have a: "e + 16 = tp - 12" "e + 20 = tp - 8" "e + 24 = tp - 4" by (simp_all add: e)
  show "load32 m' (e + 16) = st" "load32 m' (e + 20) = f" "load32 m' (e + 24) = cl"
    unfolding m' a using b by (simp_all add: load32_other u)
qed


section \<open>Creating a task\<close>

lemma heap_good_mem:
  assumes "heap_good s" and "(p, c) \<in> heap_blocks s" and "same_outside a b (mem s) m" and "unat p \<le> a" and "b \<le> unat p + c"
  shows "heap_good (s\<lparr>mem := m\<rparr>)" "heap_blocks (s\<lparr>mem := m\<rparr>) = heap_blocks s" "\<forall>x \<in> heap_blocks s - {(p, c)}. same_block x (mem s) m"
proof -
  obtain bs e where h: "heap_ok s bs e" and l: "lock_ok 0 s" using assms(1) by (auto simp: heap_good_def)
  from assms(2) obtain q d where q: "(q, d) \<in> live bs" "p = q + 8" "c = unat d - unat q - 8" by (auto simp: heap_blocks_eq [OF h])
  have "heap_ok (s\<lparr>mem := m\<rparr>) bs e"
    using assms(4,5) unat_payload [OF h q(1)] q(2,3) by (intro heap_ok_mem [OF h assms(3) q(1)]) simp_all
  with heap_blocks_eq [OF h] heap_blocks_eq [OF this] l
  show "heap_good (s\<lparr>mem := m\<rparr>)" "heap_blocks (s\<lparr>mem := m\<rparr>) = heap_blocks s" by (auto simp: heap_good_def lock_ok_def)
  show "\<forall>x \<in> heap_blocks s - {(p, c)}. same_block x (mem s) m"
  proof
    fix x assume x: "x \<in> heap_blocks s - {(p, c)}"
    then have "apart x (p, c)" using kheap.apart_law [OF assms(1) _ assms(2)] by blast
    with assms(4,5) show "same_block x (mem s) m"
      by (cases x) (auto simp: same_block_def apart_def intro!: same_bytes_outside [OF assms(3)])
  qed
qed

lemma heap_frame:
  assumes "\<And>bs e. heap_ok t bs e = heap_ok s bs e" and "lock_ok 0 t"
  shows "heap_good s \<Longrightarrow> heap_good t" "heap_blocks t = heap_blocks s"
proof -
  show "heap_good s \<Longrightarrow> heap_good t" using assms by (auto simp: heap_good_def)
  show "heap_blocks t = heap_blocks s" using assms(1) by (rule heap_blocks_cong)
qed

lemma lock_scheduler_pid [simp]: "current_pid (lock_scheduler s) = current_pid s"
  by (simp add: lock_scheduler_def)

text \<open>The two allocations of \<open>create_kernel_task\<close>.\<close>

text \<open>One of the two requests of \<open>create_kernel_task\<close>, made in the locked state \<open>l\<close>, fails; \<open>m\<close> is the message for it.\<close>

definition out_of_memory :: "'z heap_scheme \<Rightarrow> string \<Rightarrow> bool" where
  "out_of_memory l m \<longleftrightarrow> (\<exists>t. kmalloc SIZEOF_TCB l = retK NULL t) \<and> m = ''failed to allocate kernel task''
     \<or> (\<exists>p t u. p \<noteq> NULL \<and> kmalloc SIZEOF_TCB l = retK p t \<and> kmalloc KERNEL_STACK_SIZE (upd_tcb p (\<lambda>_. zero_tcb) t) = retK NULL u)
       \<and> m = ''failed to allocate task stack''"

lemma create_kernel_task_alloc:
  assumes "heap_good s" and "lock_ok 1 s" and "heap_room (16460 + k) s"
  defines "l \<equiv> (lock_scheduler s)\<lparr>current_pid := current_pid s + 1\<rparr>"
  shows "(\<exists>m. create_kernel_task st cl f s = panicK (Abort m) \<and> out_of_memory l m)
    \<or> (\<exists>p t q u c d. kmalloc SIZEOF_TCB l = retK p t \<and> kmalloc KERNEL_STACK_SIZE (upd_tcb p (\<lambda>_. zero_tcb) t) = retK q u
        \<and> p \<noteq> NULL \<and> q \<noteq> NULL \<and> kept l t \<and> kept (upd_tcb p (\<lambda>_. zero_tcb) t) u \<and> heap_good u \<and> heap_room k u \<and> 44 \<le> c \<and> 16384 \<le> d
        \<and> (p, c) \<notin> heap_blocks s \<and> (q, d) \<notin> insert (p, c) (heap_blocks s) \<and> heap_blocks u = insert (q, d) (insert (p, c) (heap_blocks s))
        \<and> (\<forall>x \<in> heap_blocks s. same_block x (mem s) (mem u)))"
proof -
  have lk: "lock_ok 0 l" using lock_ok_lock [of 0 s] assms(2) by (simp add: l_def lock_ok_def)
  have okl: "heap_ok l bs e = heap_ok s bs e" for bs e using heap_ok_lock [of s bs e] by (simp add: l_def)
  have good: "heap_good l" and bl: "heap_blocks l = heap_blocks s" using heap_frame [OF okl lk] assms(1) by simp_all
  have room: "heap_room (unat SIZEOF_TCB + 16 + (16400 + k)) l" using assms(3) by (simp add: heap_room_def l_def)
  from kheap.alloc_law [OF good room] obtain p t where
    t: "kmalloc SIZEOF_TCB l = retK p t" "heap_good t" "heap_room (16400 + k) t" "\<forall>x \<in> heap_blocks s. same_block x (mem s) (mem t)" and
    tb: "p = NULL \<and> heap_blocks t = heap_blocks s \<or> p \<noteq> NULL \<and> (\<exists>c \<ge> 44. (p, c) \<notin> heap_blocks s \<and> heap_blocks t = insert (p, c) (heap_blocks s))"
    unfolding bl by (auto simp: l_def)
  show ?thesis
  proof (cases "p = NULL")
    case True
    then show ?thesis using t(1) by (auto simp: create_kernel_task_def Let_def l_def out_of_memory_def)
  next
    case p: False
    with tb obtain c where c: "44 \<le> c" "(p, c) \<notin> heap_blocks s" "heap_blocks t = insert (p, c) (heap_blocks s)" by auto
    let ?t = "upd_tcb p (\<lambda>_. zero_tcb) t"
    have "lock_ok 0 ?t" using t(2) by (auto simp: heap_good_def lock_ok_def)
    from heap_frame [of ?t t, OF _ this] t(2) have good': "heap_good ?t" and bl': "heap_blocks ?t = heap_blocks t" by simp_all
    have room': "heap_room (unat KERNEL_STACK_SIZE + 16 + k) ?t" using t(3) by (simp add: heap_room_def upd_tcb_def)
    have mt: "mem ?t = mem t" by (simp add: upd_tcb_def)
    from kheap.alloc_law [OF good' room'] obtain q u where
      u: "kmalloc KERNEL_STACK_SIZE ?t = retK q u" "heap_good u" "heap_room k u" "\<forall>x \<in> heap_blocks t. same_block x (mem t) (mem u)" and
      ub: "q = NULL \<and> heap_blocks u = heap_blocks t \<or> q \<noteq> NULL \<and> (\<exists>d \<ge> 16384. (q, d) \<notin> heap_blocks t \<and> heap_blocks u = insert (q, d) (heap_blocks t))"
      unfolding bl' mt by auto
    show ?thesis
    proof (cases "q = NULL")
      case True
      with ub c have "(p, c) \<in> heap_blocks u" by simp
      from kheap.release_law [OF u(2) this] True t(1) u(1) p
      have "create_kernel_task st cl f s = panicK (Abort ''failed to allocate task stack'')"
        by (auto simp: create_kernel_task_def Let_def l_def)
      moreover have "out_of_memory l ''failed to allocate task stack''" using True t(1) u(1) p by (auto simp: out_of_memory_def)
      ultimately show ?thesis by blast
    next
      case q: False
      with ub obtain d where d: "16384 \<le> d" "(q, d) \<notin> heap_blocks t" "heap_blocks u = insert (q, d) (heap_blocks t)" by auto
      have "\<forall>x \<in> heap_blocks s. same_block x (mem s) (mem u)" using t(4) u(4) c(3) same_block_trans by blast
      with t(1) u(1-3) p q c d kmalloc_kept [OF good room t(1)] kmalloc_kept [OF good' room' u(1)] show ?thesis
        by (intro disjI2 exI [of _ p] exI [of _ t] exI [of _ q] exI [of _ u] exI [of _ c] exI [of _ d]) simp
    qed
  qed
qed


lemma new_block_notin:
  assumes "heap_good u" and "heap_blocks u = insert (q, d) (insert (p, c) B)" and "(p, c) \<notin> B" and "k \<le> c" and "0 < k"
    and "\<forall>r \<in> set rs. \<exists>c \<ge> k. (r, c) \<in> B"
  shows "p \<notin> set rs"
proof
  assume "p \<in> set rs"
  with assms(6) obtain c' where c': "k \<le> c'" "(p, c') \<in> B" by blast
  with kheap.apart_law [OF assms(1), of "(p, c)" "(p, c')"] assms(2,3) have "apart (p, c) (p, c')" by auto
  from apart_start [OF this] assms(4,5) c'(1) show False by simp
qed

lemma block_end:
  assumes "heap_good u" and "(q, d) \<in> heap_blocks u"
  shows "unat q + d < 4294967296"
proof -
  obtain bs e where h: "heap_ok u bs e" using assms(1) by (auto simp: heap_good_def)
  obtain b d' where b: "(b, d') \<in> live bs" "q = b + 8" "d = unat d' - unat b - 8" using assms(2) by (auto simp: heap_blocks_eq [OF h])
  have "unat q + d = unat d'" "unat d' + 8 < 4294967296" using unat_payload [OF h b(1)] live_bounds [OF h b(1)] b(2,3) by simp_all
  then show ?thesis by linarith
qed

text \<open>What creating the task \<open>p\<close> leaves of the other tasks.\<close>

definition task_added :: "'z sched_scheme \<Rightarrow> u32 \<Rightarrow> 'z sched_scheme \<Rightarrow> bool" where
  "task_added s p s' \<longleftrightarrow> current_task_PCB s' = current_task_PCB s \<and> current_pid s' = current_pid s + 1
     \<and> sleeping_taskes s' = sleeping_taskes s \<and> dead_tasks s' = dead_tasks s
     \<and> task_switches_postponed_flag s' = task_switches_postponed_flag s
     \<and> (\<forall>r. r \<noteq> p \<longrightarrow> (tcb s' r)\<lparr>tnext := NULL\<rparr> = (tcb s r)\<lparr>tnext := NULL\<rparr> \<and> resume s' r = resume s r)"

lemma task_added_fields:
  assumes "task_added s p s'" and "r \<noteq> p"
  shows "state (tcb s' r) = state (tcb s r)" "tid (tcb s' r) = tid (tcb s r)" "esp (tcb s' r) = esp (tcb s r)" "resume s' r = resume s r"
proof -
  have e: "(tcb s' r)\<lparr>tnext := NULL\<rparr> = (tcb s r)\<lparr>tnext := NULL\<rparr>" "resume s' r = resume s r" using assms by (simp_all add: task_added_def)
  show "state (tcb s' r) = state (tcb s r)" "tid (tcb s' r) = tid (tcb s r)" "esp (tcb s' r) = esp (tcb s r)" "resume s' r = resume s r"
    using arg_cong [OF e(1), of state] arg_cong [OF e(1), of tid] arg_cong [OF e(1), of esp] e(2) by simp_all
qed

lemma create_kernel_task_spec:
  assumes "heap_good s" and "lock_ok 1 s" and "heap_room (16460 + k) s" and "ready_queue s rs" and "\<forall>r \<in> set rs. \<exists>c \<ge> 44. (r, c) \<in> heap_blocks s"
  shows "(\<exists>m. create_kernel_task st cl f s = panicK (Abort m) \<and> out_of_memory ((lock_scheduler s)\<lparr>current_pid := current_pid s + 1\<rparr>) m)
    \<or> (\<exists>p s' c d. create_kernel_task st cl f s = retK p s' \<and> p \<notin> set rs \<and> ready_queue s' (rs @ [p]) \<and> heap_good s'
        \<and> 44 \<le> c \<and> 16384 \<le> d \<and> heap_blocks s' = insert (stack_base (tcb s' p), d) (insert (p, c) (heap_blocks s))
        \<and> (p, c) \<notin> heap_blocks s \<and> (stack_base (tcb s' p), d) \<notin> insert (p, c) (heap_blocks s)
        \<and> (\<forall>x \<in> heap_blocks s. same_block x (mem s) (mem s'))
        \<and> state (tcb s' p) = TASK_STATE_READY_TO_RUN \<and> tid (tcb s' p) = ucast (current_pid s + 1) \<and> resume s' p = Fresh
        \<and> unat (esp (tcb s' p)) = unat (stack_base (tcb s' p)) + 16384 - 28
        \<and> load32 (mem s') (esp (tcb s' p) + 16) = st \<and> load32 (mem s') (esp (tcb s' p) + 20) = f \<and> load32 (mem s') (esp (tcb s' p) + 24) = cl
        \<and> IRQ_disable_counter s' = IRQ_disable_counter s \<and> postpone_task_switches_counter s' = postpone_task_switches_counter s
        \<and> heap_room k s' \<and> task_added s p s')"
proof -
  define l where "l = (lock_scheduler s)\<lparr>current_pid := current_pid s + 1\<rparr>"
  show ?thesis
  proof (cases "\<exists>m. create_kernel_task st cl f s = panicK (Abort m) \<and> out_of_memory l m")
    case True
    then show ?thesis unfolding l_def by blast
  next
    case False
    with create_kernel_task_alloc [OF assms(1-3), of st cl f, folded l_def] obtain p t q u c d where
      t: "kmalloc SIZEOF_TCB l = retK p t" and u: "kmalloc KERNEL_STACK_SIZE (upd_tcb p (\<lambda>_. zero_tcb) t) = retK q u"
      and ne: "p \<noteq> NULL" "q \<noteq> NULL" and kt: "kept l t" and ku: "kept (upd_tcb p (\<lambda>_. zero_tcb) t) u" and good: "heap_good u" and room: "heap_room k u"
      and cd: "44 \<le> c" "16384 \<le> d" "(p, c) \<notin> heap_blocks s" "(q, d) \<notin> insert (p, c) (heap_blocks s)"
      and ub: "heap_blocks u = insert (q, d) (insert (p, c) (heap_blocks s))" and sb: "\<forall>x \<in> heap_blocks s. same_block x (mem s) (mem u)"
      by blast
    have notin: "p \<notin> set rs" by (rule new_block_notin [OF good ub cd(3,1) _ assms(5)]) simp
    let ?top = "q + KERNEL_STACK_SIZE"
    obtain e m where em: "forge_kernel_stack ?top f st cl (mem u) = (e, m)" by (cases "forge_kernel_stack ?top f st cl (mem u)")
    have top: "unat ?top = unat q + 16384" using block_end [OF good, of q d] ub cd(2) by (simp add: unat_add32)
    note fs = forge_kernel_stack_spec [OF em, unfolded top, simplified]
    have "same_outside (unat q + 16384 - 28) (unat q + 16384) (mem u) m" using fs(2) by simp
    note hm = heap_good_mem [OF good _ this, of q d, unfolded ub, simplified]
    define v where "v = (upd_tcb p (\<lambda>x. x\<lparr>esp := e, esp0 := ?top, tcb_cr3 := cr3 u, state := TASK_STATE_READY_TO_RUN,
        tid := ucast (current_pid u), stack_base := q\<rparr>) (u\<lparr>mem := m, resume := (resume u)(p := Fresh)\<rparr>))"
    define w where "w = enqueue_ready p v"
    have tu: "tcb u = (tcb s)(p := zero_tcb)" "first_ready_to_run_task u = first_ready_to_run_task s" "last_ready_to_run_task u = last_ready_to_run_task s"
      "current_pid u = current_pid s + 1" "same_lock (lock_scheduler s) u"
      using kt ku assms(2) unat_inc32 [of "IRQ_disable_counter s"]
      by (auto simp: kept_def l_def upd_tcb_def same_lock_def lock_scheduler_def lock_ok_def unat_eq_0 [symmetric])
    have qv: "ready_queue v rs"
      using assms(4) notin tu by (subst ready_queue_cong [of _ s]) (auto simp: v_def)
    have tv: "tcb v p = zero_tcb\<lparr>esp := e, esp0 := ?top, tcb_cr3 := cr3 u, state := TASK_STATE_READY_TO_RUN, tid := ucast (current_pid s + 1), stack_base := q\<rparr>"
      by (simp add: v_def tu)
    have qw: "ready_queue w (rs @ [p])" unfolding w_def by (rule enqueue_ready_queue [OF qv ne(1) notin]) (simp add: tv zero_tcb_def)
    have lw: "same_lock (lock_scheduler s) w" using tu(5) by (simp add: w_def v_def same_lock_def)
    have "create_kernel_task st cl f s = bindK (unlock_scheduler w) (\<lambda>_ s. retK p s)"
      using t u ne em by (simp add: create_kernel_task_def Let_def l_def w_def v_def)
    then have res: "create_kernel_task st cl f s = retK p (unlocked s w)" using unlock_locked [OF assms(2) lw] by simp
    have okw: "heap_ok (unlocked s w) bs e' = heap_ok (u\<lparr>mem := m\<rparr>) bs e'" for bs e' by (simp add: w_def v_def)
    have "lock_ok 0 (unlocked s w)" using assms(2) lw by (auto simp: lock_ok_def same_lock_def lock_scheduler_def)
    from heap_frame [OF okw this] hm(1,2) have hw: "heap_good (unlocked s w)" "heap_blocks (unlocked s w) = heap_blocks u" using cd(2) ub by simp_all
    have tw: "esp (tcb w p) = e" "stack_base (tcb w p) = q" "state (tcb w p) = TASK_STATE_READY_TO_RUN" "tid (tcb w p) = ucast (current_pid s + 1)" "mem w = m"
      "resume w p = Fresh"
      using tv by (auto simp: w_def enqueue_ready_def) (auto simp: v_def upd_tcb_def)
    have sw: "\<forall>x \<in> heap_blocks s. same_block x (mem s) m"
    proof
      fix x assume x: "x \<in> heap_blocks s"
      then have "x \<in> heap_blocks u - {(q, d)}" using ub cd(4) by auto
      with hm(3) ub cd(2) have "same_block x (mem u) m" by auto
      with sb x same_block_trans show "same_block x (mem s) m" by blast
    qed
    have rw: "heap_room k (unlocked s w)" using room by (simp add: heap_room_def w_def v_def enqueue_ready_def upd_tcb_def)
    have aw: "task_added s p (unlocked s w)"
    proof -
      have "current_task_PCB u = current_task_PCB s" "sleeping_taskes u = sleeping_taskes s" "dead_tasks u = dead_tasks s"
        "task_switches_postponed_flag u = task_switches_postponed_flag s" "resume u = resume s"
        using kt ku by (simp_all add: kept_def l_def lock_scheduler_def upd_tcb_def)
      with tu(1,4) show ?thesis unfolding task_added_def w_def v_def enqueue_ready_def unlocked_def upd_tcb_def by simp
    qed
    show ?thesis
      by (rule disjI2, rule exI [of _ p], rule exI [of _ "unlocked s w"], rule exI [of _ c], rule exI [of _ d])
        (use rw aw res notin qw hw cd ub sw tw fs top in \<open>simp add: ready_queue_def\<close>)
  qed
qed


text \<open>With room in the heap's free blocks the task is made: the blocks are those that first fit finds.\<close>

lemma kmalloc_fits:
  assumes "heap_ok s bs e" and "lock_ok 0 s" and "heap_room (unat n + 16) s" and "unat n \<le> 0x7FFFFF00" and "abs_alloc (round8 (unat n)) bs = Some (q, bs')"
  shows "\<exists>s' d. kmalloc n s = retK (q + 8) s' \<and> kept s s' \<and> heap_ok s' bs' e \<and> q + 8 \<noteq> NULL \<and> (q, d) \<in> live bs' \<and> unat q + 8 + unat n \<le> unat d"
proof -
  have "unat (program_break_point s) + round8 (unat n) + 8 + 4095 \<le> 0xFFC00000"
    using assms(3) round8_bounds(2) [of "unat n"] by (simp add: heap_room_def)
  from kmalloc_spec [OF assms(1,2,4) this] assms(5) obtain s' where s': "kmalloc n s = retK (q + 8) s'" "kept s s'" "heap_ok s' bs' e" by auto
  have "hseg (mem s) (heap_start s) bs e" using assms(1) by (simp add: heap_ok_def heap_list_def)
  from abs_alloc_live [OF this assms(5)] obtain d where d: "(q, d) \<in> live bs'" "unat q + 8 + unat n \<le> unat d" by blast
  have "q + 8 \<noteq> NULL" using unat_payload(1) [OF s'(3) d(1)] by auto
  with s' d show ?thesis by blast
qed

primrec abs_allocs :: "nat list \<Rightarrow> blk list \<Rightarrow> blk list option" where
  "abs_allocs [] bs = Some bs"
| "abs_allocs (k # ks) bs = (case abs_alloc k bs of None \<Rightarrow> None | Some (_, bs') \<Rightarrow> abs_allocs ks bs')"

lemma create_kernel_task_fits:
  assumes "heap_ok s bs e" and "lock_ok 1 s" and "heap_room 16460 s" and "abs_allocs [48, 16384] bs = Some bs2"
  shows "\<exists>p s'. create_kernel_task st cl f s = retK p s' \<and> heap_ok s' bs2 e"
proof -
  from assms(4) obtain a bs1 b where al: "abs_alloc 48 bs = Some (a, bs1)" "abs_alloc 16384 bs1 = Some (b, bs2)"
    by (auto split: option.splits)
  define l where "l = (lock_scheduler s)\<lparr>current_pid := current_pid s + 1\<rparr>"
  have lk: "lock_ok 0 l" using lock_ok_lock [of 0 s] assms(2) by (simp add: l_def lock_ok_def)
  have "heap_ok l bs e" using assms(1) heap_ok_lock [of s bs e] by (simp add: l_def)
  moreover have r: "round8 (unat SIZEOF_TCB) = 48" "round8 (unat KERNEL_STACK_SIZE) = 16384" by (simp_all add: round8_def)
  moreover have pb: "program_break_point l = program_break_point s" by (simp add: l_def)
  then have "heap_room (unat SIZEOF_TCB + 16) l" using assms(3) by (simp add: heap_room_def)
  ultimately obtain t where t: "kmalloc SIZEOF_TCB l = retK (a + 8) t" "kept l t" "heap_ok t bs1 e" "a + 8 \<noteq> NULL"
    using kmalloc_fits [of l bs e SIZEOF_TCB a bs1] lk al(1) by auto
  let ?t = "upd_tcb (a + 8) (\<lambda>_. zero_tcb) t"
  have h: "heap_ok ?t bs1 e" "lock_ok 0 ?t" using t(3) kept_lock_ok [OF t(2) lk] by (simp_all add: lock_ok_def)
  have "unat (program_break_point s) = unat e + 8" "unat (program_break_point t) = unat e + 8" using assms(1) t(3) by (simp_all add: heap_ok_def)
  then have "heap_room (unat KERNEL_STACK_SIZE + 16) ?t" using assms(3) by (simp add: heap_room_def upd_tcb_def)
  then obtain u d where u: "kmalloc KERNEL_STACK_SIZE ?t = retK (b + 8) u" "kept ?t u" "heap_ok u bs2 e" "b + 8 \<noteq> NULL" "(b, d) \<in> live bs2" "unat b + 8 + 16384 \<le> unat d"
    using kmalloc_fits [OF h, of KERNEL_STACK_SIZE b bs2, unfolded r] al(2) by auto
  let ?top = "b + 8 + KERNEL_STACK_SIZE"
  obtain x m where xm: "forge_kernel_stack ?top f st cl (mem u) = (x, m)" by (cases "forge_kernel_stack ?top f st cl (mem u)")
  have top: "unat ?top = unat b + 8 + 16384" using unat_payload(1) [OF u(3,5)] live_bounds(4) [OF u(3,5)] u(6) by (subst unat_add32) simp_all
  have so: "same_outside (unat ?top - 28) (unat ?top) (mem u) m" using forge_kernel_stack_spec(2) [OF xm] top by simp
  have "unat b + 8 \<le> unat ?top - 28" "unat ?top \<le> unat d" unfolding top using u(6) by linarith+
  then have hm: "heap_ok (u\<lparr>mem := m\<rparr>) bs2 e" by (rule heap_ok_mem [OF u(3) so u(5)])
  define v where "v = (upd_tcb (a + 8) (\<lambda>y. y\<lparr>esp := x, esp0 := ?top, tcb_cr3 := cr3 u, state := TASK_STATE_READY_TO_RUN,
      tid := ucast (current_pid u), stack_base := b + 8\<rparr>) (u\<lparr>mem := m, resume := (resume u)(a + 8 := Fresh)\<rparr>))"
  define w where "w = enqueue_ready (a + 8) v"
  have "same_lock (lock_scheduler s) u"
    using t(2) u(2) assms(2) unat_inc32 [of "IRQ_disable_counter s"]
    by (auto simp: kept_def l_def upd_tcb_def same_lock_def lock_scheduler_def lock_ok_def unat_eq_0 [symmetric])
  then have lw: "same_lock (lock_scheduler s) w" by (simp add: w_def v_def same_lock_def)
  have "create_kernel_task st cl f s = bindK (unlock_scheduler w) (\<lambda>_ s. retK (a + 8) s)"
    using t(1,4) u(1,4) xm by (simp add: create_kernel_task_def Let_def l_def w_def v_def)
  then have "create_kernel_task st cl f s = retK (a + 8) (unlocked s w)" using unlock_locked [OF assms(2) lw] by simp
  moreover have "heap_ok (unlocked s w) bs2 e" using hm by (simp add: w_def v_def)
  ultimately show ?thesis by blast
qed

section \<open>Freeing dead tasks\<close>

text \<open>The blocks of a task, with the capacities \<open>c\<close> of its control block and \<open>d\<close> of its stack.\<close>

definition task_blocks :: "(u32 \<Rightarrow> nat) \<Rightarrow> (u32 \<Rightarrow> nat) \<Rightarrow> 'z sched_scheme \<Rightarrow> u32 \<Rightarrow> (u32 \<times> nat) list" where
  "task_blocks c d s p = [(stack_base (tcb s p), d p), (p, c p)]"

lemma free_task_spec:
  assumes "heap_good s" and "set (task_blocks c d s p) \<subseteq> heap_blocks s" and "distinct (task_blocks c d s p)"
  shows "\<exists>s'. free_task p s = retK () s' \<and> heap_good s' \<and> kept s s' \<and> heap_blocks s' = heap_blocks s - set (task_blocks c d s p)"
proof -
  let ?sb = "(stack_base (tcb s p), d p)"
  have sb: "?sb \<in> heap_blocks s" and pc: "(p, c p) \<in> heap_blocks s - {?sb}" using assms(2,3) by (auto simp: task_blocks_def)
  from kheap.release_law [OF assms(1) sb] obtain t where
    t: "kfree (stack_base (tcb s p)) s = retK () t" "heap_good t" "heap_blocks t = heap_blocks s - {?sb}" by blast
  from kheap.release_law [OF t(2), of p "c p"] pc t(3) obtain u where
    u: "kfree p t = retK () u" "heap_good u" "heap_blocks u = heap_blocks t - {(p, c p)}" by auto
  have "kept s u" using kfree_kept [OF assms(1) sb t(1)] kfree_kept [OF t(2) _ u(1), of "c p"] pc t(3) kept_trans by blast
  with t u show ?thesis by (auto simp: free_task_def task_blocks_def)
qed

lemma cleanup_loop_spec:
  assumes "heap_good s" and "chain (tnexts s) a ds" and "set (concat (map (task_blocks c d s) ds)) \<subseteq> heap_blocks s"
    and "distinct (concat (map (task_blocks c d s) ds))" and "IRQ_disable_counter s \<noteq> 0" and "\<not> irq_enabled s"
  shows "\<exists>s'. cleanup_loop a s = retK () s' \<and> heap_good s' \<and> kept s s' \<and> heap_blocks s' = heap_blocks s - set (concat (map (task_blocks c d s) ds))"
  using assms
proof (induction ds arbitrary: a s)
  case Nil
  then show ?case by (subst cleanup_loop.simps) (simp add: kept_def)
next
  case (Cons x ds)
  from free_task_spec [OF Cons.prems(1), of c d x] Cons.prems(3,4) obtain t where
    t: "free_task x s = retK () t" "heap_good t" "kept s t" "heap_blocks t = heap_blocks s - set (task_blocks c d s x)" by auto
  have same: "tcb t = tcb s" "IRQ_disable_counter t \<noteq> 0" "\<not> irq_enabled t" using t(3) Cons.prems(5) by (simp_all add: kept_def)
  then have tb: "task_blocks c d t = task_blocks c d s" by (simp add: task_blocks_def fun_eq_iff)
  have "chain (tnexts t) (tnext (tcb s x)) ds" using Cons.prems(2) same(1) by simp
  moreover have "set (concat (map (task_blocks c d t) ds)) \<subseteq> heap_blocks t" "distinct (concat (map (task_blocks c d t) ds))"
    using Cons.prems(3,4) unfolding tb t(4) by auto
  ultimately obtain s' where s': "cleanup_loop (tnext (tcb s x)) t = retK () s'" "heap_good s'" "kept t s'"
    "heap_blocks s' = heap_blocks t - set (concat (map (task_blocks c d s) ds))"
    using Cons.IH [OF t(2), of "tnext (tcb s x)"] same(2,3) unfolding tb by blast
  have "cleanup_loop a s = retK () s'" using Cons.prems(2) t(1) s'(1) by (subst cleanup_loop.simps) simp
  with s' kept_trans [OF t(3)] t(4) show ?case by auto
qed

lemma dead_tasks_cleanup_spec:
  assumes "heap_good s" and "lock_ok 1 s" and "dead s ds" and "set (concat (map (task_blocks c d s) ds)) \<subseteq> heap_blocks s"
    and "distinct (concat (map (task_blocks c d s) ds))"
  shows "\<exists>s'. dead_tasks_cleanup s = retK () s' \<and> heap_good s' \<and> dead s' [] \<and> tcb s' = tcb s
    \<and> first_ready_to_run_task s' = first_ready_to_run_task s \<and> last_ready_to_run_task s' = last_ready_to_run_task s
    \<and> sleeping_taskes s' = sleeping_taskes s \<and> heap_blocks s' = heap_blocks s - set (concat (map (task_blocks c d s) ds))"
proof -
  let ?l = "lock_scheduler s"
  have lk: "lock_ok 0 ?l" using lock_ok_lock [of 0 s] assms(2) by simp
  have good: "heap_good ?l" and bl: "heap_blocks ?l = heap_blocks s" using heap_frame [of ?l s, OF _ lk] assms(1) by simp_all
  have irq: "IRQ_disable_counter ?l \<noteq> 0" "\<not> irq_enabled ?l"
    using assms(2) unat_inc32 [of "IRQ_disable_counter s"] by (auto simp: lock_ok_def lock_scheduler_def unat_eq_0 [symmetric])
  have tb: "task_blocks c d ?l = task_blocks c d s" by (simp add: task_blocks_def fun_eq_iff)
  have "chain (tnexts ?l) (dead_tasks ?l) ds" using assms(3) by (simp add: dead_def)
  from cleanup_loop_spec [OF good this _ _ irq, of c d, unfolded tb bl, OF assms(4,5)] obtain t where
    t: "cleanup_loop (dead_tasks ?l) ?l = retK () t" "heap_good t" "kept ?l t" "heap_blocks t = heap_blocks s - set (concat (map (task_blocks c d s) ds))" by blast
  let ?t = "t\<lparr>dead_tasks := NULL\<rparr>"
  have sl: "same_lock ?l ?t" using t(3) irq by (simp add: kept_def same_lock_def)
  have res: "dead_tasks_cleanup s = retK () (unlocked s ?t)" using t(1) unlock_locked [OF assms(2) sl] by (simp add: dead_tasks_cleanup_def)
  have "lock_ok 0 (unlocked s ?t)" using assms(2) sl by (auto simp: lock_ok_def same_lock_def lock_scheduler_def)
  from heap_frame [of "unlocked s ?t" t, OF _ this] t(2) have "heap_good (unlocked s ?t)" "heap_blocks (unlocked s ?t) = heap_blocks t" by simp_all
  with res t(3,4) show ?thesis by (auto simp: dead_def kept_def)
qed

section \<open>Properties\<close>

text \<open>C8: creating a task. Either \<open>kmalloc\<close> returns \<open>NULL\<close> for the control block or for the stack and the kernel aborts with the message for it, which
  does not happen when first fit finds room for the control block
  and then for the stack, or the new task is the last of
  the ready queue, ready, with the next process id; its control block and its stack are new blocks
  of the heap, apart from each other and from every block handed out, whose contents are kept; and
  its stack is forged so that the first switch to it returns to \<open>task_start_up\<close>, from there to the
  task's function, and from there to \<open>mark_task_for_death\<close>.\<close>

theorem create_kernel_task_correct:
  assumes "heap_good s" and "lock_ok 1 s" and "heap_room 16460 s" and "ready_queue s rs" and "\<forall>r \<in> set rs. \<exists>c \<ge> 44. (r, c) \<in> heap_blocks s"
  shows "(\<exists>m. create_kernel_task st cl f s = panicK (Abort m) \<and> out_of_memory ((lock_scheduler s)\<lparr>current_pid := current_pid s + 1\<rparr>) m)
        \<and> (\<forall>bs e. heap_ok s bs e \<longrightarrow> abs_allocs [48, 16384] bs = None)
    \<or> (\<exists>p s' c d. create_kernel_task st cl f s = retK p s' \<and> p \<notin> set rs \<and> ready_queue s' (rs @ [p]) \<and> heap_good s'
        \<and> 44 \<le> c \<and> 16384 \<le> d \<and> heap_blocks s' = insert (stack_base (tcb s' p), d) (insert (p, c) (heap_blocks s))
        \<and> apart (p, c) (stack_base (tcb s' p), d)
        \<and> (\<forall>x \<in> heap_blocks s. apart x (p, c) \<and> apart x (stack_base (tcb s' p), d) \<and> same_block x (mem s) (mem s'))
        \<and> state (tcb s' p) = TASK_STATE_READY_TO_RUN \<and> tid (tcb s' p) = ucast (current_pid s + 1) \<and> resume s' p = Fresh
        \<and> unat (esp (tcb s' p)) = unat (stack_base (tcb s' p)) + 16384 - 28
        \<and> load32 (mem s') (esp (tcb s' p) + 16) = st \<and> load32 (mem s') (esp (tcb s' p) + 20) = f \<and> load32 (mem s') (esp (tcb s' p) + 24) = cl
        \<and> IRQ_disable_counter s' = IRQ_disable_counter s \<and> postpone_task_switches_counter s' = postpone_task_switches_counter s)"
proof -
  have "apart (p, c) (q, d) \<and> (\<forall>x \<in> B. apart x (p, c) \<and> apart x (q, d))"
    if "heap_good s'" "heap_blocks s' = insert (q, d) (insert (p, c) B)" "(p, c) \<notin> B" "(q, d) \<notin> insert (p, c) B" for s' :: "'a heap_scheme" and p q c d B
    using kheap.apart_law [OF that(1)] that(2-4) by auto
  note blocks = this
  have fit: "abs_allocs [48, 16384] bs = None" if "create_kernel_task st cl f s = panicK (Abort m)" "heap_ok s bs e" for m bs e
    using create_kernel_task_fits [OF that(2) assms(2,3), of _ st cl f] that(1) by (cases "abs_allocs [48, 16384] bs") (auto simp del: abs_allocs.simps)
  have room: "heap_room (16460 + 0) s" using assms(3) by simp
  from create_kernel_task_spec [OF assms(1,2) room assms(4,5), of st cl f] show ?thesis
  proof (elim disjE exE conjE)
    fix m assume "create_kernel_task st cl f s = panicK (Abort m)" "out_of_memory ((lock_scheduler s)\<lparr>current_pid := current_pid s + 1\<rparr>) m"
    with fit show ?thesis by (intro disjI1) blast
  next
    fix p s' c d
    assume r: "create_kernel_task st cl f s = retK p s'" "heap_good s'" "heap_blocks s' = insert (stack_base (tcb s' p), d) (insert (p, c) (heap_blocks s))"
      "(p, c) \<notin> heap_blocks s" "(stack_base (tcb s' p), d) \<notin> insert (p, c) (heap_blocks s)" "44 \<le> c" "16384 \<le> d"
      "\<forall>x \<in> heap_blocks s. same_block x (mem s) (mem s')"
      and q: "p \<notin> set rs" "ready_queue s' (rs @ [p])" "state (tcb s' p) = TASK_STATE_READY_TO_RUN" "tid (tcb s' p) = ucast (current_pid s + 1)" "resume s' p = Fresh"
      "unat (esp (tcb s' p)) = unat (stack_base (tcb s' p)) + 16384 - 28"
      "load32 (mem s') (esp (tcb s' p) + 16) = st" "load32 (mem s') (esp (tcb s' p) + 20) = f" "load32 (mem s') (esp (tcb s' p) + 24) = cl"
      "IRQ_disable_counter s' = IRQ_disable_counter s" "postpone_task_switches_counter s' = postpone_task_switches_counter s"
    from blocks [OF r(2-5)] r q show ?thesis
      by (intro disjI2 exI [of _ p] exI [of _ s'] exI [of _ c] exI [of _ d]) simp
  qed
qed

text \<open>Witness of C8: in a heap of one free block of 3 MB a task is made.\<close>

theorem create_kernel_task_correct_witness:
  "\<exists>p s'. create_kernel_task 0xC0107000 0xC0107100 0xC0100000 ((example_heap 1)\<lparr>first_ready_to_run_task := 0, last_ready_to_run_task := 0\<rparr>) = retK p s'
     \<and> ready_queue s' [p] \<and> load32 (mem s') (esp (tcb s' p) + 16) = 0xC0107000"
proof -
  let ?s = "(example_heap 1)\<lparr>first_ready_to_run_task := 0, last_ready_to_run_task := 0\<rparr>"
  have "lock_ok 1 ?s" using example_heap_lock(1) [of 1] by (simp add: lock_ok_def)
  moreover have "heap_good ?s" using example_heap_ok [of 1] example_heap_lock(2) [of 1] by (auto simp: heap_good_def lock_ok_def)
  moreover have "heap_room 16460 ?s" "ready_queue ?s []" by (simp_all add: heap_room_def ready_queue_def)
  moreover have "heap_ok ?s [(0xC0121000, HEAP_END, True)] HEAP_END" using example_heap_ok [of 1] by simp
  moreover have "abs_allocs [48, 16384] [(0xC0121000, HEAP_END, True)] \<noteq> None" by (simp add: fits_def split_blk_def round8_def)
  ultimately show ?thesis
    using create_kernel_task_correct [of ?s "[]" "0xC0107000" "0xC0107100" "0xC0100000"] by auto
qed

text \<open>C23: \<open>dead_tasks_cleanup\<close> ends and gives back exactly the control blocks and stacks of the dead
  tasks; the dead list is empty afterwards and no other list changes.\<close>

theorem dead_tasks_cleanup_frees:
  assumes "heap_good s" and "lock_ok 1 s" and "dead s ds" and "set (concat (map (task_blocks c d s) ds)) \<subseteq> heap_blocks s"
    and "distinct (concat (map (task_blocks c d s) ds))"
  shows "\<exists>s'. dead_tasks_cleanup s = retK () s' \<and> heap_good s' \<and> dead s' [] \<and> tcb s' = tcb s
    \<and> first_ready_to_run_task s' = first_ready_to_run_task s \<and> last_ready_to_run_task s' = last_ready_to_run_task s
    \<and> sleeping_taskes s' = sleeping_taskes s \<and> heap_blocks s' = heap_blocks s - set (concat (map (task_blocks c d s) ds))"
  using assms by (rule dead_tasks_cleanup_spec)


text \<open>A heap of two used blocks that are the control block and the stack of a dead task, for the witness.\<close>

lemma heap_list_Cons:
  assumes "heap_list m n bs e" and "unat b + 8 \<le> unat n"
  shows "heap_list (internal_heap_block_set_metadata b EOM_FALSE f n m) b ((b, n, f \<noteq> 0) # bs) e"
proof -
  let ?m = "internal_heap_block_set_metadata b EOM_FALSE f n m"
  have b8: "unat b + 8 \<le> 2 ^ 32" using assms(2) by (rule below_word)
  note out = set_metadata_outside [OF b8, of m EOM_FALSE f n]
  have n: "hseg m n bs e" "unat n \<le> unat e" "unat e + 8 \<le> 2 ^ 32" using assms(1) hseg_le by (auto simp: heap_list_def)
  have "hseg ?m n bs e" using assms(2) by (intro hseg_same [OF n(1) same_bytes_outside [OF out]]) simp
  moreover have "EOM_at ?m e"
    using header_same [OF same_bytes_outside [OF out, of "unat e + 8" "unat e"], of e] assms n by (simp add: EOM_at_def heap_list_def)
  ultimately show ?thesis using b8 assms(2) n(3) by (simp add: heap_list_def)
qed

definition dead_task :: heap where
  "dead_task = (one_page_heap (internal_heap_block_set_metadata 0xC0121000 EOM_FALSE 0 0xC0121038 (one_block 0 0xC0121038 (\<lambda>_. 0)))
      0xC0400000 0xC0121000 ())
     \<lparr>dead_tasks := 0xC0121008, tcb := \<lambda>_. (blank_task 1 0 0)\<lparr>stack_base := 0xC0121040\<rparr>\<rparr>"

lemma dead_task_ok: "heap_ok dead_task [(0xC0121000, 0xC0121038, False), (0xC0121038, HEAP_END, False)] HEAP_END"
proof -
  have "heap_list (one_block 0 0xC0121038 (\<lambda>_. 0)) 0xC0121038 [(0xC0121038, HEAP_END, False)] HEAP_END"
    using one_block_list [of "0xC0121038" 0] by simp
  from heap_list_Cons [OF this, of "0xC0121000" 0]
  show ?thesis using one_page_heap_brk [of "0xC0400000" "internal_heap_block_set_metadata 0xC0121000 EOM_FALSE 0 0xC0121038 (one_block 0 0xC0121038 (\<lambda>_. 0))" "0xC0121000" "()"]
    by (simp add: dead_task_def) (simp add: heap_ok_def)
qed

lemma dead_task_good: "heap_good dead_task" "lock_ok 1 dead_task"
proof -
  show l: "lock_ok 1 dead_task" by (simp add: lock_ok_def dead_task_def one_page_heap_def three_tasks_def empty_space_def)
  then show "heap_good dead_task" using dead_task_ok by (auto simp: heap_good_def lock_ok_def)
qed

text \<open>Witness of C23.\<close>

theorem dead_tasks_cleanup_frees_witness:
  "\<exists>s'. dead_tasks_cleanup dead_task = retK () s' \<and> dead s' [] \<and> heap_blocks s' = {}"
proof -
  let ?c = "\<lambda>_. 48" and ?d = "\<lambda>_. unat HEAP_END - unat (0xC0121038 :: u32) - 8"
  have "dead dead_task [0xC0121008]" by (simp add: dead_def dead_task_def blank_task_def)
  moreover have b: "heap_blocks dead_task = {(0xC0121008, 48), (0xC0121040, ?d 0)}" by (simp add: heap_blocks_eq [OF dead_task_ok])
  moreover have "concat (map (task_blocks ?c ?d dead_task) [0xC0121008]) = [(0xC0121040, ?d 0), (0xC0121008, 48)]"
    by (simp add: task_blocks_def dead_task_def)
  ultimately show ?thesis
    using dead_tasks_cleanup_frees [OF dead_task_good, of "[0xC0121008]" ?c ?d] by auto
qed


text \<open>Starting multitasking. Either the kernel aborts for lack of memory, or the code that runs has
  become a task: a new block of the heap is its control block, it is the current task, running,
  with the current process id and without a stack of its own; the scheduler is unlocked with
  interrupts on, nothing is postponed, and, if there was memory for it, the tick function is the
  first timer event.\<close>

theorem multitasking_initialize_correct:
  assumes "heap_good s" and "heap_room 84 s" and "events s es" and "\<forall>e \<in> set es. \<exists>c \<ge> 8. (e, c) \<in> heap_blocks s"
  shows "(\<exists>m. multitasking_initialize a s = panicK (Abort m))
    \<or> (\<exists>s' k c. multitasking_initialize a s = retK () s' \<and> heap_good s' \<and> current_task_PCB s' = k \<and> k \<noteq> NULL
        \<and> 44 \<le> c \<and> (k, c) \<notin> heap_blocks s \<and> insert (k, c) (heap_blocks s) \<subseteq> heap_blocks s'
        \<and> state (tcb s' k) = TASK_STATE_RUNNING \<and> tid (tcb s' k) = ucast (current_pid s) \<and> stack_base (tcb s' k) = NULL
        \<and> postpone_task_switches_counter s' = 0 \<and> IRQ_disable_counter s' = 0 \<and> task_switches_postponed_flag s' = 0 \<and> irq_enabled s'
        \<and> last_tick s' = ticks_since_boot s
        \<and> (events s' es \<or> (\<exists>p. events s' (p # es) \<and> func (tev s' p) = a)))"
proof -
  let ?s = "s\<lparr>irq_enabled := False\<rparr>"
  have lk: "lock_ok 0 ?s" using assms(1) by (auto simp: heap_good_def lock_ok_def)
  have good: "heap_good ?s" and bl: "heap_blocks ?s = heap_blocks s" using heap_frame [of ?s s, OF _ lk] assms(1) by simp_all
  have room: "heap_room (unat SIZEOF_TCB + 16 + 24) ?s" using assms(2) by (simp add: heap_room_def)
  from kheap.alloc_law [OF good room] obtain k t where
    t: "kmalloc SIZEOF_TCB ?s = retK k t" "heap_good t" "heap_room 24 t" and
    tb: "k = NULL \<and> heap_blocks t = heap_blocks s \<or> k \<noteq> NULL \<and> (\<exists>c \<ge> 44. (k, c) \<notin> heap_blocks s \<and> heap_blocks t = insert (k, c) (heap_blocks s))"
    unfolding bl by auto
  have kt: "kept ?s t" by (rule kmalloc_kept [OF good room t(1)])
  show ?thesis
  proof (cases "k = NULL")
    case True
    then show ?thesis using t(1) by (simp add: multitasking_initialize_def)
  next
    case False
    with tb obtain c where c: "44 \<le> c" "(k, c) \<notin> heap_blocks s" "heap_blocks t = insert (k, c) (heap_blocks s)" by auto
    define u where "u = (upd_tcb k (\<lambda>_. zero_tcb\<lparr>tcb_cr3 := cr3 t, tnext := k, state := TASK_STATE_RUNNING, tid := ucast (current_pid t), stack_base := NULL\<rparr>)
       (t\<lparr>current_task_PCB := k\<rparr>))\<lparr>last_tick := ticks_since_boot t\<rparr>"
    have run: "multitasking_initialize a s = bindK (install_timer_event a u) (\<lambda>_ s.
        retK () (s\<lparr>postpone_task_switches_counter := 0, task_switches_postponed_flag := 0, IRQ_disable_counter := 0, irq_enabled := True\<rparr>))"
      using t(1) False by (simp add: multitasking_initialize_def Let_def u_def upd_tcb_def read_ticks_since_boot_def)
    have "lock_ok 0 u" using t(2) by (auto simp: heap_good_def lock_ok_def u_def)
    from heap_frame [of u t, OF _ this] t(2) have gu: "heap_good u" and bu: "heap_blocks u = heap_blocks t" by (simp_all add: u_def)
    have ru: "heap_room (24 + 0) u" using t(3) by (simp add: heap_room_def u_def upd_tcb_def)
    have tev: "tev u = tev s" "timer_events u = timer_events s" using kept_timer [OF kt] by (simp_all add: u_def upd_tcb_def)
    have eu: "events u es" "\<forall>e \<in> set es. \<exists>c \<ge> 8. (e, c) \<in> heap_blocks u" using assms(3,4) tev bu c(3) by (auto simp: events_def)
    from install_timer_event_spec [OF gu ru eu, of a] obtain p v where
      v: "install_timer_event a u = retK p v" "kept_sched u v" "heap_good v" "heap_blocks u \<subseteq> heap_blocks v"
        "events v es \<or> events v (p # es) \<and> func (tev v p) = a" by auto
    let ?v = "v\<lparr>postpone_task_switches_counter := 0, task_switches_postponed_flag := 0, IRQ_disable_counter := 0, irq_enabled := True\<rparr>"
    have "lock_ok 0 ?v" by (simp add: lock_ok_def)
    from heap_frame [of ?v v, OF _ this] v(3) have gv: "heap_good ?v" "heap_blocks ?v = heap_blocks v" by simp_all
    have tv: "tcb ?v k = zero_tcb\<lparr>tcb_cr3 := cr3 t, tnext := k, state := TASK_STATE_RUNNING, tid := ucast (current_pid s), stack_base := NULL\<rparr>"
      "current_task_PCB ?v = k" "last_tick ?v = ticks_since_boot s"
      using v(2) kt by (simp_all add: kept_sched_def kept_def u_def)
    have res: "multitasking_initialize a s = retK () ?v" using run v(1) by simp
    have ev: "events ?v es \<or> (\<exists>p. events ?v (p # es) \<and> func (tev ?v p) = a)" using v(5) by (auto simp: events_def)
    show ?thesis
      by (rule disjI2, rule exI [of _ ?v], rule exI [of _ k], rule exI [of _ c])
        (use res gv tv ev False c v(4) bu in \<open>auto simp: zero_tcb_def\<close>)
  qed
qed

text \<open>At a concrete state.\<close>

theorem multitasking_initialize_correct_witness:
  "(\<exists>m. multitasking_initialize 0xC0106000 (quiet_timer ()) = panicK (Abort m))
   \<or> (\<exists>s'. multitasking_initialize 0xC0106000 (quiet_timer ()) = retK () s' \<and> heap_good s'
        \<and> state (tcb s' (current_task_PCB s')) = TASK_STATE_RUNNING \<and> irq_enabled s')"
proof -
  have "events (quiet_timer ()) []" "heap_room 84 (quiet_timer ())" by (simp_all add: events_def heap_room_def quiet_timer_fields)
  from multitasking_initialize_correct [OF quiet_timer_good this(2,1), of "0xC0106000"] show ?thesis by auto
qed

end
