(* ===== verification/Tty.thy ===== *)
theory Tty
  imports Timer
begin

text \<open>
  The terminal on the VGA text buffer (\<open>tty.c\<close>, \<open>vga.h\<close>). The buffer is 2000 little-endian 16-bit
  cells of the byte memory \<open>mem\<close>, at \<open>VGA_BUFFER_ADDR\<close>. What a user sees is specified by the text
  written so far: \<open>wrap\<close> breaks it into lines, and the relation \<open>shows\<close> says that the screen holds
  the last lines of it.
\<close>

section \<open>Definitions\<close>

datatype VgaColor = VGA_COLOR_BLACK | VGA_COLOR_BLUE | VGA_COLOR_GREEN | VGA_COLOR_CYAN | VGA_COLOR_RED
  | VGA_COLOR_MAGENTA | VGA_COLOR_BROWN | VGA_COLOR_LIGHT_GREY | VGA_COLOR_DARK_GREY | VGA_COLOR_LIGHT_BLUE
  | VGA_COLOR_LIGHT_GREEN | VGA_COLOR_LIGHT_CYAN | VGA_COLOR_LIGHT_RED | VGA_COLOR_LIGHT_MAGENTA
  | VGA_COLOR_LIGHT_BROWN | VGA_COLOR_WHITE

primrec vga_color :: "VgaColor \<Rightarrow> u32" where
  "vga_color VGA_COLOR_BLACK = 0"
| "vga_color VGA_COLOR_BLUE = 1"
| "vga_color VGA_COLOR_GREEN = 2"
| "vga_color VGA_COLOR_CYAN = 3"
| "vga_color VGA_COLOR_RED = 4"
| "vga_color VGA_COLOR_MAGENTA = 5"
| "vga_color VGA_COLOR_BROWN = 6"
| "vga_color VGA_COLOR_LIGHT_GREY = 7"
| "vga_color VGA_COLOR_DARK_GREY = 8"
| "vga_color VGA_COLOR_LIGHT_BLUE = 9"
| "vga_color VGA_COLOR_LIGHT_GREEN = 10"
| "vga_color VGA_COLOR_LIGHT_CYAN = 11"
| "vga_color VGA_COLOR_LIGHT_RED = 12"
| "vga_color VGA_COLOR_LIGHT_MAGENTA = 13"
| "vga_color VGA_COLOR_LIGHT_BROWN = 14"
| "vga_color VGA_COLOR_WHITE = 15"

definition vga_entry_color :: "VgaColor \<Rightarrow> VgaColor \<Rightarrow> u8" where
  "vga_entry_color fg bg = ucast (vga_color fg OR push_bit 4 (vga_color bg))"

definition vga_entry :: "u8 \<Rightarrow> u8 \<Rightarrow> u16" where
  "vga_entry uc color = ucast uc OR push_bit 8 (ucast color)"

abbreviation (input) VGA_WIDTH :: size_t where "VGA_WIDTH \<equiv> 80"
abbreviation (input) VGA_HEIGHT :: size_t where "VGA_HEIGHT \<equiv> 25"
abbreviation (input) VGA_MEMORY :: u32 where "VGA_MEMORY \<equiv> 0xC00B8000"

definition load16 :: "memory \<Rightarrow> u32 \<Rightarrow> u16" where
  "load16 m a = ucast (m a) OR push_bit 8 (ucast (m (a + 1)))"

definition store16 :: "memory \<Rightarrow> u32 \<Rightarrow> u16 \<Rightarrow> memory" where
  "store16 m a v = m(a := ucast v, a + 1 := ucast (drop_bit 8 v))"

record tty = timer +
  terminal_row :: size_t
  terminal_column :: size_t
  terminal_color :: u8
  terminal_buffer :: u32

text \<open>\<open>tty_init\<close>: every cell of the buffer becomes a blank, row by row.\<close>

definition blank_row :: "u32 \<Rightarrow> u16 \<Rightarrow> nat \<Rightarrow> memory \<Rightarrow> memory" where
  "blank_row buf v y = fold (\<lambda>x m. store16 m (buf + 2 * (of_nat y * VGA_WIDTH + of_nat x)) v) [0..<80]"

definition tty_init :: "'z tty_scheme \<Rightarrow> 'z tty_scheme" where
  "tty_init s =
     (let s = s\<lparr>terminal_row := 0, terminal_column := 0,
            terminal_color := vga_entry_color VGA_COLOR_LIGHT_GREY VGA_COLOR_BLACK,
            terminal_buffer := VGA_MEMORY\<rparr>
      in s\<lparr>mem := fold (blank_row (terminal_buffer s) (vga_entry 32 (terminal_color s))) [0..<25] (mem s)\<rparr>)"

definition terminal_setcolor :: "u8 \<Rightarrow> 'z tty_scheme \<Rightarrow> 'z tty_scheme" where
  "terminal_setcolor color s = s\<lparr>terminal_color := color\<rparr>"

definition terminal_putentryat :: "u8 \<Rightarrow> u8 \<Rightarrow> size_t \<Rightarrow> size_t \<Rightarrow> 'z tty_scheme \<Rightarrow> 'z tty_scheme" where
  "terminal_putentryat c color x y s =
     (let index = y * VGA_WIDTH + x
      in s\<lparr>mem := store16 (mem s) (terminal_buffer s + 2 * index) (vga_entry c color)\<rparr>)"

definition terminal_scroll :: "'z tty_scheme \<Rightarrow> 'z tty_scheme" where
  "terminal_scroll s =
     (let second_line_ptr = VGA_MEMORY + 2 * VGA_WIDTH;
          bytes_to_shift_up = (VGA_HEIGHT - 1) * VGA_WIDTH * 2
      in s\<lparr>mem := snd (memcpy (mem s) VGA_MEMORY second_line_ptr bytes_to_shift_up)\<rparr>)"

text \<open>The loop of \<open>terminal_delete_last_line\<close>, with the iterations left.\<close>

primrec clear_cells :: "nat \<Rightarrow> u32 \<Rightarrow> memory \<Rightarrow> memory" where
  "clear_cells 0 ptr m = m"
| "clear_cells (Suc n) ptr m = clear_cells n (ptr + 2) (store16 m ptr 0)"

definition terminal_delete_last_line :: "'z tty_scheme \<Rightarrow> 'z tty_scheme" where
  "terminal_delete_last_line s =
     s\<lparr>mem := clear_cells 80 (VGA_MEMORY + 2 * (VGA_WIDTH * (VGA_HEIGHT - 1))) (mem s)\<rparr>"

definition terminal_putchar :: "u8 \<Rightarrow> 'z tty_scheme \<Rightarrow> 'z tty_scheme" where
  "terminal_putchar uc s =
     (let s = (if terminal_row s = VGA_HEIGHT
               then (terminal_delete_last_line (terminal_scroll s))\<lparr>terminal_row := VGA_HEIGHT - 1\<rparr>
               else s)
      in if uc = 10 then s\<lparr>terminal_column := 0, terminal_row := terminal_row s + 1\<rparr>
         else if uc = 8 then
           let s = (if terminal_column s \<noteq> 0 then s\<lparr>terminal_column := terminal_column s - 1\<rparr>
                    else s\<lparr>terminal_row := terminal_row s - 1, terminal_column := VGA_WIDTH\<rparr>)
           in terminal_putentryat 32 (terminal_color s) (terminal_column s) (terminal_row s) s
         else
           let s = terminal_putentryat uc (terminal_color s) (terminal_column s) (terminal_row s) s;
               s = s\<lparr>terminal_column := terminal_column s + 1\<rparr>
           in if terminal_column s = VGA_WIDTH
              then s\<lparr>terminal_column := 0, terminal_row := terminal_row s + 1\<rparr> else s)"

function terminal_write_loop :: "u32 \<Rightarrow> size_t \<Rightarrow> size_t \<Rightarrow> 'z tty_scheme \<Rightarrow> 'z tty_scheme" where
  "terminal_write_loop data n i s =
     (if i < n then terminal_write_loop data n (i + 1) (terminal_putchar (mem s (data + i)) s) else s)"
  by pat_completeness auto
termination
  by (relation "measure (\<lambda>(data, n, i, s). unat n - unat i)") (auto simp: unat_inc word_nat)

declare terminal_write_loop.simps [simp del]

definition terminal_write :: "u32 \<Rightarrow> size_t \<Rightarrow> 'z tty_scheme \<Rightarrow> 'z tty_scheme" where
  "terminal_write data n s = terminal_write_loop data n 0 s"

definition terminal_writestring :: "u32 \<Rightarrow> 'z tty_scheme \<Rightarrow> 'z tty_scheme option" where
  "terminal_writestring data s = map_option (\<lambda>n. terminal_write data n s) (strlen (mem s) data)"

section \<open>The cells\<close>

definition cell_addr :: "nat \<Rightarrow> u32" where
  "cell_addr i = VGA_MEMORY + 2 * of_nat i"

definition vga_range :: "u32 \<Rightarrow> bool" where
  "vga_range a \<longleftrightarrow> a - VGA_MEMORY < 4000"

lemma load16_store16_same [simp]: "load16 (store16 m a v) a = v"
  by (rule bit_word_eqI) (auto simp: load16_def store16_def bit_simps)

lemma unat_cell_addr: "i \<le> 2000 \<Longrightarrow> unat (cell_addr i) = 0xC00B8000 + 2 * i"
proof -
  assume "i \<le> 2000"
  then have "unat (of_nat i :: u32) = i" by (simp add: unat_of_nat take_bit_nat_eq_self)
  then have "unat (2 * of_nat i :: u32) = 2 * i" using \<open>i \<le> 2000\<close> by (simp add: unat_word_ariths)
  with \<open>i \<le> 2000\<close> show ?thesis by (simp add: cell_addr_def unat_word_ariths)
qed

lemma unat_cell_addr_1: "i < 2000 \<Longrightarrow> unat (cell_addr i + 1) = 0xC00B8001 + 2 * i"
  by (simp add: unat_inc32 unat_cell_addr)

lemma store16_other: "x \<noteq> a \<Longrightarrow> x \<noteq> a + 1 \<Longrightarrow> store16 m a v x = m x"
  by (simp add: store16_def)

lemma cell_addr_neq:
  assumes "i < 2000" and "j < 2000"
  shows "i \<noteq> j \<Longrightarrow> cell_addr j \<noteq> cell_addr i" and "cell_addr j \<noteq> cell_addr i + 1"
  using unat_cell_addr [of i] unat_cell_addr [of j] unat_cell_addr_1 [of i] assms
  by (simp_all add: word_unat_eq_iff, presburger)

lemma load16_cell_store:
  assumes "i < 2000" and "j < 2000"
  shows "load16 (store16 m (cell_addr i) v) (cell_addr j) =
    (if i = j then v else load16 m (cell_addr j))"
proof (cases "i = j")
  case False
  then show ?thesis
    using cell_addr_neq [OF assms] cell_addr_neq(2) [OF assms(2,1)]
    by (simp add: load16_def store16_other)
qed simp

lemma vga_range_unat: "vga_range a \<longleftrightarrow> 0xC00B8000 \<le> unat a \<and> unat a < 0xC00B8FA0"
  using diff_less_iff [of VGA_MEMORY 4000 a] by (simp add: vga_range_def)

lemma vga_range_cell [simp]:
  "i < 2000 \<Longrightarrow> vga_range (cell_addr i)" "i < 2000 \<Longrightarrow> vga_range (cell_addr i + 1)"
  by (simp_all add: vga_range_unat unat_cell_addr unat_cell_addr_1)

lemma store_cell_frame: "i < 2000 \<Longrightarrow> \<not> vga_range a \<Longrightarrow> store16 m (cell_addr i) v a = m a"
  by (metis store16_other vga_range_cell)

lemma clear_cells_Suc: "clear_cells (Suc n) p m = store16 (clear_cells n p m) (p + 2 * of_nat n) 0"
proof (induction n arbitrary: p m)
  case (Suc n)
  have "p + 2 + 2 * of_nat n = p + 2 * of_nat (Suc n)" by (simp add: algebra_simps)
  with Suc [of "p + 2" "store16 m p 0"] show ?case by simp
qed simp

declare clear_cells.simps(2) [simp del]

lemma clear_cells_cells:
  assumes "b + n \<le> 2000"
  shows "j < 2000 \<Longrightarrow> load16 (clear_cells n (cell_addr b) m) (cell_addr j) =
      (if b \<le> j \<and> j < b + n then 0 else load16 m (cell_addr j))"
    and "\<not> vga_range a \<Longrightarrow> clear_cells n (cell_addr b) m a = m a"
  using assms
proof (induction n)
  case (Suc n)
  { case 1
    have "cell_addr b + 2 * of_nat n = cell_addr (b + n)" by (simp add: cell_addr_def algebra_simps)
    with 1 Suc show ?case by (auto simp: clear_cells_Suc load16_cell_store)
  next
    case 2
    have "cell_addr b + 2 * of_nat n = cell_addr (b + n)" by (simp add: cell_addr_def algebra_simps)
    with 2 Suc show ?case by (simp add: clear_cells_Suc store_cell_frame) }
qed auto

text \<open>The cell at a row and column, and the effect of each operation on the cells.\<close>

definition cell_at :: "'z tty_scheme \<Rightarrow> nat \<Rightarrow> nat \<Rightarrow> u16" where
  "cell_at s y x = load16 (mem s) (cell_addr (80 * y + x))"

definition on_screen :: "'z tty_scheme \<Rightarrow> bool" where
  "on_screen s \<longleftrightarrow> terminal_buffer s = VGA_MEMORY \<and> terminal_row s \<le> VGA_HEIGHT \<and> terminal_column s < VGA_WIDTH"

lemma terminal_scroll_byte:
  "mem (terminal_scroll s) a = (if a - VGA_MEMORY < 3840 then mem s (a + 160) else mem s a)"
proof -
  have "upward_ok VGA_MEMORY (VGA_MEMORY + 160) 3840" by (simp add: upward_ok_def)
  from memcpy_up.copy_apply [OF this, of "mem s" a] show ?thesis
    by (simp add: terminal_scroll_def Let_def add.commute)
qed

lemma cell_addr_shift: "cell_addr i + 160 = cell_addr (i + 80)"
  by (simp add: cell_addr_def algebra_simps)

lemma terminal_scroll_cell:
  assumes "y < 25" and "x < 80"
  shows "cell_at (terminal_scroll s) y x = (if y < 24 then cell_at s (Suc y) x else cell_at s y x)"
proof -
  let ?i = "80 * y + x"
  have i: "?i < 2000" "?i < 1920 \<longleftrightarrow> y < 24" using assms by linarith+
  have "cell_addr ?i - VGA_MEMORY < 3840 \<longleftrightarrow> ?i < 1920"
    using diff_less_iff [of VGA_MEMORY 3840 "cell_addr ?i"] i(1) by (simp add: unat_cell_addr) linarith
  moreover have "cell_addr ?i + 1 - VGA_MEMORY < 3840 \<longleftrightarrow> ?i < 1920"
    using diff_less_iff [of VGA_MEMORY 3840 "cell_addr ?i + 1"] i(1) by (simp add: unat_cell_addr_1) linarith
  moreover have "cell_addr ?i + 1 + 160 = cell_addr (?i + 80) + 1" "cell_addr ?i + 160 = cell_addr (?i + 80)"
    using cell_addr_shift [of ?i] by (simp_all add: algebra_simps)
  moreover have "80 * Suc y + x = ?i + 80" by simp
  ultimately show ?thesis using i(2) unfolding cell_at_def load16_def terminal_scroll_byte by presburger
qed

lemma terminal_delete_last_line_cell:
  assumes "y < 25" and "x < 80"
  shows "cell_at (terminal_delete_last_line s) y x = (if y = 24 then 0 else cell_at s y x)"
proof -
  have a: "VGA_MEMORY + 2 * (VGA_WIDTH * (VGA_HEIGHT - 1)) = cell_addr 1920" by (simp add: cell_addr_def)
  have "80 * y + x < 2000" "1920 \<le> 80 * y + x \<longleftrightarrow> y = 24" using assms by linarith+
  then show ?thesis
    using clear_cells_cells(1) [of 1920 80 "80 * y + x" "mem s"]
    unfolding cell_at_def terminal_delete_last_line_def a by auto
qed

lemma terminal_clear_frame:
  assumes "\<not> vga_range a"
  shows "mem (terminal_delete_last_line (terminal_scroll s)) a = mem s a"
proof -
  have a: "VGA_MEMORY + 2 * (VGA_WIDTH * (VGA_HEIGHT - 1)) = cell_addr 1920" by (simp add: cell_addr_def)
  have "\<not> a - VGA_MEMORY < 3840" using assms unfolding vga_range_def by (simp add: word_nat)
  then have "mem (terminal_scroll s) a = mem s a" by (simp add: terminal_scroll_byte)
  moreover have "mem (terminal_delete_last_line (terminal_scroll s)) a = mem (terminal_scroll s) a"
    unfolding terminal_delete_last_line_def a using clear_cells_cells(2) [of 1920 80 a] assms by simp
  ultimately show ?thesis by simp
qed

lemma terminal_clear_fields [simp]:
  "terminal_row (terminal_delete_last_line (terminal_scroll s)) = terminal_row s"
  "terminal_column (terminal_delete_last_line (terminal_scroll s)) = terminal_column s"
  "terminal_color (terminal_delete_last_line (terminal_scroll s)) = terminal_color s"
  "terminal_buffer (terminal_delete_last_line (terminal_scroll s)) = terminal_buffer s"
  by (simp_all add: terminal_delete_last_line_def terminal_scroll_def Let_def)

lemma terminal_putentryat_fields [simp]:
  "terminal_row (terminal_putentryat c k x y s) = terminal_row s"
  "terminal_column (terminal_putentryat c k x y s) = terminal_column s"
  "terminal_color (terminal_putentryat c k x y s) = terminal_color s"
  "terminal_buffer (terminal_putentryat c k x y s) = terminal_buffer s"
  by (simp_all add: terminal_putentryat_def Let_def)

lemma unat_index:
  assumes "y < VGA_HEIGHT" and "x < VGA_WIDTH"
  shows "unat (y * VGA_WIDTH + x) = 80 * unat y + unat x"
proof -
  have "unat y < 25" "unat x < 80" using assms by (simp_all add: word_nat)
  then show ?thesis by (simp add: unat_word_ariths)
qed

lemma terminal_putentryat_addr:
  assumes "terminal_buffer s = VGA_MEMORY" and "y < VGA_HEIGHT" and "x < VGA_WIDTH"
  shows "mem (terminal_putentryat c k x y s) =
    store16 (mem s) (cell_addr (80 * unat y + unat x)) (vga_entry c k)"
proof -
  have "of_nat (80 * unat y + unat x) = (y * VGA_WIDTH + x)"
    unfolding unat_index [OF assms(2,3), symmetric] by simp
  then show ?thesis using assms(1) by (simp add: terminal_putentryat_def Let_def cell_addr_def)
qed

lemma cell_at_cursor [simp]:
  "cell_at (s\<lparr>terminal_row := r\<rparr>) y x = cell_at s y x"
  "cell_at (s\<lparr>terminal_column := q\<rparr>) y x = cell_at s y x"
  by (simp_all add: cell_at_def)

lemma cell_index_eq:
  "x < 80 \<Longrightarrow> x' < 80 \<Longrightarrow> 80 * y + x = 80 * y' + x' \<longleftrightarrow> y = (y' :: nat) \<and> x = x'"
proof
  assume "x < 80" "x' < 80" and eq: "80 * y + x = 80 * y' + x'"
  then have "(80 * y + x) div 80 = y" "(80 * y' + x') div 80 = y'" by simp_all
  with eq show "y = y' \<and> x = x'" by simp
qed simp

lemma terminal_putentryat_cell:
  assumes "terminal_buffer s = VGA_MEMORY" and "r < VGA_HEIGHT" and "q < VGA_WIDTH" and "y < 25" and "x < 80"
  shows "cell_at (terminal_putentryat c k q r s) y x =
    (if y = unat r \<and> x = unat q then vga_entry c k else cell_at s y x)"
proof -
  have "unat r < 25" "unat q < 80" using assms(2,3) by (simp_all add: word_nat)
  moreover from this have "80 * unat r + unat q < 2000" "80 * y + x < 2000" using assms(4,5) by linarith+
  ultimately show ?thesis
    using assms cell_index_eq [of x "unat q" y "unat r"]
    by (auto simp: cell_at_def terminal_putentryat_addr load16_cell_store)
qed

lemma terminal_putentryat_frame:
  assumes "terminal_buffer s = VGA_MEMORY" and "r < VGA_HEIGHT" and "q < VGA_WIDTH" and "\<not> vga_range a"
  shows "mem (terminal_putentryat c k q r s) a = mem s a"
proof -
  have "unat r < 25" "unat q < 80" using assms(2,3) by (simp_all add: word_nat)
  then have "80 * unat r + unat q < 2000" by linarith
  with assms show ?thesis by (simp add: terminal_putentryat_addr store_cell_frame)
qed

section \<open>What the screen shows\<close>

text \<open>The specification: a text is broken at newlines and after 80 characters into finished lines and a
  last line that the cursor is on. The screen shows the last 25 of them; a full screen scrolls only when
  the next character comes. A cell with no character is the blank of \<open>tty_init\<close> on the first 25 lines and
  zero on the lines that scrolling brought in.\<close>

fun feed :: "u8 list list \<times> u8 list \<Rightarrow> u8 \<Rightarrow> u8 list list \<times> u8 list" where
  "feed (ds, p) c =
     (if c = 10 then (ds @ [p], []) else if length p = 79 then (ds @ [p @ [c]], []) else (ds, p @ [c]))"

definition wrap :: "u8 list \<Rightarrow> u8 list list \<times> u8 list" where
  "wrap tx = foldl feed ([], []) tx"

definition line_at :: "u8 list list \<Rightarrow> u8 list \<Rightarrow> nat \<Rightarrow> u8 list" where
  "line_at ds p k = (if k < length ds then ds ! k else if k = length ds then p else [])"

definition glyph :: "u8 list list \<Rightarrow> u8 list \<Rightarrow> nat \<Rightarrow> nat \<Rightarrow> u16" where
  "glyph ds p k x =
     (if x < length (line_at ds p k) then vga_entry (line_at ds p k ! x) 7
      else if k < 25 then vga_entry 32 7 else 0)"

definition view :: "'z tty_scheme \<Rightarrow> u8 list list \<Rightarrow> u8 list \<Rightarrow> nat \<Rightarrow> bool" where
  "view s ds p tp \<longleftrightarrow> terminal_buffer s = VGA_MEMORY \<and> terminal_color s = 7 \<and>
     tp + unat (terminal_row s) = length ds \<and> terminal_row s \<le> VGA_HEIGHT \<and>
     unat (terminal_column s) = length p \<and> length p < 80 \<and>
     (\<forall>y<25. \<forall>x<80. cell_at s y x = glyph ds p (tp + y) x)"

definition top_line :: "u8 list list \<Rightarrow> u8 list \<Rightarrow> nat" where
  "top_line ds p = (if length ds \<le> 24 then 0 else if p = [] then length ds - 25 else length ds - 24)"

definition displays :: "'z tty_scheme \<Rightarrow> u8 list \<Rightarrow> bool" where
  "displays s tx \<longleftrightarrow> (case wrap tx of (ds, p) \<Rightarrow> view s ds p (top_line ds p))"

lemma wrap_snoc: "wrap (tx @ [c]) = feed (wrap tx) c"
  by (simp add: wrap_def)

lemma line_at_newline [simp]: "line_at (ds @ [p]) [] = line_at ds p"
  by (auto simp: line_at_def nth_append fun_eq_iff)

lemma glyph_newline [simp]: "glyph (ds @ [p]) [] = glyph ds p"
  by (simp add: glyph_def fun_eq_iff)

lemma glyph_snoc:
  "glyph ds (p @ [c]) k x = (if k = length ds \<and> x = length p then vga_entry c 7 else glyph ds p k x)"
  by (auto simp: glyph_def line_at_def nth_append)

definition make_room :: "'z tty_scheme \<Rightarrow> 'z tty_scheme" where
  "make_room s = (if terminal_row s = VGA_HEIGHT
     then (terminal_delete_last_line (terminal_scroll s))\<lparr>terminal_row := VGA_HEIGHT - 1\<rparr> else s)"

lemma make_room_view:
  assumes "view s ds p tp" and "tp = top_line ds p"
  shows "\<exists>tp'. view (make_room s) ds p tp' \<and> terminal_row (make_room s) < VGA_HEIGHT \<and>
    tp' = (if length ds \<le> 24 then 0 else length ds - 24)"
proof (cases "terminal_row s = VGA_HEIGHT")
  case True
  with assms have len: "tp + 25 = length ds" by (simp add: view_def)
  with assms have p: "p = []" "terminal_column s = 0"
    by (auto simp: top_line_def view_def unat_eq_0 split: if_splits)
  have "cell_at (make_room s) y x = glyph ds p (Suc tp + y) x" if "y < 25" "x < 80" for y x
  proof -
    have "cell_at (make_room s) y x = (if y = 24 then 0 else cell_at s (Suc y) x)"
      using that True by (simp add: make_room_def terminal_delete_last_line_cell terminal_scroll_cell)
    also have "\<dots> = glyph ds p (Suc tp + y) x"
      using that assms(1) p len by (auto simp: view_def glyph_def line_at_def)
    finally show ?thesis .
  qed
  with True len p assms(1) have "view (make_room s) ds p (Suc tp)"
    by (simp add: view_def make_room_def)
  with True len show ?thesis by (intro exI [of _ "Suc tp"]) (simp add: make_room_def)
next
  case False
  with assms have "terminal_row s < VGA_HEIGHT" by (simp add: view_def order.strict_iff_order)
  moreover from this have "unat (terminal_row s) < 25" by (simp add: word_nat)
  ultimately show ?thesis
    using assms False by (intro exI [of _ tp]) (auto simp: make_room_def top_line_def view_def split: if_splits)
qed

lemma unat_suc_small: "(x :: u32) < 80 \<Longrightarrow> unat (x + 1) = Suc (unat x)"
  by (rule unat_inc)

lemma newline_view:
  assumes "view s ds p tp" and "terminal_row s < VGA_HEIGHT"
  shows "view (s\<lparr>terminal_column := 0, terminal_row := terminal_row s + 1\<rparr>) (ds @ [p]) [] tp"
  using assms unat_inc [OF assms(2)]
  by (simp add: view_def word_nat)

lemma put_view:
  assumes "view s ds p tp" and "terminal_row s < VGA_HEIGHT"
  shows "view ((terminal_putentryat c (terminal_color s) (terminal_column s) (terminal_row s) s)
      \<lparr>terminal_column := terminal_column s + 1\<rparr>) ds (p @ [c]) tp \<or> length p = 79"
    and "view ((terminal_putentryat c (terminal_color s) (terminal_column s) (terminal_row s) s)
      \<lparr>terminal_column := 0, terminal_row := terminal_row s + 1\<rparr>) (ds @ [p @ [c]]) [] tp"
proof -
  let ?s = "terminal_putentryat c (terminal_color s) (terminal_column s) (terminal_row s) s"
  have row: "unat (terminal_row s) < 25" "unat (terminal_row s + 1) = Suc (unat (terminal_row s))"
    using assms(2) unat_inc [OF assms(2)] by (simp_all add: word_nat)
  have col: "terminal_column s < VGA_WIDTH" using assms(1) by (simp add: view_def word_nat)
  have "cell_at ?s y x = glyph ds (p @ [c]) (tp + y) x" if "y < 25" "x < 80" for y x
    using that assms col
    by (auto simp: terminal_putentryat_cell view_def glyph_snoc)
  then show "view (?s\<lparr>terminal_column := 0, terminal_row := terminal_row s + 1\<rparr>) (ds @ [p @ [c]]) [] tp"
    and "view (?s\<lparr>terminal_column := terminal_column s + 1\<rparr>) ds (p @ [c]) tp \<or> length p = 79"
    using assms col row unat_inc [OF col]
    by (auto simp: view_def word_nat)
qed

lemma displays_putchar:
  assumes "displays s tx" and "c \<noteq> 8"
  shows "displays (terminal_putchar c s) (tx @ [c])"
proof -
  obtain ds p where w: "wrap tx = (ds, p)" by fastforce
  with assms(1) have "view s ds p (top_line ds p)" by (simp add: displays_def)
  then obtain tp where v: "view (make_room s) ds p tp" and row: "terminal_row (make_room s) < VGA_HEIGHT"
    and tp: "tp = (if length ds \<le> 24 then 0 else length ds - 24)"
    using make_room_view by blast
  have col: "unat (terminal_column (make_room s)) = length p" "length p < 80" using v by (simp_all add: view_def)
  then have wr: "terminal_column (make_room s) + 1 = VGA_WIDTH \<longleftrightarrow> length p = 79"
    using unat_inc [of "terminal_column (make_room s)" VGA_WIDTH] by (simp add: word_unat_eq_iff word_nat)
  have pc: "terminal_putchar c s =
    (if c = 10 then (make_room s)\<lparr>terminal_column := 0, terminal_row := terminal_row (make_room s) + 1\<rparr>
     else let t = terminal_putentryat c (terminal_color (make_room s)) (terminal_column (make_room s))
         (terminal_row (make_room s)) (make_room s)
       in if length p = 79 then t\<lparr>terminal_column := 0, terminal_row := terminal_row (make_room s) + 1\<rparr>
          else t\<lparr>terminal_column := terminal_column (make_room s) + 1\<rparr>)"
    unfolding terminal_putchar_def make_room_def [symmetric] using assms(2) wr by (simp add: Let_def)
  have "view (terminal_putchar c s) (fst (feed (ds, p) c)) (snd (feed (ds, p) c)) tp"
    using newline_view [OF v row] put_view [OF v row, of c] by (auto simp: pc Let_def)
  moreover have "tp = top_line (fst (feed (ds, p) c)) (snd (feed (ds, p) c))"
    by (auto simp: tp top_line_def)
  ultimately show ?thesis by (simp add: displays_def wrap_snoc w case_prod_beta)
qed

lemma displays_on_screen: "displays s tx \<Longrightarrow> on_screen s"
  by (auto simp: displays_def view_def on_screen_def word_nat split: prod.splits)

lemma terminal_putchar_frame:
  assumes "on_screen s" and "c = 8 \<longrightarrow> terminal_column s \<noteq> 0" and "\<not> vga_range a"
  shows "mem (terminal_putchar c s) a = mem s a"
proof -
  have room: "mem (make_room s) a = mem s a" "terminal_row (make_room s) < VGA_HEIGHT"
    "terminal_column (make_room s) = terminal_column s" "terminal_buffer (make_room s) = VGA_MEMORY"
    using assms terminal_clear_frame [OF assms(3), of s]
    by (auto simp: make_room_def on_screen_def order.strict_iff_order)
  have "terminal_column s < VGA_WIDTH" using assms(1) by (simp add: on_screen_def)
  moreover from this have "terminal_column s - 1 < VGA_WIDTH" if "terminal_column s \<noteq> 0"
    using that by (simp add: word_nat unat_minus_one)
  ultimately show ?thesis
    using assms(2,3) room unfolding terminal_putchar_def make_room_def [symmetric]
    by (auto simp: Let_def terminal_putentryat_frame)
qed

lemma terminal_putchar_on_screen:
  assumes "on_screen s" and "c = 8 \<longrightarrow> terminal_column s \<noteq> 0"
  shows "on_screen (terminal_putchar c s)"
proof -
  have room: "terminal_row (make_room s) < VGA_HEIGHT"
    "terminal_column (make_room s) = terminal_column s" "terminal_buffer (make_room s) = VGA_MEMORY"
    using assms by (auto simp: make_room_def on_screen_def order.strict_iff_order)
  have q: "terminal_column s < VGA_WIDTH" using assms(1) by (simp add: on_screen_def)
  then have "terminal_column s - 1 < VGA_WIDTH" if "terminal_column s \<noteq> 0"
    using that by (simp add: word_nat unat_minus_one)
  moreover have "terminal_row (make_room s) + 1 \<le> VGA_HEIGHT"
    using room(1) unat_inc [OF room(1)] by (simp add: word_nat)
  moreover have "terminal_column s + 1 < VGA_WIDTH \<or> terminal_column s + 1 = VGA_WIDTH"
    using q unat_inc [OF q] by (auto simp: word_nat word_unat_eq_iff)
  ultimately show ?thesis
    using assms(2) room unfolding terminal_putchar_def make_room_def [symmetric]
    by (auto simp: Let_def on_screen_def)
qed

section \<open>Writing a text\<close>

lemma terminal_write_loop_displays:
  assumes "i \<le> n" and "displays s tx"
    and "\<And>j. i \<le> j \<Longrightarrow> j < n \<Longrightarrow> \<not> vga_range (data + j) \<and> mem s (data + j) \<noteq> 8"
  shows "displays (terminal_write_loop data n i s) (tx @ map (\<lambda>j. mem s (data + of_nat j)) [unat i..<unat n])
    \<and> (\<forall>a. \<not> vga_range a \<longrightarrow> mem (terminal_write_loop data n i s) a = mem s a)"
  using assms
proof (induction data n i s arbitrary: tx rule: terminal_write_loop.induct)
  case (1 data n i s)
  show ?case
  proof (cases "i < n")
    case True
    let ?c = "mem s (data + i)" and ?s = "terminal_putchar (mem s (data + i)) s"
    have c: "?c \<noteq> 8" using "1.prems"(3) [of i] True by simp
    have fr: "mem ?s a = mem s a" if "\<not> vga_range a" for a
      using terminal_putchar_frame [OF displays_on_screen [OF "1.prems" (2)] _ that] c by simp
    have suc: "unat (i + 1) = Suc (unat i)" by (rule unat_inc [OF True])
    have "displays (terminal_write_loop data n (i + 1) ?s)
        ((tx @ [?c]) @ map (\<lambda>j. mem ?s (data + of_nat j)) [unat (i + 1)..<unat n])
      \<and> (\<forall>a. \<not> vga_range a \<longrightarrow> mem (terminal_write_loop data n (i + 1) ?s) a = mem ?s a)"
    proof (rule "1.IH" [OF True])
      show "i + 1 \<le> n" using True suc by (simp add: word_nat)
      show "displays ?s (tx @ [?c])" by (rule displays_putchar [OF "1.prems" (2) c])
      fix j assume "i + 1 \<le> j" "j < n"
      then have "i \<le> j" using suc by (simp add: word_nat)
      with \<open>j < n\<close> "1.prems"(3) fr show "\<not> vga_range (data + j) \<and> mem ?s (data + j) \<noteq> 8" by simp
    qed
    moreover have "map (\<lambda>j. mem ?s (data + of_nat j)) [unat (i + 1)..<unat n] =
        map (\<lambda>j. mem s (data + of_nat j)) [unat (i + 1)..<unat n]"
    proof (rule map_cong [OF refl])
      fix j assume j: "j \<in> set [unat (i + 1)..<unat n]"
      then have "unat (of_nat j :: u32) = j"
        using unat_lt32 [of n] by (simp add: unat_of_nat take_bit_nat_eq_self del: unat_lt32)
      with j suc have "i \<le> of_nat j" "of_nat j < n" by (auto simp: word_nat)
      then show "mem ?s (data + of_nat j) = mem s (data + of_nat j)" using "1.prems"(3) fr by blast
    qed
    moreover have "[unat i..<unat n] = unat i # [unat (i + 1)..<unat n]"
      using True suc by (simp add: upt_conv_Cons word_nat)
    ultimately show ?thesis using True fr by (subst (1 2) terminal_write_loop.simps) simp
  next
    case False
    with "1.prems" show ?thesis by (simp add: terminal_write_loop.simps word_nat)
  qed
qed

lemma store_cells:
  assumes "80 * y + n \<le> 2000"
  shows "j < 2000 \<Longrightarrow> load16 (fold (\<lambda>x m. store16 m (cell_addr (80 * y + x)) v) [0..<n] m) (cell_addr j) =
      (if 80 * y \<le> j \<and> j < 80 * y + n then v else load16 m (cell_addr j))"
    and "\<not> vga_range a \<Longrightarrow> fold (\<lambda>x m. store16 m (cell_addr (80 * y + x)) v) [0..<n] m a = m a"
  using assms
proof (induction n)
  case (Suc n)
  { case 1
    with Suc show ?case by (auto simp: load16_cell_store)
  next
    case 2
    with Suc show ?case by (simp add: store_cell_frame) }
qed auto

lemma blank_row_cells:
  assumes "y < 25"
  shows "j < 2000 \<Longrightarrow> load16 (blank_row VGA_MEMORY v y m) (cell_addr j) =
      (if 80 * y \<le> j \<and> j < 80 * Suc y then v else load16 m (cell_addr j))"
    and "\<not> vga_range a \<Longrightarrow> blank_row VGA_MEMORY v y m a = m a"
proof -
  have "blank_row VGA_MEMORY v y = fold (\<lambda>x m. store16 m (cell_addr (80 * y + x)) v) [0..<80]"
    by (simp add: blank_row_def cell_addr_def algebra_simps)
  then show "j < 2000 \<Longrightarrow> load16 (blank_row VGA_MEMORY v y m) (cell_addr j) =
      (if 80 * y \<le> j \<and> j < 80 * Suc y then v else load16 m (cell_addr j))"
    and "\<not> vga_range a \<Longrightarrow> blank_row VGA_MEMORY v y m a = m a"
    using assms store_cells [of y 80] by auto
qed

lemma blank_rows_cells:
  assumes "n \<le> 25"
  shows "j < 2000 \<Longrightarrow> load16 (fold (blank_row VGA_MEMORY v) [0..<n] m) (cell_addr j) =
      (if j < 80 * n then v else load16 m (cell_addr j))"
    and "\<not> vga_range a \<Longrightarrow> fold (blank_row VGA_MEMORY v) [0..<n] m a = m a"
  using assms by (induction n) (auto simp: blank_row_cells)

lemma tty_init_displays: "displays (tty_init s) []"
proof -
  have "cell_at (tty_init s) y x = vga_entry 32 7" if "y < 25" "x < 80" for y x
  proof -
    have "80 * y + x < 2000" using that by linarith
    then show ?thesis
      using blank_rows_cells(1) [of 25 "80 * y + x" "vga_entry 32 7" "mem s"]
      by (simp add: cell_at_def tty_init_def Let_def vga_entry_color_def)
  qed
  then show ?thesis
    by (simp add: displays_def wrap_def view_def top_line_def glyph_def line_at_def)
      (simp add: tty_init_def Let_def vga_entry_color_def)
qed

lemma tty_init_frame: "\<not> vga_range a \<Longrightarrow> mem (tty_init s) a = mem s a"
  by (simp add: tty_init_def Let_def blank_rows_cells)

text \<open>A terminal just initialised, with a string at \<open>0x5000\<close>, for the witnesses.\<close>

definition fresh_tty :: "u8 list \<Rightarrow> 'z \<Rightarrow> 'z tty_scheme" where
  "fresh_tty str z = tty_init ((quiet_timer \<lparr>terminal_row = 0, terminal_column = 0, terminal_color = 0,
      terminal_buffer = 0, \<dots> = z\<rparr>)
     \<lparr>mem := \<lambda>a. if unat (a - 0x5000) < length str then str ! unat (a - 0x5000) else 0\<rparr>)"

lemma fresh_tty_mem:
  "\<not> vga_range a \<Longrightarrow> mem (fresh_tty str z) a = (if unat (a - 0x5000) < length str then str ! unat (a - 0x5000) else 0)"
  by (simp add: fresh_tty_def tty_init_frame)

lemma fresh_tty_displays: "displays (fresh_tty str z) []"
  by (simp add: fresh_tty_def tty_init_displays)

lemma fresh_tty_string:
  assumes "j < length str" and "length str \<le> 1000"
  shows "\<not> vga_range (0x5000 + of_nat j)" and "mem (fresh_tty str z) (0x5000 + of_nat j) = str ! j"
proof -
  have j: "unat (of_nat j :: u32) = j" using assms by (simp add: unat_of_nat take_bit_nat_eq_self)
  with assms show v: "\<not> vga_range (0x5000 + of_nat j)" by (simp add: vga_range_unat unat_word_ariths)
  from v j assms(1) show "mem (fresh_tty str z) (0x5000 + of_nat j) = str ! j" by (simp add: fresh_tty_mem)
qed

text \<open>C4: the terminal. After \<open>tty_init\<close> the screen shows the empty text, and writing bytes without
  backspaces to a screen that shows a text makes it show the text with these bytes appended: broken
  into lines of 80, the last 25 lines visible, the cursor after the last character. No byte outside
  the text buffer changes.\<close>

theorem terminal_displays_text:
  assumes "displays s tx" and "\<forall>j<n. \<not> vga_range (data + j) \<and> mem s (data + j) \<noteq> 8"
  shows "displays (tty_init s) []
    \<and> displays (terminal_write data n s) (tx @ map (\<lambda>j. mem s (data + of_nat j)) [0..<unat n])
    \<and> (\<forall>a. \<not> vga_range a \<longrightarrow> mem (terminal_write data n s) a = mem s a)"
  using terminal_write_loop_displays [of 0 n s tx data] assms tty_init_displays
  by (simp add: terminal_write_def)

text \<open>Witness of C4.\<close>

theorem terminal_displays_text_witness:
  "displays (terminal_write 0x5000 4 (fresh_tty [72, 105, 10, 33] ())) [72, 105, 10, 33]
   \<and> cell_at (terminal_write 0x5000 4 (fresh_tty [72, 105, 10, 33] ())) 1 0 = 0x0721"
proof -
  let ?s = "fresh_tty [72, 105, 10, 33] ()"
  have "\<not> vga_range (0x5000 + j) \<and> mem ?s (0x5000 + j) \<noteq> 8" if "j < 4" for j :: u32
  proof -
    have j: "unat j < 4" using that by (simp add: word_nat)
    then have "unat j = 0 \<or> unat j = 1 \<or> unat j = 2 \<or> unat j = 3" by linarith
    with fresh_tty_string(1) [of "unat j" "[72, 105, 10, 33]"]
      fresh_tty_string(2) [of "unat j" "[72, 105, 10, 33]" "()"] j show ?thesis by auto
  qed
  then have "\<forall>j<4. \<not> vga_range (0x5000 + j) \<and> mem ?s (0x5000 + j) \<noteq> 8" by blast
  moreover have "map (\<lambda>j. mem ?s (0x5000 + of_nat j)) [0..<unat (4 :: u32)] = [72, 105, 10, 33]"
    using fresh_tty_string(2) [of _ "[72, 105, 10, 33]" "()"] by (intro nth_equalityI) simp_all
  ultimately have "displays (terminal_write 0x5000 4 ?s) [72, 105, 10, 33]"
    using terminal_displays_text [OF fresh_tty_displays, of 4 "0x5000" "[72, 105, 10, 33]" "()"] by simp
  moreover from this have "cell_at (terminal_write 0x5000 4 ?s) 1 0 = 0x0721"
    by (simp add: displays_def wrap_def view_def top_line_def glyph_def line_at_def vga_entry_def)
  ultimately show ?thesis by simp
qed

text \<open>C25: the terminal stays inside its buffer. From a cursor on the screen every byte, a backspace
  at the start of a line excepted, leaves the cursor on the screen and every byte outside the text
  buffer as it was.\<close>

theorem terminal_putchar_bounds:
  assumes "on_screen s" and "uc = 8 \<longrightarrow> terminal_column s \<noteq> 0"
  shows "on_screen (terminal_putchar uc s)
    \<and> (\<forall>a. \<not> (0xC00B8000 \<le> unat a \<and> unat a < 0xC00B8000 + 2 * 80 * 25) \<longrightarrow> mem (terminal_putchar uc s) a = mem s a)"
  using terminal_putchar_on_screen [OF assms] terminal_putchar_frame [OF assms] by (simp add: vga_range_unat)

text \<open>Witness of C25.\<close>

theorem terminal_putchar_bounds_witness:
  "on_screen (terminal_putchar 65 (fresh_tty [] ())) \<and> mem (terminal_putchar 65 (fresh_tty [] ())) 0 = 0"
  using terminal_putchar_bounds [OF displays_on_screen [OF fresh_tty_displays], of 65 "[]" "()"]
  by (simp add: fresh_tty_mem vga_range_unat)

section \<open>A backspace at the start of a line\<close>

lemma putchar_past_line:
  assumes "unat (terminal_column s) = 80 + n" and "n < 1000000" and "terminal_row s < VGA_HEIGHT"
    and "c \<noteq> 8" and "c \<noteq> 10"
  shows "unat (terminal_column (terminal_putchar c s)) = 80 + Suc n"
    and "terminal_row (terminal_putchar c s) = terminal_row s"
    and "terminal_buffer (terminal_putchar c s) = terminal_buffer s"
    and "mem (terminal_putchar c s) (terminal_buffer s + 2 * (terminal_row s * VGA_WIDTH + terminal_column s)) = c"
proof -
  have "unat (terminal_column s + 1) = 81 + n" using assms(1,2) by (simp add: unat_inc32)
  then have "terminal_column s + 1 \<noteq> VGA_WIDTH" by (simp add: word_unat_eq_iff)
  then have eq: "terminal_putchar c s =
      (terminal_putentryat c (terminal_color s) (terminal_column s) (terminal_row s) s)
        \<lparr>terminal_column := terminal_column s + 1\<rparr>"
    using assms(3-5) by (auto simp: terminal_putchar_def Let_def)
  show "unat (terminal_column (terminal_putchar c s)) = 80 + Suc n"
    "terminal_row (terminal_putchar c s) = terminal_row s"
    "terminal_buffer (terminal_putchar c s) = terminal_buffer s"
    using \<open>unat (terminal_column s + 1) = 81 + n\<close> by (simp_all add: eq)
  have "ucast (vga_entry c k) = c" for k
    by (rule bit_word_eqI) (auto simp: vga_entry_def bit_simps)
  then show "mem (terminal_putchar c s) (terminal_buffer s + 2 * (terminal_row s * VGA_WIDTH + terminal_column s)) = c"
    by (simp add: eq terminal_putentryat_def Let_def store16_def)
qed

lemma unat_vga_offset: "unat (i :: u32) = n \<Longrightarrow> n \<le> 2000000 \<Longrightarrow> unat (VGA_MEMORY + 2 * i) = 0xC00B8000 + 2 * n"
  by (simp add: unat_word_ariths)

lemma text_past_line:
  assumes "unat (terminal_column s) = 80" and "terminal_row s < VGA_HEIGHT"
    and "length cs \<le> 1000000" and "8 \<notin> set cs" and "10 \<notin> set cs"
  shows "unat (terminal_column (fold terminal_putchar cs s)) = 80 + length cs
    \<and> terminal_row (fold terminal_putchar cs s) = terminal_row s
    \<and> terminal_buffer (fold terminal_putchar cs s) = terminal_buffer s"
  using assms(3-5)
proof (induction cs rule: rev_induct)
  case (snoc c cs)
  then show ?case using putchar_past_line [of "fold terminal_putchar cs s" "length cs" c] assms(2) by auto
qed (simp add: assms)

text \<open>C31: a backspace at the start of a line. The cursor moves to column 80 of the line above, one past
  its end, and nothing brings it back: ordinary characters push the column further and further, without a
  line break, and the \<open>k\<close>-th of them lands \<open>k\<close> cells after the start of the line the backspace was on. Once
  they pass the last line they are written outside the text buffer.\<close>

theorem backspace_runs_off:
  assumes "on_screen s" and "terminal_column s = 0" and "0 < terminal_row s" and "terminal_row s < VGA_HEIGHT"
    and "8 \<notin> set cs" and "10 \<notin> set cs" and "cs \<noteq> []" and "length cs \<le> 1000000"
  shows "\<exists>s' a. s' = fold terminal_putchar cs (terminal_putchar 8 s)
    \<and> unat (terminal_column s') = 80 + length cs \<and> terminal_row s' = terminal_row s - 1
    \<and> unat a = 0xC00B8000 + 2 * (80 * unat (terminal_row s) + (length cs - 1)) \<and> mem s' a = last cs
    \<and> (2000 < 80 * unat (terminal_row s) + length cs \<longrightarrow> \<not> vga_range a)"
proof -
  let ?b = "terminal_putchar 8 s" and ?r = "unat (terminal_row s)"
  obtain ds where cs: "cs = ds @ [last cs]" using assms(7) by (metis append_butlast_last_id)
  then have len: "length cs = Suc (length ds)" by (metis length_append_singleton)
  have set: "8 \<notin> set ds" "10 \<notin> set ds" "last cs \<noteq> 8" "last cs \<noteq> 10"
    using assms(5-7) cs by (metis Un_iff set_append last_in_set)+
  have r: "0 < ?r" "?r < 25" using assms(3,4) by (simp_all add: word_nat)
  have row: "unat (terminal_row s - 1) = ?r - 1" using r by (simp add: unat_minus_one unat_gt_0)
  have b: "terminal_row ?b = terminal_row s - 1" "terminal_column ?b = 80" "terminal_buffer ?b = VGA_MEMORY"
    using assms(1,2,4) by (auto simp: terminal_putchar_def Let_def on_screen_def)
  have rb: "terminal_row ?b < VGA_HEIGHT" using row r b by (simp add: word_nat)
  let ?d = "fold terminal_putchar ds ?b"
  have d: "unat (terminal_column ?d) = 80 + length ds" "terminal_row ?d = terminal_row s - 1"
    "terminal_buffer ?d = VGA_MEMORY"
    using text_past_line [of ?b ds] rb b set assms(8) len by simp_all
  have f: "fold terminal_putchar cs ?b = terminal_putchar (last cs) ?d" by (subst cs) simp
  define a where "a = VGA_MEMORY + 2 * (terminal_row ?d * VGA_WIDTH + terminal_column ?d)"
  have "unat (terminal_row ?d) = ?r - 1" using d(2) row by simp
  then have "unat (terminal_row ?d * VGA_WIDTH) = (?r - 1) * 80"
    using r(2) by (simp add: unat_word_ariths del: One_nat_def)
  then have "unat (terminal_row ?d * VGA_WIDTH + terminal_column ?d) = 80 * ?r + length ds"
    using r d(1) assms(8) len by (subst unat_add32; linarith)
  then have "unat a = 0xC00B8000 + 2 * (80 * ?r + length ds)"
    using r assms(8) len unfolding a_def by (intro unat_vga_offset) linarith+
  moreover have "unat (terminal_column (fold terminal_putchar cs ?b)) = 80 + length cs"
      "terminal_row (fold terminal_putchar cs ?b) = terminal_row s - 1" "mem (fold terminal_putchar cs ?b) a = last cs"
    using putchar_past_line [of ?d "length ds" "last cs"] d set rb b(1) assms(8) len by (auto simp: f a_def)
  ultimately show ?thesis
    using len by (intro exI [of _ "fold terminal_putchar cs ?b"] exI [of _ a]) (auto simp: vga_range_unat)
qed

text \<open>Witness of C31: a newline, a backspace and 1921 characters from a fresh screen put a character just
  behind the text buffer.\<close>

theorem backspace_runs_off_witness:
  "\<exists>a. mem (fold terminal_putchar (replicate 1921 65) (terminal_putchar 8 (terminal_putchar 10 (fresh_tty [] ())))) a = 65
     \<and> unat a = 0xC00B8FA0 \<and> \<not> vga_range a"
proof -
  let ?s = "terminal_putchar 10 (fresh_tty [] ())"
  have d: "displays ?s [10]" using displays_putchar [OF fresh_tty_displays, of 10] by simp
  then have "unat (terminal_row ?s) = 1" "unat (terminal_column ?s) = 0"
    by (simp_all add: displays_def wrap_def view_def top_line_def)
  then have rc: "terminal_row ?s = 1" "terminal_column ?s = 0" by (simp_all add: word_unat_eq_iff)
  show ?thesis
    using backspace_runs_off [OF displays_on_screen [OF d] rc(2), of "replicate 1921 65"]
    by (auto simp: rc(1))
qed

end
