(* ===== verification/Libc_Number.thy ===== *)
theory Libc_Number
  imports Tty "HOL-Library.Signed_Division"
begin

text \<open>
  Number conversion of the kernel's C library (\<open>libc/stdio/internal.c\<close>: \<open>__swap\<close>, \<open>__reverse\<close>, \<open>__utoa\<close>,
  \<open>__itoa\<close>, \<open>__ulltoa\<close>, \<open>__lltoa\<close>), over the byte memory \<open>mem\<close>. A leading \<open>__\<close> of a source name is
  written \<open>libc_\<close>. The specification is \<open>digits\<close>, the digits of a number with the first one first, and
  every conversion is shown to write exactly them and a NUL.
\<close>

section \<open>Definitions\<close>

abbreviation (input) INT_MIN :: u32 where "INT_MIN \<equiv> 0x80000000"

definition libc_swap :: "u32 \<Rightarrow> u32 \<Rightarrow> memory \<Rightarrow> memory" where
  "libc_swap a b m =
     (if a = NULL \<or> b = NULL then m
      else let temp = m a; m = m(a := m b) in m(b := temp))"

text \<open>\<open>__reverse\<close>: its two indices stay between 0 and the length, so they are integers.\<close>

function libc_reverse_loop :: "u32 \<Rightarrow> int \<Rightarrow> int \<Rightarrow> memory \<Rightarrow> memory" where
  "libc_reverse_loop str st en m =
     (if st < en
      then libc_reverse_loop str (st + 1) (en - 1) (libc_swap (str + of_int st) (str + of_int en) m)
      else m)"
  by pat_completeness auto
termination
  by (relation "measure (\<lambda>(str, st, en, m). nat (en - st))") auto

declare libc_reverse_loop.simps [simp del]

definition libc_reverse :: "u32 \<Rightarrow> int \<Rightarrow> memory \<Rightarrow> memory" where
  "libc_reverse str len m = libc_reverse_loop str 0 (len - 1) m"

text \<open>The digit loop that \<open>__utoa\<close> and \<open>__ulltoa\<close> have in common, at the width of the value, and the
  loop that puts the digits in order. A division by zero raises exception 0, which aborts.\<close>

partial_function (option) toa_digits ::
  "u32 \<Rightarrow> 'a::len word \<Rightarrow> 'a word \<Rightarrow> 'z heap_scheme \<Rightarrow> (u32, 'z heap_scheme) kres option" where
  "toa_digits ptr value base s =
     (if base = 0 then panicK (Abort ''division by zero'') else
      let md = value mod base;
          s = s\<lparr>mem := (mem s)(ptr := ucast (if md < 10 then md + 48 else md - 10 + 97))\<rparr>;
          value = value div base
      in if value > 0 then toa_digits (ptr + 1) value base s else retK (ptr + 1) s)"

function toa_swap :: "u32 \<Rightarrow> u32 \<Rightarrow> memory \<Rightarrow> memory" where
  "toa_swap low ptr m =
     (if low < ptr
      then let tmp = m low; m = m(low := m ptr); m = m(ptr := tmp) in toa_swap (low + 1) (ptr - 1) m
      else m)"
  by pat_completeness auto
termination
proof (relation "measure (\<lambda>(low, ptr, m). unat ptr - unat low)", goal_cases)
  case (2 low ptr m)
  then have "ptr \<noteq> 0" by auto
  with 2 show ?case by (simp add: unat_inc word_nat unat_minus_one)
qed simp

declare toa_swap.simps [simp del]

definition libc_utoa :: "u32 \<Rightarrow> u32 \<Rightarrow> u32 \<Rightarrow> 'z heap_scheme \<Rightarrow> (unit, 'z heap_scheme) kres option" where
  "libc_utoa value buffer base s =
     bindK (toa_digits buffer value base s) (\<lambda>ptr s.
       let s = s\<lparr>mem := (mem s)(ptr := 0)\<rparr>; ptr = ptr - 1
       in retK () (s\<lparr>mem := toa_swap buffer ptr (mem s)\<rparr>))"

definition libc_ulltoa :: "u64 \<Rightarrow> u32 \<Rightarrow> u32 \<Rightarrow> 'z heap_scheme \<Rightarrow> (unit, 'z heap_scheme) kres option" where
  "libc_ulltoa value buffer base s =
     bindK (toa_digits buffer value (scast base) s) (\<lambda>ptr s.
       let s = s\<lparr>mem := (mem s)(ptr := 0)\<rparr>; ptr = ptr - 1
       in retK () (s\<lparr>mem := toa_swap buffer ptr (mem s)\<rparr>))"

text \<open>\<open>__itoa\<close>: signed division truncates; the division of \<open>INT_MIN\<close> by -1 traps like one by zero.
  Negating \<open>INT_MIN\<close> wraps around (the kernel is built without optimisation).\<close>

definition sdiv32 :: "u32 \<Rightarrow> u32 \<Rightarrow> u32" where
  "sdiv32 a b = word_of_int (sint a sdiv sint b)"

definition smod32 :: "u32 \<Rightarrow> u32 \<Rightarrow> u32" where
  "smod32 a b = word_of_int (sint a smod sint b)"

partial_function (option) itoa_digits ::
  "u32 \<Rightarrow> u32 \<Rightarrow> u32 \<Rightarrow> u32 \<Rightarrow> 'z heap_scheme \<Rightarrow> (u32, 'z heap_scheme) kres option" where
  "itoa_digits str i num base s =
     (if num = 0 then retK i s
      else if base = 0 \<or> base = - 1 \<and> num = INT_MIN then panicK (Abort ''division by zero'')
      else let rem = smod32 num base;
               s = s\<lparr>mem := (mem s)(str + i := ucast (if 9 <s rem then rem - 10 + 97 else rem + 48))\<rparr>
           in itoa_digits str (i + 1) (sdiv32 num base) base s)"

definition libc_itoa :: "u32 \<Rightarrow> u32 \<Rightarrow> u32 \<Rightarrow> 'z heap_scheme \<Rightarrow> (u32, 'z heap_scheme) kres option" where
  "libc_itoa num str base s =
     (if num = 0 then retK str (s\<lparr>mem := (mem s)(str := 48, str + 1 := 0)\<rparr>)
      else
        let isNegative = num <s 0 \<and> base = 10;
            num = (if isNegative then - num else num)
        in bindK (itoa_digits str 0 num base s) (\<lambda>i s.
             let s = (if isNegative then s\<lparr>mem := (mem s)(str + i := 45)\<rparr> else s);
                 i = (if isNegative then i + 1 else i);
                 s = s\<lparr>mem := (mem s)(str + i := 0)\<rparr>
             in retK str (s\<lparr>mem := libc_reverse str (sint i) (mem s)\<rparr>)))"

definition libc_lltoa :: "u64 \<Rightarrow> u32 \<Rightarrow> u32 \<Rightarrow> 'z heap_scheme \<Rightarrow> (unit, 'z heap_scheme) kres option" where
  "libc_lltoa value buffer base s =
     (if value <s 0 \<and> base = 10
      then libc_ulltoa (- (value + 1) + 1) (buffer + 1) base (s\<lparr>mem := (mem s)(buffer := 45)\<rparr>)
      else libc_ulltoa value buffer base s)"

section \<open>Numbers\<close>

text \<open>The specification of number conversion: the digits of a number, the first one first, and the
  number that a list of digits denotes.\<close>

definition dig :: "nat \<Rightarrow> u8" where
  "dig d = (if d < 10 then of_nat d + 48 else of_nat d - 10 + 97)"

fun digits :: "nat \<Rightarrow> nat \<Rightarrow> u8 list" where
  "digits b n = (if n < b \<or> b < 2 then [dig n] else digits b (n div b) @ [dig (n mod b)])"

declare digits.simps [simp del]

definition undig :: "u8 \<Rightarrow> nat" where
  "undig c = (if c < 58 then unat c - 48 else unat c - 87)"

definition number :: "nat \<Rightarrow> u8 list \<Rightarrow> nat" where
  "number b cs = foldl (\<lambda>n c. n * b + undig c) 0 cs"

primrec put_bytes :: "memory \<Rightarrow> u32 \<Rightarrow> u8 list \<Rightarrow> memory" where
  "put_bytes m p [] = m"
| "put_bytes m p (c # cs) = put_bytes (m(p := c)) (p + 1) cs"

lemma unat_dig: "d < 36 \<Longrightarrow> unat (dig d) = (if d < 10 then d + 48 else d + 87)"
proof -
  assume d: "d < 36"
  have "unat (of_nat d + 48 :: u8) = d + 48"
    using d by (simp add: unat_word_ariths unat_of_nat take_bit_nat_eq_self)
  moreover have "unat (of_nat d - 10 + 97 :: u8) = d + 87"
  proof -
    have "(of_nat d - 10 + 97 :: u8) = of_nat d + 87" by simp
    then show ?thesis using d by (simp only: unat_word_ariths unat_of_nat) (simp add: take_bit_nat_eq_self)
  qed
  ultimately show ?thesis by (simp add: dig_def)
qed

lemma undig_dig: "d < 36 \<Longrightarrow> undig (dig d) = d"
  by (simp add: undig_def word_nat unat_dig)

lemma number_digits: "2 \<le> b \<Longrightarrow> b \<le> 36 \<Longrightarrow> number b (digits b n) = n"
proof (induction b n rule: digits.induct)
  case (1 b n)
  show ?case
  proof (cases "n < b")
    case True
    with 1 show ?thesis by (simp add: digits.simps [of b n] number_def undig_dig)
  next
    case False
    with 1 have "n mod b < b" "number b (digits b (n div b)) = n div b" by auto
    moreover from this have "undig (dig (n mod b)) = n mod b" using "1.prems" by (intro undig_dig) linarith
    ultimately show ?thesis using 1 False by (simp add: digits.simps [of b n] number_def)
  qed
qed

lemma dig_range: "d < 16 \<Longrightarrow> 48 \<le> dig d \<and> dig d < 103"
  by (simp add: word_nat unat_dig)

lemma digits_clean: "2 \<le> b \<Longrightarrow> b \<le> 16 \<Longrightarrow> c \<in> set (digits b n) \<Longrightarrow> 48 \<le> c \<and> c < 103"
proof (induction b n rule: digits.induct)
  case (1 b n)
  have "n mod b < 16" "n < b \<Longrightarrow> n < 16" using "1.prems" mod_less_divisor [of b n] by linarith+
  moreover have "c \<in> set (digits b (n div b)) \<or> c = dig (n mod b) \<or> n < b \<and> c = dig n"
    using "1.prems" by (auto simp: digits.simps [of b n] split: if_splits)
  moreover have "n < b \<Longrightarrow> digits b (n div b) = [dig 0]" using "1.prems" by (simp add: digits.simps)
  ultimately show ?case using 1 dig_range [of 0] dig_range by (cases "n < b") auto
qed

lemma length_digits: "2 \<le> b \<Longrightarrow> n < 2 ^ Suc k \<Longrightarrow> length (digits b n) \<le> Suc k"
proof (induction k arbitrary: n)
  case 0
  then show ?case by (simp add: digits.simps)
next
  case (Suc k)
  have "n div b \<le> n div 2" using Suc.prems(1) by (rule div_le_mono2 [rotated]) simp
  also have "n div 2 < 2 ^ Suc k" using Suc.prems(2) by simp
  finally have "length (digits b (n div b)) \<le> Suc k" using Suc by blast
  then show ?case by (subst digits.simps) simp
qed

lemma digits_not_Nil [simp]: "digits b n \<noteq> []"
  by (subst digits.simps) simp

subsection \<open>Writing digits\<close>

lemma put_bytes_apply:
  "length cs \<le> 4294967296 \<Longrightarrow> put_bytes m p cs x = (if unat (x - p) < length cs then cs ! unat (x - p) else m x)"
proof (induction cs arbitrary: m p)
  case (Cons c cs)
  show ?case
  proof (cases "x = p")
    case True
    have "unat (x - (p + 1)) = 4294967295" using True by (simp add: unat_minus_1)
    with Cons True show ?thesis by simp
  next
    case False
    then have "x - p \<noteq> 0" by simp
    then have "unat (x - p) = Suc (unat (x - (p + 1)))"
      using unat_minus_one [of "x - p"] unat_gt_0 [of "x - p"] by (simp add: algebra_simps)
    with Cons False show ?thesis by simp
  qed
qed simp

lemma put_bytes_append: "put_bytes m p (cs @ ds) = put_bytes (put_bytes m p cs) (p + of_nat (length cs)) ds"
  by (induction cs arbitrary: m p) (simp_all add: algebra_simps)

lemma toa_swap_apply: "toa_swap low ptr m x = (if low \<le> x \<and> x \<le> ptr then m (low + ptr - x) else m x)"
proof (induction low ptr m rule: toa_swap.induct)
  case (1 low ptr m)
  show ?case
  proof (cases "low < ptr")
    case True
    let ?m = "m(low := m ptr, ptr := m low)"
    have "ptr \<noteq> 0" using True by auto
    then have u: "unat (low + 1) = Suc (unat low)" "unat ptr = Suc (unat (ptr - 1))"
      using unat_inc [OF True] by (simp_all add: unat_minus_one unat_gt_0)
    have "toa_swap low ptr m x = toa_swap (low + 1) (ptr - 1) ?m x"
      by (simp only: toa_swap.simps [of low ptr m] True if_True Let_def)
    also have "\<dots> = (if low + 1 \<le> x \<and> x \<le> ptr - 1 then ?m (low + 1 + (ptr - 1) - x) else ?m x)"
      by (rule "1.IH" [OF True refl refl refl])
    also have "\<dots> = (if low \<le> x \<and> x \<le> ptr then m (low + ptr - x) else m x)"
    proof (cases "low + 1 \<le> x \<and> x \<le> ptr - 1")
      case inside: True
      then have "x \<noteq> low" "x \<noteq> ptr" using u True by (auto simp: word_nat)
      then have "low + ptr - x \<noteq> low" "low + ptr - x \<noteq> ptr" by (auto simp: algebra_simps)
      with inside u show ?thesis by (simp add: word_nat)
    next
      case False
      then have "low \<le> x \<and> x \<le> ptr \<longleftrightarrow> x = low \<or> x = ptr"
        using u True by (auto simp: word_nat word_unat_eq_iff)
      with False True show ?thesis by auto
    qed
    finally show ?thesis .
  next
    case False
    then have "low \<le> x \<and> x \<le> ptr \<Longrightarrow> x = low \<and> ptr = low" by auto
    with False show ?thesis by (subst toa_swap.simps) auto
  qed
qed

text \<open>Reversing what was written makes the string with its NUL.\<close>

lemma toa_swap_put_bytes:
  assumes "ds \<noteq> []" and "unat p + length ds < 4294967296"
  shows "toa_swap p (p + of_nat (length ds) - 1) ((put_bytes m p (rev ds))(p + of_nat (length ds) := 0)) =
    put_bytes m p (ds @ [0])"
proof
  fix x
  let ?n = "length ds" and ?d = "unat (x - p)" and ?m = "(put_bytes m p (rev ds))(p + of_nat (length ds) := 0)"
  have n: "unat (of_nat ?n :: u32) = ?n" using assms(2) by (simp add: unat_of_nat take_bit_nat_eq_self)
  have end0: "unat (p + of_nat ?n) = unat p + ?n" using assms(2) n by (simp add: unat_add32)
  then have "p + of_nat ?n \<noteq> 0" using assms(1) by (auto simp: word_unat_eq_iff)
  then have end1: "unat (p + of_nat ?n - 1) = unat p + ?n - 1" using end0 by (simp add: unat_minus_one)
  have inside: "p \<le> x \<and> x \<le> p + of_nat ?n - 1 \<longleftrightarrow> ?d < ?n"
  proof -
    have "x - p < of_nat ?n \<longleftrightarrow> unat p \<le> unat x \<and> unat x < unat p + ?n"
      using diff_less_iff [of p "of_nat ?n" x] assms(2) n by simp
    moreover have "unat x < unat p + ?n \<longleftrightarrow> unat x \<le> unat p + ?n - 1" using assms(1) by (cases ds) auto
    ultimately show ?thesis using end1 n by (simp add: word_nat)
  qed
  have at_n: "x = p + of_nat ?n \<longleftrightarrow> ?d = ?n"
  proof -
    have "x = p + of_nat ?n \<longleftrightarrow> x - p = of_nat ?n" by (auto simp: algebra_simps)
    then show ?thesis by (simp add: word_unat_eq_iff n)
  qed
  show "toa_swap p (p + of_nat ?n - 1) ?m x = put_bytes m p (ds @ [0]) x"
  proof (cases "?d < ?n")
    case True
    define y where "y = p + (p + of_nat ?n - 1) - x"
    have "y - p = of_nat ?n - 1 - (x - p)" by (simp add: y_def algebra_simps)
    also have "\<dots> = of_nat (?n - 1 - ?d)" using True by (simp add: of_nat_diff)
    finally have y: "unat (y - p) = ?n - 1 - ?d" using assms(2)
      by (simp add: unat_of_nat take_bit_nat_eq_self del: of_nat_diff)
    have "y \<noteq> p + of_nat ?n" using y n True by auto
    moreover have "?n - 1 - ?d < ?n" using True by linarith
    ultimately have "?m y = ds ! ?d" using y True assms(2) by (simp add: put_bytes_apply rev_nth)
    moreover have "toa_swap p (p + of_nat ?n - 1) ?m x = ?m y"
      using inside True unfolding y_def by (simp only: toa_swap_apply if_True)
    ultimately show ?thesis using True assms(2) by (simp add: put_bytes_apply nth_append)
  next
    case False
    with inside at_n assms(2) show ?thesis
      by (auto simp: toa_swap_apply put_bytes_apply nth_append)
  qed
qed

lemma dig_word:
  fixes v base :: "'a::len word"
  assumes "2 \<le> unat base" and "unat base \<le> 16" and "8 \<le> LENGTH('a)"
  shows "ucast (if v mod base < 10 then v mod base + 48 else v mod base - 10 + 97) = dig (unat v mod unat base)"
proof -
  let ?d = "unat v mod unat base"
  have d: "?d < 16" using assms(1,2) mod_less_divisor [of "unat base" "unat v"] by linarith
  have "2 ^ 8 \<le> (2 :: nat) ^ LENGTH('a)" using assms(3) by (rule power_increasing) simp
  then have u: "unat (10 :: 'a word) = 10" "unat (48 :: 'a word) = 48" "unat (87 :: 'a word) = 87" "256 \<le> (2 :: nat) ^ LENGTH('a)"
    by (simp_all add: unat_numeral take_bit_nat_eq_self)
  have vm: "unat (v mod base) = ?d" by (simp add: unat_mod)
  show ?thesis
  proof (cases "?d < 10")
    case True
    then have "unat (v mod base + 48) = ?d + 48" using vm u by (simp add: unat_word_ariths del: unat_mod)
    then show ?thesis using True vm u d unat_dig [of ?d] by (simp add: word_unat_eq_iff word_nat unsigned_ucast_eq take_bit_nat_eq_self)
  next
    case False
    then have "unat (v mod base - 10 + 97) = ?d + 87" using vm u d by (simp add: unat_word_ariths unat_sub_if')
    then show ?thesis using False vm u d unat_dig [of ?d] by (simp add: word_unat_eq_iff word_nat unsigned_ucast_eq take_bit_nat_eq_self)
  qed
qed

lemma toa_digits_correct:
  fixes v base :: "'a::len word"
  assumes "2 \<le> unat base" and "unat base \<le> 16" and "8 \<le> LENGTH('a)"
  shows "toa_digits p v base s =
    retK (p + of_nat (length (digits (unat base) (unat v)))) (s\<lparr>mem := put_bytes (mem s) p (rev (digits (unat base) (unat v)))\<rparr>)"
proof (induction "unat v" arbitrary: p v s rule: less_induct)
  case less
  let ?b = "unat base" and ?n = "unat v"
  let ?s = "s\<lparr>mem := (mem s)(p := dig (?n mod ?b))\<rparr>"
  have "base \<noteq> 0" using assms(1) by auto
  then have step: "toa_digits p v base s =
      (if 0 < v div base then toa_digits (p + 1) (v div base) base ?s else retK (p + 1) ?s)"
    by (subst toa_digits.simps) (simp only: if_False Let_def dig_word [OF assms])
  have pos: "0 < v div base \<longleftrightarrow> \<not> ?n < ?b"
    using assms(1) by (simp add: word_gt_0 word_unat_eq_iff unat_div div_eq_0_iff)
  show ?case
  proof (cases "?n < ?b")
    case True
    then show ?thesis using step pos by (simp add: digits.simps)
  next
    case False
    then have "unat (v div base) < ?n" using assms(1) by (simp add: unat_div div_less_dividend)
    from less [OF this, of "p + 1" ?s] show ?thesis
      using step pos False assms(1) digits.simps [of ?b ?n] by (simp add: unat_div algebra_simps)
  qed
qed

lemma toa_finish:
  assumes "unat p + length (digits b n) < 4294967296"
  shows "toa_swap p (p + of_nat (length (digits b n)) - 1)
      ((put_bytes m p (rev (digits b n)))(p + of_nat (length (digits b n)) := 0)) = put_bytes m p (digits b n @ [0])"
  using assms by (intro toa_swap_put_bytes) simp_all

lemma libc_utoa_correct:
  assumes "2 \<le> unat base" and "unat base \<le> 16" and "unat p + length (digits (unat base) (unat v)) < 4294967296"
  shows "libc_utoa v p base s = retK () (s\<lparr>mem := put_bytes (mem s) p (digits (unat base) (unat v) @ [0])\<rparr>)"
  using toa_finish [OF assms(3), of "mem s"]
  by (simp add: libc_utoa_def toa_digits_correct assms Let_def)

lemma libc_ulltoa_correct:
  assumes "unat p + length (digits 10 (unat v)) < 4294967296"
  shows "libc_ulltoa v p 10 s = retK () (s\<lparr>mem := put_bytes (mem s) p (digits 10 (unat v) @ [0])\<rparr>)"
  using toa_finish [OF assms, of "mem s"]
  by (simp add: libc_ulltoa_def toa_digits_correct Let_def)

text \<open>A negative number has a minus sign and the digits of its absolute value.\<close>

definition signed_text :: "int \<Rightarrow> u8 list" where
  "signed_text i = (if i < 0 then 45 # digits 10 (nat (- i)) else digits 10 (nat i))"

lemma unat_sint: "0 \<le> sint (w :: 'a::len word) \<Longrightarrow> unat w = nat (sint w)"
proof -
  assume w: "0 \<le> sint w"
  have "sint w < 2 ^ (LENGTH('a) - 1)" by (rule sint_lt)
  also have "\<dots> \<le> (2 :: int) ^ LENGTH('a)" by (rule power_increasing) simp_all
  finally have "take_bit LENGTH('a) (sint w) = sint w" using w by (simp add: take_bit_int_eq_self)
  then have "uint w = sint w" by (simp add: uint_sint)
  then show ?thesis by (metis unat_eq_nat_uint)
qed

lemma unat_minus_sint: "sint (w :: 'a::len word) < 0 \<Longrightarrow> unat (- w) = nat (- sint w)"
proof -
  assume w: "sint w < 0"
  have "- sint w \<le> 2 ^ (LENGTH('a) - 1)" using sint_ge [of w] by simp
  also have "\<dots> < (2 :: int) ^ LENGTH('a)" by (rule power_strict_increasing) simp_all
  finally have i: "take_bit LENGTH('a) (- sint w) = - sint w" using w by (simp add: take_bit_int_eq_self)
  have "- w = word_of_int (- sint w)" by simp
  then have "uint (- w) = - sint w" using i by (simp only: uint_word_of_int_eq)
  then show ?thesis by (metis unat_eq_nat_uint)
qed

lemma libc_lltoa_correct:
  assumes "unat p + 65 < 4294967296"
  shows "libc_lltoa v p 10 s = retK () (s\<lparr>mem := put_bytes (mem s) p (signed_text (sint v) @ [0])\<rparr>)"
proof -
  have len: "length (digits 10 (unat w)) \<le> 64" for w :: u64
    using length_digits [of 10 "unat w" 63] unsigned_less [of w, where ?'a = nat] by simp
  have p1: "unat (p + 1) = Suc (unat p)" using assms by (simp add: unat_inc32)
  show ?thesis
  proof (cases "v <s 0")
    case True
    then have "sint v < 0" by (simp add: word_sless_alt)
    moreover from this have "unat (- v) = nat (- sint v)" by (simp add: unat_minus_sint)
    ultimately show ?thesis
      using True len [of "- v"] assms p1
      by (simp add: libc_lltoa_def libc_ulltoa_correct signed_text_def)
  next
    case False
    then have "0 \<le> sint v" by (simp add: word_sless_alt)
    then have "unat v = nat (sint v)" by (rule unat_sint)
    with False \<open>0 \<le> sint v\<close> len [of v] assms show ?thesis
      by (simp add: libc_lltoa_def libc_ulltoa_correct signed_text_def)
  qed
qed

subsection \<open>Signed numbers\<close>

lemma signed_div_10:
  assumes "0 \<le> sint (n :: u32)"
  shows "sdiv32 n 10 = n div 10" and "smod32 n 10 = n mod 10" and "0 \<le> sint (n div 10)" and "\<not> 9 <s n mod 10"
proof -
  have u: "unat n = nat (sint n)" by (rule unat_sint [OF assms])
  have t: "sint (10 :: u32) = 10" by simp
  have "sint n sdiv 10 = sint n div 10" "sint n smod 10 = sint n mod 10"
    using assms by (simp_all add: signed_divide_int_def signed_modulo_int_def sgn_if minus_div_mult_eq_mod)
  moreover have i: "sint n = uint n" using u assms by (metis int_nat_eq uint_nat)
  ultimately show "sdiv32 n 10 = n div 10" "smod32 n 10 = n mod 10"
    unfolding sdiv32_def smod32_def t by (simp_all only: i word_div_def word_mod_def uint_numeral) simp_all
  have small: "sint w = int (unat w)" if "unat w < 2147483648" for w :: u32
  proof -
    have "int (unat w) < 2147483648" using that by linarith
    moreover have "- (2 ^ 31) \<le> uint w" by (rule order_trans [of _ 0]) simp_all
    ultimately show ?thesis using signed_take_bit_int_eq_self [of 31 "uint w"] by (simp add: sint_uint [of w])
  qed
  have "unat n < 2147483648" using u sint_lt [of n] by simp
  then have "unat (n div 10) < 2147483648" "unat (n mod 10) < 10" by (simp_all add: unat_div unat_mod)
  moreover from this have "int (unat (n mod 10)) < 10" "unat (n mod 10) < 2147483648" by linarith+
  ultimately show "0 \<le> sint (n div 10)" "\<not> 9 <s n mod 10"
    using small [of "n div 10"] small [of "n mod 10"] by (simp_all add: word_sless_alt)
qed

lemma itoa_digits_correct:
  assumes "0 < sint (n :: u32)"
  shows "itoa_digits str i n 10 s = retK (i + of_nat (length (digits 10 (unat n))))
    (s\<lparr>mem := put_bytes (mem s) (str + i) (rev (digits 10 (unat n)))\<rparr>)"
  using assms
proof (induction "unat n" arbitrary: n i s rule: less_induct)
  case less
  let ?s = "s\<lparr>mem := (mem s)(str + i := dig (unat n mod 10))\<rparr>"
  note sd = signed_div_10 [OF less_imp_le [OF less.prems]]
  have n0: "n \<noteq> 0" using less.prems by auto
  have "n mod 10 < 10" by (simp add: word_nat unat_mod)
  then have "ucast (n mod 10 + 48) = dig (unat n mod 10)" using dig_word [of 10 n] by simp
  then have step: "itoa_digits str i n 10 s = itoa_digits str (i + 1) (n div 10) 10 ?s"
    using n0 sd by (subst itoa_digits.simps) (simp add: Let_def)
  show ?case
  proof (cases "n div 10 = 0")
    case True
    then have "unat n < 10" by (simp add: word_unat_eq_iff unat_div div_eq_0_iff)
    with True step show ?thesis by (simp add: itoa_digits.simps [of _ _ 0] digits.simps)
  next
    case False
    then have "0 < sint (n div 10)" using sd(3) by (metis order_le_less signed_eq_0_iff)
    moreover have "unat (n div 10) < unat n" using n0 by (simp add: unat_div unat_gt_0)
    ultimately have IH: "itoa_digits str (i + 1) (n div 10) 10 ?s = retK (i + 1 + of_nat (length (digits 10 (unat (n div 10)))))
        (?s\<lparr>mem := put_bytes (mem ?s) (str + (i + 1)) (rev (digits 10 (unat (n div 10))))\<rparr>)"
      using less.hyps by blast
    have d: "unat (n div 10) = unat n div 10" by (simp add: unat_div)
    have "\<not> unat n < 10" using False by (auto simp: word_unat_eq_iff d)
    then have "digits 10 (unat n) = digits 10 (unat n div 10) @ [dig (unat n mod 10)]"
      by (simp add: digits.simps [of 10 "unat n"])
    then show ?thesis unfolding step IH d by (simp add: add.assoc)
  qed
qed

lemma libc_reverse_loop_eq:
  assumes "0 \<le> st" and "- 1 \<le> en" and "str \<noteq> NULL" and "int (unat str) + en < 4294967296"
    and "int (unat str) + st < 4294967296"
  shows "libc_reverse_loop str st en m = toa_swap (str + of_int st) (str + of_int en) m"
  using assms
proof (induction str st en m rule: libc_reverse_loop.induct)
  case (1 str st en m)
  have u: "unat (str + of_int k) = unat str + nat k" if "0 \<le> k" "int (unat str) + k < 4294967296" for k
  proof -
    have "k < 4294967296" using that(2) by linarith
    with that(1) have "unat (of_int k :: u32) = nat k" by (simp add: unsigned_of_int take_bit_int_eq_self)
    moreover have "unat str + nat k < 4294967296" using that by linarith
    ultimately show ?thesis by (subst unat_add32) simp_all
  qed
  show ?case
  proof (cases "st < en")
    case True
    then have lt: "str + of_int st < str + of_int en"
      using "1.prems" u [of st] u [of en] by (simp add: word_nat)
    have "str + of_int st \<noteq> 0" "str + of_int en \<noteq> 0"
      using "1.prems" True u [of st] u [of en] by (auto simp: word_unat_eq_iff)
    then have sw: "libc_swap (str + of_int st) (str + of_int en) m =
        m(str + of_int st := m (str + of_int en), str + of_int en := m (str + of_int st))"
      by (simp add: libc_swap_def Let_def fun_upd_def)
    have "libc_reverse_loop str st en m =
        toa_swap (str + of_int (st + 1)) (str + of_int (en - 1)) (libc_swap (str + of_int st) (str + of_int en) m)"
      using True "1.IH" [OF True] "1.prems" by (simp add: libc_reverse_loop.simps [of str st en m])
    also have "\<dots> = toa_swap (str + of_int st) (str + of_int en) m"
      unfolding sw by (simp only: toa_swap.simps [of "str + of_int st"] lt if_True Let_def) (simp add: algebra_simps)
    finally show ?thesis .
  next
    case False
    have "\<not> str + of_int st < str + of_int en"
    proof (cases "en = - 1")
      case True
      then have "unat (str + of_int en) < unat str" using "1.prems" (3) by (simp add: unat_minus_one unat_gt_0)
      with u [of st] "1.prems" show ?thesis by (simp add: word_nat)
    next
      case en: False
      with False "1.prems" u [of st] u [of en] show ?thesis by (simp add: word_nat)
    qed
    with False show ?thesis by (simp add: libc_reverse_loop.simps toa_swap.simps)
  qed
qed

lemma libc_reverse_put_bytes:
  assumes "cs \<noteq> []" and "length cs \<le> 65" and "p \<noteq> NULL" and "unat p + 65 < 4294967296"
  shows "libc_reverse p (sint (of_nat (length cs) :: u32)) ((put_bytes m p (rev cs))(p + of_nat (length cs) := 0)) =
    put_bytes m p (cs @ [0])"
proof -
  let ?m = "(put_bytes m p (rev cs))(p + of_nat (length cs) := 0)"
  have "sint (of_nat (length cs) :: u32) = int (length cs)"
    using assms(2) signed_take_bit_int_eq_self [of 31 "int (length cs)"] by (simp add: signed_of_nat)
  moreover have "libc_reverse_loop p 0 (int (length cs) - 1) ?m = toa_swap (p + of_int 0) (p + of_int (int (length cs) - 1)) ?m"
    using assms(2-4) by (intro libc_reverse_loop_eq) linarith+
  ultimately have "libc_reverse p (sint (of_nat (length cs) :: u32)) ?m = toa_swap p (p + of_nat (length cs) - 1) ?m"
    by (simp add: libc_reverse_def add_diff_eq)
  then show ?thesis using toa_swap_put_bytes [OF assms(1), of p m] assms(2,4) by simp
qed

lemma libc_itoa_correct:
  assumes "v \<noteq> INT_MIN" and "p \<noteq> NULL" and "unat p + 65 < 4294967296"
  shows "libc_itoa v p 10 s = retK p (s\<lparr>mem := put_bytes (mem s) p (signed_text (sint v) @ [0])\<rparr>)"
proof (cases "v = 0")
  case True
  then show ?thesis by (simp add: libc_itoa_def signed_text_def digits.simps dig_def)
next
  case False
  let ?neg = "v <s 0" and ?w = "if v <s 0 then - v else v"
  let ?t = "signed_text (sint v)" and ?ds = "digits 10 (unat ?w)"
  have neg: "?neg \<longleftrightarrow> sint v < 0" by (simp add: word_sless_alt)
  have u: "unat ?w = nat \<bar>sint v\<bar>" using neg unat_sint [of v] unat_minus_sint [of v] by auto
  then have w: "uint ?w = \<bar>sint v\<bar>" by (metis abs_ge_zero int_nat_eq uint_nat)
  have "sint v \<noteq> - 2147483648"
  proof
    assume "sint v = - 2147483648"
    then have "word_of_int (sint v) = (- 2147483648 :: u32)" by simp
    then show False using assms(1) by simp
  qed
  then have "\<bar>sint v\<bar> < 2147483648" using sint_ge [of v] sint_lt [of v] by simp
  then have "sint ?w = \<bar>sint v\<bar>"
    using w signed_take_bit_int_eq_self [of 31 "uint ?w"] by (simp add: sint_uint [of ?w] del: if_split)
  then have pos: "0 < sint ?w" using False by (simp add: zero_less_abs_iff signed_eq_0_iff)
  have t: "?t = (if ?neg then [45] else []) @ ?ds"
    using u neg by (auto simp: signed_text_def)
  have "unat ?w < 4294967296" by simp
  then have "length ?ds \<le> 32" using length_digits [of 10 "unat ?w" 31] by simp
  then have len: "length ?t \<le> 33" "?t \<noteq> []" using t by auto
  have "libc_itoa v p 10 s = retK p (s\<lparr>mem := libc_reverse p (sint (of_nat (length ?t) :: u32))
      ((put_bytes (mem s) p (rev ?t))(p + of_nat (length ?t) := 0))\<rparr>)"
    using False pos t
    by (simp add: libc_itoa_def Let_def itoa_digits_correct put_bytes_append algebra_simps)
  then show ?thesis using libc_reverse_put_bytes [OF len(2) _ assms(2,3), of "mem s"] len(1) by simp
qed

section \<open>Properties\<close>

lemma length_digits_word: "LENGTH('a::len) \<le> 64 \<Longrightarrow> 2 \<le> b \<Longrightarrow> length (digits b (unat (v :: 'a word))) \<le> 64"
proof -
  assume "LENGTH('a) \<le> 64" and b: "2 \<le> b"
  then have "(2 :: nat) ^ LENGTH('a) \<le> 2 ^ Suc 63" by (intro power_increasing) simp_all
  then have "unat v < 2 ^ Suc 63" using unsigned_less [of v, where ?'a = nat] by linarith
  with b show ?thesis using length_digits [of b "unat v" 63] by simp
qed

text \<open>C20: number conversion round trip. \<open>__utoa\<close> in base 2 to 16 and \<open>__ulltoa\<close> in base 10 write a
  NUL-terminated text of at most 64 digits that denotes exactly the value they were given, so it fits the
  buffer of \<open>vprintf\<close>, and write nothing else; \<open>__lltoa\<close> writes the same for the absolute value with a
  minus sign before it, the least \<open>long long\<close> included.\<close>

theorem toa_roundtrip:
  assumes "2 \<le> unat base" and "unat base \<le> 16" and "unat p + 65 < 4294967296"
  shows "(\<exists>ds. libc_utoa v p base s = retK () (s\<lparr>mem := put_bytes (mem s) p (ds @ [0])\<rparr>)
        \<and> number (unat base) ds = unat v \<and> length ds \<le> 64)
    \<and> (\<exists>ds. libc_ulltoa w p 10 s = retK () (s\<lparr>mem := put_bytes (mem s) p (ds @ [0])\<rparr>)
        \<and> number 10 ds = unat w \<and> length ds \<le> 64)
    \<and> (\<exists>ds. libc_lltoa w p 10 s = retK () (s\<lparr>mem := put_bytes (mem s) p ((if sint w < 0 then [45] else []) @ ds @ [0])\<rparr>)
        \<and> int (number 10 ds) = \<bar>sint w\<bar>)"
proof (intro conjI)
  have "length (digits (unat base) (unat v)) \<le> 64" using length_digits_word [of "unat base" v] assms(1) by simp
  then show "\<exists>ds. libc_utoa v p base s = retK () (s\<lparr>mem := put_bytes (mem s) p (ds @ [0])\<rparr>)
        \<and> number (unat base) ds = unat v \<and> length ds \<le> 64"
    using assms by (intro exI [of _ "digits (unat base) (unat v)"]) (simp add: libc_utoa_correct number_digits)
  have "length (digits 10 (unat w)) \<le> 64" using length_digits_word [of 10 w] by simp
  then show "\<exists>ds. libc_ulltoa w p 10 s = retK () (s\<lparr>mem := put_bytes (mem s) p (ds @ [0])\<rparr>)
        \<and> number 10 ds = unat w \<and> length ds \<le> 64"
    using assms(3) by (intro exI [of _ "digits 10 (unat w)"]) (simp add: libc_ulltoa_correct number_digits)
  show "\<exists>ds. libc_lltoa w p 10 s = retK () (s\<lparr>mem := put_bytes (mem s) p ((if sint w < 0 then [45] else []) @ ds @ [0])\<rparr>)
        \<and> int (number 10 ds) = \<bar>sint w\<bar>"
    by (rule exI [of _ "digits 10 (nat \<bar>sint w\<bar>)"])
      (simp add: libc_lltoa_correct assms(3) number_digits signed_text_def)
qed

text \<open>Witness of C20: 255 in base 16 and the least 64-bit number in base 10.\<close>

theorem toa_roundtrip_witness:
  "\<exists>ds. libc_lltoa (- 9223372036854775808) 0x9000 10 (quiet_timer ()) =
     retK () ((quiet_timer ())\<lparr>mem := put_bytes (mem (quiet_timer ())) 0x9000 ([45] @ ds @ [0])\<rparr>)
     \<and> int (number 10 ds) = 9223372036854775808"
  using toa_roundtrip [of 16 "0x9000" 255 "quiet_timer ()" "- 9223372036854775808"] by simp

text \<open>The least \<open>int\<close>. \<open>__itoa\<close> negates it, which leaves it negative, so every remainder is negative
  and the characters come from before \<open>'0'\<close>: \<open>printf("%d", INT_MIN)\<close> prints \<open>-./,),(-*,(\<close>.\<close>

theorem itoa_int_min:
  assumes "p \<noteq> NULL" and "unat p + 65 < 4294967296"
  shows "libc_itoa INT_MIN p 10 s =
    retK p (s\<lparr>mem := put_bytes (mem s) p [45, 46, 47, 44, 41, 44, 40, 45, 42, 44, 40, 0]\<rparr>)"
proof -
  let ?cs = "[45, 46, 47, 44, 41, 44, 40, 45, 42, 44, 40] :: u8 list"
  have "libc_itoa INT_MIN p 10 s = retK p (s\<lparr>mem := libc_reverse p (sint (of_nat (length ?cs) :: u32))
      ((put_bytes (mem s) p (rev ?cs))(p + of_nat (length ?cs) := 0))\<rparr>)"
    by (simp add: libc_itoa_def Let_def itoa_digits.simps sdiv32_def smod32_def word_sless_alt
        signed_divide_int_def signed_modulo_int_def) (simp only: add.commute [of _ p])
  then show ?thesis using libc_reverse_put_bytes [OF _ _ assms, of ?cs "mem s"] by simp
qed

text \<open>At a concrete state.\<close>

theorem itoa_int_min_witness:
  "libc_itoa INT_MIN 0x9000 10 (quiet_timer ()) =
    retK 0x9000 ((quiet_timer ())\<lparr>mem := put_bytes (mem (quiet_timer ())) 0x9000 [45, 46, 47, 44, 41, 44, 40, 45, 42, 44, 40, 0]\<rparr>)"
  using itoa_int_min [of "0x9000" "quiet_timer ()"] by simp

end
