(* ===== verification/Libc_Stdio.thy ===== *)
theory Libc_Stdio
  imports Libc_Number
begin

text \<open>
  The formatted output of the kernel's C library (\<open>libc/stdio\<close>): \<open>vprintf\<close>,
  \<open>printf\<close>, \<open>puts\<close> and \<open>putchar\<close>. Strings, arguments and local arrays are bytes of the memory \<open>mem\<close>.
  An \<open>i386\<close> \<open>va_list\<close> is the address of the next argument word. The locals whose address the code takes
  are in a frame at \<open>fp\<close>: \<open>buffer\<close> of \<open>vprintf\<close> at \<open>fp\<close> to \<open>fp + 64\<close>, its \<open>c\<close> at \<open>fp + 65\<close> and the \<open>c\<close> of
  \<open>putchar\<close> at \<open>fp + 66\<close>.
\<close>

section \<open>Definitions\<close>

abbreviation (input) EOF :: u32 where "EOF \<equiv> - 1"
abbreviation (input) EOVERFLOW :: u32 where "EOVERFLOW \<equiv> 75"
abbreviation (input) INT_MAX :: u32 where "INT_MAX \<equiv> 0x7FFFFFFF"

definition putchar :: "u32 \<Rightarrow> u32 \<Rightarrow> 'z tty_scheme \<Rightarrow> u32 \<times> 'z tty_scheme" where
  "putchar fp ic s =
     (let s = s\<lparr>mem := (mem s)(fp + 66 := ucast ic)\<rparr>
      in (ic, terminal_write (fp + 66) 1 s))"

function libc_print_loop :: "u32 \<Rightarrow> u32 \<Rightarrow> size_t \<Rightarrow> size_t \<Rightarrow> 'z tty_scheme \<Rightarrow> bool \<times> 'z tty_scheme" where
  "libc_print_loop fp data len i s =
     (if i < len then
        let (r, s) = putchar fp (ucast (mem s (data + i))) s
        in if r = EOF then (False, s) else libc_print_loop fp data len (i + 1) s
      else (True, s))"
  by pat_completeness auto
termination
  by (relation "measure (\<lambda>(fp, data, n, i, s). unat n - unat i)") (auto simp: unat_inc word_nat)

declare libc_print_loop.simps [simp del]

definition libc_print :: "u32 \<Rightarrow> u32 \<Rightarrow> size_t \<Rightarrow> 'z tty_scheme \<Rightarrow> bool \<times> 'z tty_scheme" where
  "libc_print fp data len s = libc_print_loop fp data len 0 s"

text \<open>\<open>__append\<close>: the error code and the new \<open>*written\<close>.\<close>

definition libc_append ::
  "u32 \<Rightarrow> u32 \<Rightarrow> size_t \<Rightarrow> u32 \<Rightarrow> 'z tty_scheme \<Rightarrow> (u32 \<times> u32, 'z tty_scheme) kres option" where
  "libc_append fp data len written s =
     (let maxrem = INT_MAX - written
      in if maxrem < len then retK (EOVERFLOW, written) s
         else let (ok, s) = libc_print fp data len s
              in if \<not> ok then retK (- 1, written) s else retK (0, written + len) s)"

subsection \<open>vprintf\<close>

text \<open>The value of a loop that does not end is \<open>None\<close>.\<close>

definition ofK :: "'a option \<Rightarrow> 's \<Rightarrow> ('a, 's) kres option" where
  "ofK x s = (case x of None \<Rightarrow> None | Some v \<Rightarrow> retK v s)"

definition va_arg32 :: "u32 \<Rightarrow> 'z heap_scheme \<Rightarrow> u32" where
  "va_arg32 ap s = load32 (mem s) ap"

definition va_arg64 :: "u32 \<Rightarrow> 'z heap_scheme \<Rightarrow> u64" where
  "va_arg64 ap s = ucast (load32 (mem s) ap) OR push_bit 32 (ucast (load32 (mem s) (ap + 4)))"

partial_function (option) literal_span :: "memory \<Rightarrow> u32 \<Rightarrow> size_t \<Rightarrow> size_t option" where
  "literal_span m format amount =
     (if m (format + amount) \<noteq> 0 \<and> m (format + amount) \<noteq> 37 then literal_span m format (amount + 1)
      else Some amount)"

text \<open>Appending \<open>strlen(p)\<close> bytes from \<open>p\<close>, as most branches do.\<close>

definition append_string ::
  "u32 \<Rightarrow> u32 \<Rightarrow> u32 \<Rightarrow> 'z tty_scheme \<Rightarrow> (u32 \<times> u32, 'z tty_scheme) kres option" where
  "append_string fp p written s =
     bindK (ofK (strlen (mem s) p) s) (\<lambda>n s. libc_append fp p n written s)"

text \<open>One turn of the loop of \<open>vprintf\<close>: the error code, the new \<open>written\<close>, \<open>format\<close> and \<open>parameters\<close>.\<close>

definition vprintf_turn ::
  "u32 \<Rightarrow> u32 \<Rightarrow> u32 \<Rightarrow> u32 \<Rightarrow> 'z tty_scheme \<Rightarrow> ((u32 \<times> u32) \<times> u32 \<times> u32, 'z tty_scheme) kres option" where
  "vprintf_turn fp format ap written s =
     (if mem s format \<noteq> 37 \<or> mem s (format + 1) = 37 then
        let format = (if mem s format = 37 then format + 1 else format)
        in bindK (ofK (literal_span (mem s) format 1) s) (\<lambda>amount s.
           bindK (libc_append fp format amount written s) (\<lambda>r s. retK (r, format + amount, ap) s))
      else
        let format_begun_at = format; format = format + 1; d = mem s format in
        if d = 99 then
          let c = ucast (va_arg32 ap s); s = s\<lparr>mem := (mem s)(fp + 65 := c)\<rparr>
          in bindK (libc_append fp (fp + 65) 1 written s) (\<lambda>r s. retK (r, format + 1, ap + 4) s)
        else if d = 115 then
          bindK (append_string fp (va_arg32 ap s) written s) (\<lambda>r s. retK (r, format + 1, ap + 4) s)
        else if d = 100 then
          bindK (libc_itoa (va_arg32 ap s) fp 10 s) (\<lambda>_ s.
          bindK (append_string fp fp written s) (\<lambda>r s. retK (r, format + 1, ap + 4) s))
        else if d = 117 then
          bindK (libc_utoa (va_arg32 ap s) fp 10 s) (\<lambda>_ s.
          bindK (append_string fp fp written s) (\<lambda>r s. retK (r, format + 1, ap + 4) s))
        else if d = 120 then
          bindK (libc_utoa (va_arg32 ap s) fp 16 s) (\<lambda>_ s.
          bindK (append_string fp fp written s) (\<lambda>r s. retK (r, format + 1, ap + 4) s))
        else if d = 108 then
          let format = format + 1 in
          if mem s format = 108 then
            let format = format + 1 in
            if mem s format = 117 then
              bindK (libc_ulltoa (va_arg64 ap s) fp 10 s) (\<lambda>_ s.
              bindK (append_string fp fp written s) (\<lambda>r s. retK (r, format + 1, ap + 8) s))
            else if mem s format = 100 then
              bindK (libc_lltoa (va_arg64 ap s) fp 10 s) (\<lambda>_ s.
              bindK (append_string fp fp written s) (\<lambda>r s. retK (r, format + 1, ap + 8) s))
            else retK ((0, written), format, ap) s
          else
            bindK (append_string fp format_begun_at written s) (\<lambda>r s.
            bindK (ofK (strlen (mem s) format_begun_at) s) (\<lambda>n s. retK (r, format_begun_at + n, ap) s))
        else
          bindK (append_string fp format_begun_at written s) (\<lambda>r s.
          bindK (ofK (strlen (mem s) format_begun_at) s) (\<lambda>n s. retK (r, format_begun_at + n, ap) s)))"

partial_function (option) vprintf_loop ::
  "u32 \<Rightarrow> u32 \<Rightarrow> u32 \<Rightarrow> u32 \<Rightarrow> 'z tty_scheme \<Rightarrow> (u32, 'z tty_scheme) kres option" where
  "vprintf_loop fp format ap written s =
     (if mem s format = 0 then retK written s
      else bindK (vprintf_turn fp format ap written s) (\<lambda>r s.
        if fst (fst r) \<noteq> 0 then retK (fst (fst r)) s
        else vprintf_loop fp (fst (snd r)) (snd (snd r)) (snd (fst r)) s))"

definition vprintf :: "u32 \<Rightarrow> u32 \<Rightarrow> u32 \<Rightarrow> 'z tty_scheme \<Rightarrow> (u32, 'z tty_scheme) kres option" where
  "vprintf fp format parameters s = vprintf_loop fp format parameters 0 s"

text \<open>\<open>printf\<close> is called with its variable arguments at \<open>args\<close>; \<open>puts\<close> is given the address of its
  literal \<open>"%s\n"\<close> and of the word it passes.\<close>

definition printf :: "u32 \<Rightarrow> u32 \<Rightarrow> u32 \<Rightarrow> 'z tty_scheme \<Rightarrow> (u32, 'z tty_scheme) kres option" where
  "printf fp format args s = vprintf fp format args s"

definition puts :: "u32 \<Rightarrow> u32 \<Rightarrow> u32 \<Rightarrow> u32 \<Rightarrow> 'z tty_scheme \<Rightarrow> (u32, 'z tty_scheme) kres option" where
  "puts fp lit arg string s = printf fp lit arg (s\<lparr>mem := store32 (mem s) arg string\<rparr>)"

section \<open>Printing bytes\<close>

text \<open>The frame of locals is ordinary memory, and what the code reads lies outside it and outside the
  screen: such an address is \<open>safe\<close>.\<close>

definition frame_ok :: "u32 \<Rightarrow> bool" where
  "frame_ok fp \<longleftrightarrow> fp \<noteq> NULL \<and> unat fp + 67 < 4294967296 \<and> (\<forall>k<67. \<not> vga_range (fp + k))"

definition safe :: "u32 \<Rightarrow> u32 \<Rightarrow> bool" where
  "safe fp a \<longleftrightarrow> \<not> vga_range a \<and> \<not> a - fp < 67"

lemma displays_mem:
  assumes "\<And>a. vga_range a \<Longrightarrow> m a = mem s a"
  shows "displays (s\<lparr>mem := m\<rparr>) tx \<longleftrightarrow> displays s tx"
proof -
  have "cell_at (s\<lparr>mem := m\<rparr>) y x = cell_at s y x" if "y < 25" "x < 80" for y x
  proof -
    have "80 * y + x < 2000" using that by linarith
    then show ?thesis using assms by (simp add: cell_at_def load16_def)
  qed
  then show ?thesis by (simp add: displays_def view_def split: prod.splits)
qed

lemma displays_local:
  assumes "\<And>a. \<not> a - fp < 67 \<Longrightarrow> m a = mem s a" and "frame_ok fp"
  shows "displays (s\<lparr>mem := m\<rparr>) tx \<longleftrightarrow> displays s tx"
proof -
  have "m a = mem s a" if "vga_range a" for a
  proof (rule assms(1))
    have "\<not> vga_range (fp + (a - fp))" if "a - fp < 67" using that assms(2) unfolding frame_ok_def by blast
    with that show "\<not> a - fp < 67" by auto
  qed
  then show ?thesis by (rule displays_mem)
qed

lemma frame_local: "frame_ok fp \<Longrightarrow> k < 67 \<Longrightarrow> \<not> vga_range (fp + k)"
  by (simp add: frame_ok_def)

text \<open>The three functions below only touch the slot of \<open>putchar\<close> in the frame.\<close>

definition put_frame :: "u32 \<Rightarrow> 'z tty_scheme \<Rightarrow> 'z tty_scheme \<Rightarrow> bool" where
  "put_frame fp s s' \<longleftrightarrow> (\<forall>a. \<not> vga_range a \<longrightarrow> a \<noteq> fp + 66 \<longrightarrow> mem s' a = mem s a)"

lemma ucast_8_32 [simp]: "ucast (ucast c :: u32) = (c :: u8)"
  by (rule bit_word_eqI) (auto simp: bit_simps)

lemma putchar_displays:
  assumes "frame_ok fp" and "displays s tx" and "c \<noteq> 8"
  shows "\<exists>s'. putchar fp (ucast c) s = (ucast c, s') \<and> displays s' (tx @ [c]) \<and> put_frame fp s s'"
proof -
  let ?s = "s\<lparr>mem := (mem s)(fp + 66 := c)\<rparr>"
  have nv: "\<not> vga_range (fp + 66)" using frame_local [OF assms(1), of 66] by simp
  have eq: "putchar fp (ucast c) s = (ucast c, terminal_write (fp + 66) 1 ?s)"
    by (simp add: putchar_def)
  have "displays ?s tx" using assms(2) nv displays_mem [of "(mem s)(fp + 66 := c)" s tx] by fastforce
  moreover have "\<not> vga_range (fp + 66 + j) \<and> mem ?s (fp + 66 + j) \<noteq> 8" if "0 \<le> j" "j < 1" for j
    using that nv assms(3) by (simp add: word_less_1)
  ultimately have "displays (terminal_write (fp + 66) 1 ?s) (tx @ [c])
      \<and> (\<forall>a. \<not> vga_range a \<longrightarrow> mem (terminal_write (fp + 66) 1 ?s) a = mem ?s a)"
    using terminal_write_loop_displays [of 0 1 ?s tx "fp + 66"] by (simp add: terminal_write_def)
  then show ?thesis unfolding eq put_frame_def by auto
qed

lemma libc_print_loop_displays:
  assumes "i \<le> n" and "displays s tx" and "frame_ok fp"
    and "\<And>j. i \<le> j \<Longrightarrow> j < n \<Longrightarrow> \<not> vga_range (data + j) \<and> data + j \<noteq> fp + 66 \<and> mem s (data + j) \<noteq> 8"
  shows "\<exists>s'. libc_print_loop fp data n i s = (True, s')
    \<and> displays s' (tx @ map (\<lambda>j. mem s (data + of_nat j)) [unat i..<unat n]) \<and> put_frame fp s s'"
  using assms
proof (induction fp data n i s arbitrary: tx rule: libc_print_loop.induct)
  case (1 fp data n i s)
  show ?case
  proof (cases "i < n")
    case True
    let ?c = "mem s (data + i)"
    have c: "?c \<noteq> 8" using "1.prems" (4) [of i] True by simp
    obtain s1 where s1: "putchar fp (ucast ?c) s = (ucast ?c, s1)" "displays s1 (tx @ [?c])" "put_frame fp s s1"
      using putchar_displays [OF "1.prems" (3,2) c] by blast
    have neof: "ucast ?c \<noteq> (- 1 :: u32)"
    proof
      assume "ucast ?c = (- 1 :: u32)"
      then have "unat (ucast ?c :: u32) = 4294967295" by (simp only: unat_minus_1)
      moreover have "unat (ucast ?c :: u32) < 256" using unsigned_less [of ?c, where ?'a = nat]
        by (simp add: unsigned_ucast_eq take_bit_nat_eq_self)
      ultimately show False by simp
    qed
    have suc: "unat (i + 1) = Suc (unat i)" by (rule unat_inc [OF True])
    have same: "mem s1 (data + j) = mem s (data + j)" if "i \<le> j" "j < n" for j
      using s1(3) "1.prems" (4) [OF that] by (simp add: put_frame_def)
    have "\<exists>s'. libc_print_loop fp data n (i + 1) s1 = (True, s')
      \<and> displays s' ((tx @ [?c]) @ map (\<lambda>j. mem s1 (data + of_nat j)) [unat (i + 1)..<unat n]) \<and> put_frame fp s1 s'"
    proof (rule "1.IH" [OF True s1(1) [symmetric] refl neof])
      show "i + 1 \<le> n" using True suc by (simp add: word_nat)
      fix j assume "i + 1 \<le> j" "j < n"
      then have "i \<le> j" using suc by (simp add: word_nat)
      with \<open>j < n\<close> "1.prems" (4) same show "\<not> vga_range (data + j) \<and> data + j \<noteq> fp + 66 \<and> mem s1 (data + j) \<noteq> 8" by simp
    qed (use s1(2) "1.prems" (3) in auto)
    moreover have "map (\<lambda>j. mem s1 (data + of_nat j)) [unat (i + 1)..<unat n] =
        map (\<lambda>j. mem s (data + of_nat j)) [unat (i + 1)..<unat n]"
    proof (rule map_cong [OF refl])
      fix j assume j: "j \<in> set [unat (i + 1)..<unat n]"
      then have "unat (of_nat j :: u32) = j"
        using unat_lt32 [of n] by (simp add: unat_of_nat take_bit_nat_eq_self del: unat_lt32)
      with j suc have "i \<le> of_nat j" "of_nat j < n" by (auto simp: word_nat)
      then show "mem s1 (data + of_nat j) = mem s (data + of_nat j)" by (rule same)
    qed
    moreover have "[unat i..<unat n] = unat i # [unat (i + 1)..<unat n]"
      using True suc by (simp add: upt_conv_Cons word_nat)
    ultimately show ?thesis
      using True s1 neof by (subst libc_print_loop.simps) (auto simp: put_frame_def)
  next
    case False
    with "1.prems" show ?thesis by (simp add: libc_print_loop.simps word_nat put_frame_def)
  qed
qed

section \<open>Strings and arguments in memory\<close>

definition text_at :: "memory \<Rightarrow> u32 \<Rightarrow> u8 list \<Rightarrow> bool" where
  "text_at m p cs \<longleftrightarrow> length cs < 4294967295 \<and> 0 \<notin> set cs \<and> m (p + of_nat (length cs)) = 0
     \<and> (\<forall>i<length cs. m (p + of_nat i) = cs ! i)"

definition text_safe :: "u32 \<Rightarrow> memory \<Rightarrow> u32 \<Rightarrow> u8 list \<Rightarrow> bool" where
  "text_safe fp m p cs \<longleftrightarrow> text_at m p cs \<and> (\<forall>i\<le>length cs. safe fp (p + of_nat i))"

definition args_safe :: "u32 \<Rightarrow> memory \<Rightarrow> u32 \<Rightarrow> u32 list \<Rightarrow> bool" where
  "args_safe fp m ap ws \<longleftrightarrow> (\<forall>i<length ws. load32 m (ap + 4 * of_nat i) = ws ! i
     \<and> (\<forall>k<4. safe fp (ap + 4 * of_nat i + k)))"

lemma unat_of_nat32: "n < 4294967296 \<Longrightarrow> unat (of_nat n :: u32) = n"
  by (simp add: unat_of_nat take_bit_nat_eq_self)

lemma strlen_text: "text_at m p cs \<Longrightarrow> strlen m p = Some (of_nat (length cs))"
proof -
  assume t: "text_at m p cs"
  have "m (p + j) \<noteq> 0" if "j < of_nat (length cs)" for j
  proof -
    have "unat j < length cs" using that t by (simp add: word_nat unat_of_nat32 text_at_def)
    then have "m (p + of_nat (unat j)) \<in> set cs" using t by (metis text_at_def nth_mem)
    with t show ?thesis by (auto simp: text_at_def)
  qed
  with t show ?thesis by (auto simp: strlen_iff text_at_def)
qed

lemma text_safe_cong: "text_safe fp m p cs \<Longrightarrow> (\<And>a. safe fp a \<Longrightarrow> m' a = m a) \<Longrightarrow> text_safe fp m' p cs"
  by (auto simp: text_safe_def text_at_def)

lemma args_safe_cong:
  assumes "args_safe fp m ap ws" and "\<And>a. safe fp a \<Longrightarrow> m' a = m a"
  shows "args_safe fp m' ap ws"
proof -
  have "load32 m' (ap + 4 * of_nat i) = load32 m (ap + 4 * of_nat i)" if "i < length ws" for i
  proof -
    have s: "safe fp (ap + 4 * of_nat i + k)" if "k < 4" for k
      using assms(1) \<open>i < length ws\<close> that by (simp add: args_safe_def)
    show ?thesis using s [of 0] s [of 1] s [of 2] s [of 3] by (intro load32_cong assms(2)) simp_all
  qed
  with assms(1) show ?thesis by (simp add: args_safe_def)
qed

lemma text_safe_append: "text_safe fp m p (cs @ ds) \<Longrightarrow> text_safe fp m (p + of_nat (length cs)) ds"
proof -
  assume t: "text_safe fp m p (cs @ ds)"
  have "m (p + of_nat (length cs) + of_nat i) = ds ! i" if "i < length ds" for i
  proof -
    have "m (p + of_nat (length cs + i)) = (cs @ ds) ! (length cs + i)"
      using t that unfolding text_safe_def text_at_def by (metis length_append nat_add_left_cancel_less)
    then show ?thesis by (simp add: add.assoc)
  qed
  moreover have "safe fp (p + of_nat (length cs) + of_nat i)" if "i \<le> length ds" for i
  proof -
    have "safe fp (p + of_nat (length cs + i))" using t that by (simp add: text_safe_def del: of_nat_add)
    then show ?thesis by (simp add: add.assoc)
  qed
  ultimately show ?thesis using t by (simp add: text_safe_def text_at_def add.assoc)
qed

lemma args_safe_Cons: "args_safe fp m ap (w # ws) \<Longrightarrow> load32 m ap = w \<and> args_safe fp m (ap + 4) ws"
proof -
  assume a: "args_safe fp m ap (w # ws)"
  have "load32 m (ap + 4 + 4 * of_nat i) = ws ! i \<and> (\<forall>k<4. safe fp (ap + 4 + 4 * of_nat i + k))"
    if "i < length ws" for i
  proof -
    have "ap + 4 * of_nat (Suc i) = ap + 4 + 4 * of_nat i" by (simp add: algebra_simps)
    moreover have "load32 m (ap + 4 * of_nat (Suc i)) = (w # ws) ! Suc i \<and> (\<forall>k<4. safe fp (ap + 4 * of_nat (Suc i) + k))"
      using a that unfolding args_safe_def by (metis Suc_less_eq length_Cons)
    ultimately show ?thesis by (metis nth_Cons_Suc)
  qed
  moreover have "load32 m (ap + 4 * of_nat 0) = (w # ws) ! 0" using a unfolding args_safe_def by blast
  ultimately show ?thesis by (simp add: args_safe_def)
qed

lemma text_bytes: "text_at m p cs \<Longrightarrow> n \<le> length cs \<Longrightarrow> map (\<lambda>j. m (p + of_nat j)) [0..<n] = take n cs"
  by (rule nth_equalityI) (auto simp: text_at_def)

section \<open>Appending\<close>

text \<open>The first \<open>n\<close> bytes of a text are appended, unless the count of bytes would pass \<open>INT_MAX\<close>.\<close>

lemma libc_append_overflow:
  "INT_MAX - written < len \<Longrightarrow> libc_append fp data len written s = retK (EOVERFLOW, written) s"
  by (simp add: libc_append_def)

lemma append_room:
  assumes "unat (written :: u32) + n \<le> 2147483647"
  shows "\<not> INT_MAX - written < of_nat n"
proof -
  have "unat (INT_MAX - written) = 2147483647 - unat written"
    using assms by (subst unat_sub32) (simp_all add: word_nat)
  moreover have "unat (of_nat n :: u32) = n" using assms by (intro unat_of_nat32) linarith
  ultimately show ?thesis using assms by (simp add: word_nat)
qed

lemma libc_append_bytes:
  assumes "frame_ok fp" and "displays s tx" and "unat written + n \<le> 2147483647"
    and "\<And>j. j < n \<Longrightarrow> \<not> vga_range (data + of_nat j) \<and> data + of_nat j \<noteq> fp + 66 \<and> mem s (data + of_nat j) \<noteq> 8"
  shows "\<exists>s'. libc_append fp data (of_nat n) written s = retK (0, written + of_nat n) s'
    \<and> displays s' (tx @ map (\<lambda>j. mem s (data + of_nat j)) [0..<n]) \<and> put_frame fp s s'"
proof -
  have n: "unat (of_nat n :: u32) = n" using assms(3) by (intro unat_of_nat32) linarith
  have "\<exists>s'. libc_print_loop fp data (of_nat n) 0 s = (True, s')
    \<and> displays s' (tx @ map (\<lambda>j. mem s (data + of_nat j)) [unat (0 :: u32)..<unat (of_nat n :: u32)]) \<and> put_frame fp s s'"
  proof (rule libc_print_loop_displays)
    fix j :: u32 assume "j < of_nat n"
    then have "unat j < n" using n by (simp add: word_nat)
    then show "\<not> vga_range (data + j) \<and> data + j \<noteq> fp + 66 \<and> mem s (data + j) \<noteq> 8" using assms(4) [of "unat j"] by simp
  qed (use assms in auto)
  with n append_room [OF assms(3)] show ?thesis by (auto simp: libc_append_def libc_print_def)
qed

lemma put_frame_safe: "put_frame fp s s' \<Longrightarrow> safe fp a \<Longrightarrow> mem s' a = mem s a"
  by (auto simp: put_frame_def safe_def)

text \<open>\<open>outputs fp tx cs s r\<close>: from a screen that shows \<open>tx\<close> the result \<open>r\<close> has printed \<open>cs\<close>, counted it and kept
  all memory but the screen and the frame.\<close>

definition outputs ::
  "u32 \<Rightarrow> u8 list \<Rightarrow> u8 list \<Rightarrow> u32 \<Rightarrow> 'z tty_scheme \<Rightarrow> (u32 \<times> u32, 'z tty_scheme) kres option \<Rightarrow> bool" where
  "outputs fp tx cs written s r \<longleftrightarrow> (\<exists>s'. r = retK (0, written + of_nat (length cs)) s' \<and> displays s' (tx @ cs)
     \<and> (\<forall>a. safe fp a \<longrightarrow> mem s' a = mem s a))"

lemma outputs_bind:
  assumes "outputs fp tx cs written s r"
  shows "\<exists>s'. bindK r k = k (0, written + of_nat (length cs)) s' \<and> displays s' (tx @ cs)
     \<and> (\<forall>a. safe fp a \<longrightarrow> mem s' a = mem s a)"
  using assms by (auto simp: outputs_def)

lemma safe_not_slot: "safe fp a \<Longrightarrow> \<not> vga_range a \<and> a \<noteq> fp + 66"
  by (auto simp: safe_def)

lemma append_prefix:
  assumes "frame_ok fp" and "displays s tx" and "text_safe fp (mem s) p (cs @ ds)" and "8 \<notin> set cs"
    and "unat written + length cs \<le> 2147483647"
  shows "outputs fp tx cs written s (libc_append fp p (of_nat (length cs)) written s)"
proof -
  have t: "text_at (mem s) p (cs @ ds)" "\<And>i. i < length cs \<Longrightarrow> safe fp (p + of_nat i)"
    using assms(3) by (simp_all add: text_safe_def)
  have "mem s (p + of_nat j) \<noteq> 8" if "j < length cs" for j
  proof -
    have "mem s (p + of_nat j) = cs ! j" using t(1) that by (simp add: text_at_def nth_append)
    with that assms(4) show ?thesis by (metis nth_mem)
  qed
  then have "\<exists>s'. libc_append fp p (of_nat (length cs)) written s = retK (0, written + of_nat (length cs)) s'
    \<and> displays s' (tx @ map (\<lambda>j. mem s (p + of_nat j)) [0..<length cs]) \<and> put_frame fp s s'"
    using t(2) safe_not_slot by (intro libc_append_bytes assms) blast
  then show ?thesis
    using text_bytes [OF t(1), of "length cs"] put_frame_safe by (auto simp: outputs_def)
qed

lemma append_string_text:
  assumes "frame_ok fp" and "displays s tx" and "text_safe fp (mem s) p cs" and "8 \<notin> set cs"
    and "unat written + length cs \<le> 2147483647"
  shows "outputs fp tx cs written s (append_string fp p written s)"
proof -
  have "strlen (mem s) p = Some (of_nat (length cs))" using assms(3) by (simp add: text_safe_def strlen_text)
  with append_prefix [OF assms(1,2) _ assms(4,5), of p "[]"] assms(3) show ?thesis
    by (simp add: append_string_def ofK_def)
qed

section \<open>The number conversions as an interface\<close>

text \<open>What \<open>vprintf\<close> relies on when it converts a number: the conversion writes the text and a NUL at the
  buffer, the text fits it and has no control characters.\<close>

locale number_writer =
  fixes conv :: "u32 \<Rightarrow> 'z tty_scheme \<Rightarrow> ('r, 'z tty_scheme) kres option" and shown :: "u8 list"
  assumes conv_writes: "p \<noteq> NULL \<Longrightarrow> unat p + 65 < 4294967296 \<Longrightarrow>
      \<exists>r. conv p s = retK r (s\<lparr>mem := put_bytes (mem s) p (shown @ [0])\<rparr>)"
    and shown_fits: "length shown \<le> 65"
    and shown_clean: "c \<in> set shown \<Longrightarrow> c \<noteq> 0 \<and> c \<noteq> 8"
begin

lemma print_number:
  assumes "frame_ok fp" and "displays s tx" and "unat written + length shown \<le> 2147483647"
  shows "\<exists>s'. bindK (conv fp s) (\<lambda>_ s. bindK (append_string fp fp written s) k) = k (0, written + of_nat (length shown)) s'
    \<and> displays s' (tx @ shown) \<and> (\<forall>a. safe fp a \<longrightarrow> mem s' a = mem s a)"
proof -
  let ?m = "put_bytes (mem s) fp (shown @ [0])" and ?n = "length shown"
  let ?s = "s\<lparr>mem := ?m\<rparr>"
  obtain r where r: "conv fp s = retK r ?s" using conv_writes [of fp s] assms(1) by (auto simp: frame_ok_def)
  have m: "?m a = (if unat (a - fp) < Suc ?n then (shown @ [0]) ! unat (a - fp) else mem s a)" for a
    using put_bytes_apply [of "shown @ [0]" "mem s" fp a] shown_fits by simp
  have "?m (fp + of_nat j) = (shown @ [0]) ! j" if "j \<le> ?n" for j
    using m [of "fp + of_nat j"] unat_of_nat32 [of j] that shown_fits by simp
  moreover from this [of ?n] have "?m (fp + of_nat ?n) = 0" by simp
  ultimately have t: "text_at ?m fp shown"
    using shown_fits shown_clean by (auto simp: text_at_def nth_append)
  have keep: "\<not> a - fp < 67 \<Longrightarrow> ?m a = mem s a" for a using m [of a] shown_fits by (simp add: word_nat)
  then have d: "displays ?s tx" using assms(2) displays_local [OF _ assms(1), of ?m s tx] by blast
  have "\<not> vga_range (fp + of_nat j) \<and> fp + of_nat j \<noteq> fp + 66 \<and> mem ?s (fp + of_nat j) \<noteq> 8" if "j < ?n" for j
  proof -
    have u: "unat (of_nat j :: u32) = j" using that shown_fits by (intro unat_of_nat32) linarith
    then have "of_nat j < (67 :: u32)" "of_nat j \<noteq> (66 :: u32)"
      using that shown_fits by (simp add: word_nat, simp add: word_unat_eq_iff)
    moreover have "mem ?s (fp + of_nat j) = shown ! j" using t that by (simp add: text_at_def)
    ultimately show ?thesis using frame_local [OF assms(1)] shown_clean that by simp
  qed
  from libc_append_bytes [OF assms(1) d assms(3), of fp, OF this] text_bytes [OF t, of ?n]
  obtain s' where s': "libc_append fp fp (of_nat ?n) written ?s = retK (0, written + of_nat ?n) s'"
    "displays s' (tx @ shown)" "put_frame fp ?s s'" by auto
  have "mem s' a = mem s a" if "safe fp a" for a
    using put_frame_safe [OF s'(3) that] keep [of a] that by (simp add: safe_def)
  then show ?thesis using r s'(1,2) strlen_text [OF t] by (auto simp: append_string_def ofK_def)
qed

end

lemma digits_text: "2 \<le> b \<Longrightarrow> b \<le> 16 \<Longrightarrow> c \<in> set (digits b n) \<Longrightarrow> c \<noteq> 0 \<and> c \<noteq> 8"
  using digits_clean [of b c n] by auto

lemma signed_text_clean: "c \<in> set (signed_text i) \<Longrightarrow> c \<noteq> 0 \<and> c \<noteq> 8"
  using digits_text [of 10 c] by (auto simp: signed_text_def split: if_splits)

lemma signed_text_fits: "\<bar>i\<bar> < 18446744073709551616 \<Longrightarrow> length (signed_text i) \<le> 65"
proof -
  assume "\<bar>i\<bar> < 18446744073709551616"
  then have "nat \<bar>i\<bar> < 2 ^ Suc 63" by simp
  then have "length (digits 10 (nat \<bar>i\<bar>)) \<le> 64" using length_digits [of 10 "nat \<bar>i\<bar>" 63] by simp
  then show ?thesis by (simp add: signed_text_def abs_if split: if_splits)
qed

interpretation utoa: number_writer "\<lambda>p. libc_utoa v p 10" "digits 10 (unat v)" for v
  using length_digits_word [of 10 v] digits_text [of 10 _ "unat v"]
  by unfold_locales (simp_all add: libc_utoa_correct)

interpretation utoa_hex: number_writer "\<lambda>p. libc_utoa v p 16" "digits 16 (unat v)" for v
  using length_digits_word [of 16 v] digits_text [of 16 _ "unat v"]
  by unfold_locales (simp_all add: libc_utoa_correct)

interpretation ulltoa: number_writer "\<lambda>p. libc_ulltoa v p 10" "digits 10 (unat v)" for v
  using length_digits_word [of 10 v] digits_text [of 10 _ "unat v"]
  by unfold_locales (simp_all add: libc_ulltoa_correct)

interpretation lltoa: number_writer "\<lambda>p. libc_lltoa v p 10" "signed_text (sint v)" for v
proof
  have "\<bar>sint v\<bar> < 18446744073709551616" using sint_ge [of v] sint_lt [of v] by simp
  then show "length (signed_text (sint v)) \<le> 65" by (rule signed_text_fits)
qed (simp_all add: libc_lltoa_correct signed_text_clean)

text \<open>\<open>__itoa\<close> keeps the contract for every \<open>int\<close> but the least one.\<close>

lemma itoa_writer: "v \<noteq> INT_MIN \<Longrightarrow> number_writer (\<lambda>p. libc_itoa v p 10) (signed_text (sint v))"
proof
  have "\<bar>sint v\<bar> < 18446744073709551616" using sint_ge [of v] sint_lt [of v] by simp
  then show "length (signed_text (sint v)) \<le> 65" by (rule signed_text_fits)
qed (simp_all add: libc_itoa_correct signed_text_clean)

section \<open>Rendering a format\<close>

text \<open>The specification of \<open>printf\<close>: what a format and its argument words print. \<open>S\<close> gives the string at an
  address. \<open>%ll\<close> before another letter than \<open>u\<close> and \<open>d\<close> prints nothing, and an unknown conversion prints the
  rest of the format as it is. There is no result when an argument is missing, when a string is not
  known, or for the \<open>int\<close> that cannot be negated.\<close>

definition arg64 :: "u32 \<Rightarrow> u32 \<Rightarrow> u64" where
  "arg64 lo hi = ucast lo OR push_bit 32 (ucast hi)"

definition one_arg :: "(u32 \<Rightarrow> u8 list option) \<Rightarrow> u8 \<Rightarrow> u32 \<Rightarrow> u8 list option" where
  "one_arg S d w =
     (if d = 99 then Some [ucast w]
      else if d = 115 then S w
      else if d = 100 then if w = INT_MIN then None else Some (signed_text (sint w))
      else if d = 117 then Some (digits 10 (unat w))
      else Some (digits 16 (unat w)))"

definition wide_arg :: "u8 \<Rightarrow> u64 \<Rightarrow> u8 list" where
  "wide_arg d w = (if d = 117 then digits 10 (unat w) else signed_text (sint w))"

fun render :: "(u32 \<Rightarrow> u8 list option) \<Rightarrow> u8 list \<Rightarrow> u32 list \<Rightarrow> u8 list option" where
  "render S [] ws = Some []"
| "render S [c] ws = Some [c]"
| "render S (c # d # f) ws =
     (if c \<noteq> 37 then map_option (Cons c) (render S (d # f) ws)
      else if d = 37 then map_option (Cons 37) (render S f ws)
      else if d \<in> {99, 115, 100, 117, 120} then
        (case ws of [] \<Rightarrow> None
         | w # ws \<Rightarrow> (case one_arg S d w of None \<Rightarrow> None
             | Some cs \<Rightarrow> map_option ((@) cs) (render S f ws)))
      else if d = 108 then
        (case f of [] \<Rightarrow> Some (c # d # f)
         | e # g \<Rightarrow>
           if e = 108 then
             (case g of [] \<Rightarrow> Some []
              | h # k \<Rightarrow>
                if h \<in> {117, 100} then
                  (case ws of lo # hi # ws \<Rightarrow> map_option ((@) (wide_arg h (arg64 lo hi))) (render S k ws)
                   | _ \<Rightarrow> None)
                else render S g ws)
           else Some (c # d # f))
      else Some (c # d # f))"

lemma render_one_arg:
  assumes "d \<in> {99, 115, 100, 117, 120}" and "render S (37 # d # f) ws = Some out"
  shows "\<exists>w ws' cs out'. ws = w # ws' \<and> one_arg S d w = Some cs \<and> render S f ws' = Some out' \<and> out = cs @ out'"
proof -
  have "render S (37 # d # f) ws = (case ws of [] \<Rightarrow> None
     | w # ws \<Rightarrow> (case one_arg S d w of None \<Rightarrow> None | Some cs \<Rightarrow> map_option ((@) cs) (render S f ws)))"
    using assms(1) by (simp only: render.simps) auto
  from this [symmetric] show ?thesis unfolding assms(2)
    by (cases ws; cases "one_arg S d (hd ws)") (auto simp del: render.simps)
qed

lemma render_wide_arg:
  assumes "h \<in> {117, 100}" and "render S (37 # 108 # 108 # h # k) ws = Some out"
  shows "\<exists>lo hi ws' out'. ws = lo # hi # ws' \<and> render S k ws' = Some out' \<and> out = wide_arg h (arg64 lo hi) @ out'"
proof -
  have "render S (37 # 108 # 108 # h # k) ws = (case ws of lo # hi # ws \<Rightarrow>
      map_option ((@) (wide_arg h (arg64 lo hi))) (render S k ws) | _ \<Rightarrow> None)"
    using assms(1) by (simp only: render.simps) auto
  from this [symmetric] show ?thesis unfolding assms(2)
    by (cases ws; cases "tl ws") (auto simp del: render.simps)
qed

lemma render_literal: "37 \<notin> set cs \<Longrightarrow> render S (cs @ f) ws = map_option ((@) cs) (render S f ws)"
proof (induction cs)
  case (Cons c cs)
  then have "render S (c # (cs @ f)) ws = map_option (Cons c) (render S (cs @ f) ws)"
    by (cases "cs @ f") auto
  with Cons show ?case by (auto simp: option.map_comp comp_def)
next
  case Nil
  then show ?case by (cases "render S f ws") simp_all
qed

lemma literal_span_text:
  assumes "text_at m p cs" and "j \<le> length cs"
  shows "literal_span m p (of_nat j) = Some (of_nat (j + length (takeWhile (\<lambda>c. c \<noteq> 37) (drop j cs))))"
  using assms(2)
proof (induction "length cs - j" arbitrary: j)
  case 0
  then have "j = length cs" by simp
  with assms(1) show ?case by (subst literal_span.simps) (simp add: text_at_def)
next
  case (Suc n)
  then have j: "j < length cs" by simp
  then have d: "drop j cs = cs ! j # drop (Suc j) cs" by (simp add: Cons_nth_drop_Suc)
  have c: "m (p + of_nat j) = cs ! j" "cs ! j \<noteq> 0"
    using assms(1) j by (auto simp: text_at_def) (metis nth_mem)
  have "literal_span m p (of_nat (Suc j)) = Some (of_nat (Suc j + length (takeWhile (\<lambda>c. c \<noteq> 37) (drop (Suc j) cs))))"
    using Suc j by (intro Suc.hyps) simp_all
  with c d show ?case
    by (subst literal_span.simps) (simp add: add.commute add.left_commute)
qed

section \<open>One turn of the loop\<close>

lemma text_safe_Cons: "text_safe fp m p (c # f) \<Longrightarrow> m p = c \<and> c \<noteq> 0 \<and> text_safe fp m (p + 1) f"
  using text_safe_append [of fp m p "[c]" f] by (auto simp: text_safe_def text_at_def)

lemma text_safe_Nil: "text_safe fp m p [] \<Longrightarrow> m p = 0"
  by (simp add: text_safe_def text_at_def)

lemma chunk_output:
  assumes "frame_ok fp" and "displays s tx" and "text_safe fp (mem s) p (c # f)"
    and "cs = c # takeWhile (\<lambda>c. c \<noteq> 37) f" and "8 \<notin> set cs" and "unat written + length cs \<le> 2147483647"
  shows "\<exists>s'. bindK (ofK (literal_span (mem s) p 1) s) (\<lambda>amount s.
      bindK (libc_append fp p amount written s) (\<lambda>r s. retK (r, p + amount, ap) s))
      = retK ((0, written + of_nat (length cs)), p + of_nat (length cs), ap) s'
    \<and> displays s' (tx @ cs) \<and> (\<forall>a. safe fp a \<longrightarrow> mem s' a = mem s a)"
proof -
  have "text_at (mem s) p (c # f)" using assms(3) by (simp add: text_safe_def)
  from literal_span_text [OF this, of 1] assms(4)
  have span: "literal_span (mem s) p 1 = Some (of_nat (length cs))" by simp
  have "text_safe fp (mem s) p (cs @ dropWhile (\<lambda>c. c \<noteq> 37) f)" using assms(3,4) by simp
  from outputs_bind [OF append_prefix [OF assms(1,2) this assms(5,6)],
      of "\<lambda>r s. retK (r, p + of_nat (length cs), ap) s"]
  show ?thesis by (simp add: span ofK_def)
qed

text \<open>What a turn from a format \<open>fmt\<close> at \<open>format\<close> does: it prints a first part of what is to be printed and goes
  on with a shorter format, whose rendering is the other part.\<close>

definition turned ::
  "(u32 \<Rightarrow> u8 list option) \<Rightarrow> u32 \<Rightarrow> u8 list \<Rightarrow> u8 list \<Rightarrow> u8 list \<Rightarrow> u32 \<Rightarrow> 'z tty_scheme
   \<Rightarrow> ((u32 \<times> u32) \<times> u32 \<times> u32, 'z tty_scheme) kres option \<Rightarrow> bool" where
  "turned S fp tx fmt out written s r \<longleftrightarrow> (\<exists>cs out' fmt' ws' format' ap' s'.
     r = retK ((0, written + of_nat (length cs)), format', ap') s' \<and> out = cs @ out' \<and> render S fmt' ws' = Some out'
     \<and> length fmt' < length fmt \<and> displays s' (tx @ cs) \<and> (\<forall>a. safe fp a \<longrightarrow> mem s' a = mem s a)
     \<and> text_safe fp (mem s) format' fmt' \<and> args_safe fp (mem s) ap' ws')"

lemma turnedI:
  assumes "\<exists>s'. r = retK ((0, written + of_nat (length cs)), format', ap') s' \<and> displays s' (tx @ cs)
      \<and> (\<forall>a. safe fp a \<longrightarrow> mem s' a = mem s a)"
    and "out = cs @ out'" and "render S fmt' ws' = Some out'" and "length fmt' < length fmt"
    and "text_safe fp (mem s) format' fmt'" and "args_safe fp (mem s) ap' ws'"
  shows "turned S fp tx fmt out written s r"
  using assms unfolding turned_def by blast

lemma turn_literal:
  assumes "frame_ok fp" and "displays s tx" and "text_safe fp (mem s) format fmt" and "args_safe fp (mem s) ap ws"
    and "render S fmt ws = Some out" and "8 \<notin> set out" and "unat written + length out \<le> 2147483647"
    and "fmt = c # f" and "c \<noteq> 37 \<or> (\<exists>g. f = 37 # g)"
  shows "turned S fp tx fmt out written s (vprintf_turn fp format ap written s)"
proof -
  note h = text_safe_Cons [OF assms(3) [unfolded assms(8)]]
  show ?thesis
  proof (cases "c = 37")
    case False
    define cs where "cs = c # takeWhile (\<lambda>c. c \<noteq> 37) f"
    have split: "fmt = cs @ dropWhile (\<lambda>c. c \<noteq> 37) f" by (simp add: cs_def assms(8))
    have "37 \<notin> set cs" using False by (auto simp: cs_def dest: set_takeWhileD)
    with assms(5) obtain out' where out: "render S (dropWhile (\<lambda>c. c \<noteq> 37) f) ws = Some out'" "out = cs @ out'"
      by (auto simp: split render_literal)
    show ?thesis
    proof (rule turnedI [OF _ out(2,1)])
      show "\<exists>s'. vprintf_turn fp format ap written s = retK ((0, written + of_nat (length cs)), format + of_nat (length cs), ap) s'
          \<and> displays s' (tx @ cs) \<and> (\<forall>a. safe fp a \<longrightarrow> mem s' a = mem s a)"
        using chunk_output [OF assms(1,2) assms(3) [unfolded assms(8)] cs_def, of written ap] assms(6,7) out(2) h False
        by (simp add: vprintf_turn_def)
      show "text_safe fp (mem s) (format + of_nat (length cs)) (dropWhile (\<lambda>c. c \<noteq> 37) f)"
        using assms(3) split text_safe_append by metis
    qed (use assms(4) in \<open>auto simp: assms(8) cs_def length_dropWhile_le le_imp_less_Suc\<close>)
  next
    case True
    with assms(9) obtain g where f: "f = 37 # g" by auto
    define cs where "cs = 37 # takeWhile (\<lambda>c. c \<noteq> 37) g"
    have split: "f = cs @ dropWhile (\<lambda>c. c \<noteq> 37) g" by (simp add: cs_def f)
    have "render S fmt ws = map_option ((@) cs) (render S (dropWhile (\<lambda>c. c \<noteq> 37) g) ws)"
    proof -
      have "37 \<notin> set (takeWhile (\<lambda>c. c \<noteq> 37) g)" by (auto dest: set_takeWhileD)
      from render_literal [OF this, of S "dropWhile (\<lambda>c. c \<noteq> 37) g" ws] show ?thesis
        by (cases "render S (dropWhile (\<lambda>c. c \<noteq> 37) g) ws") (simp_all add: assms(8) True f cs_def)
    qed
    with assms(5) obtain out' where out: "render S (dropWhile (\<lambda>c. c \<noteq> 37) g) ws = Some out'" "out = cs @ out'"
      by auto
    have h1: "mem s (format + 1) = 37" using h f text_safe_Cons by blast
    show ?thesis
    proof (rule turnedI [OF _ out(2,1)])
      show "\<exists>s'. vprintf_turn fp format ap written s = retK ((0, written + of_nat (length cs)), format + 1 + of_nat (length cs), ap) s'
          \<and> displays s' (tx @ cs) \<and> (\<forall>a. safe fp a \<longrightarrow> mem s' a = mem s a)"
        using chunk_output [OF assms(1,2) _ cs_def, of "format + 1" written ap] assms(6,7) out(2) h h1 f True
        by (simp add: vprintf_turn_def Let_def)
      show "text_safe fp (mem s) (format + 1 + of_nat (length cs)) (dropWhile (\<lambda>c. c \<noteq> 37) g)"
        using h split text_safe_append by metis
    qed (use assms(4) in \<open>auto simp: assms(8) f cs_def length_dropWhile_le le_imp_less_Suc less_SucI\<close>)
  qed
qed

lemma char_output:
  assumes "frame_ok fp" and "displays s tx" and "c \<noteq> 8" and "unat written < 2147483647"
  shows "\<exists>s'. libc_append fp (fp + 65) 1 written (s\<lparr>mem := (mem s)(fp + 65 := c)\<rparr>) = retK (0, written + 1) s'
    \<and> displays s' (tx @ [c]) \<and> (\<forall>a. safe fp a \<longrightarrow> mem s' a = mem s a)"
proof -
  let ?s = "s\<lparr>mem := (mem s)(fp + 65 := c)\<rparr>"
  have nv: "\<not> vga_range (fp + 65)" using frame_local [OF assms(1), of 65] by simp
  have d: "displays ?s tx" using assms(2) nv displays_mem [of "(mem s)(fp + 65 := c)" s tx] by fastforce
  have "\<exists>s'. libc_append fp (fp + 65) (of_nat 1) written ?s = retK (0, written + of_nat 1) s'
    \<and> displays s' (tx @ map (\<lambda>j. mem ?s (fp + 65 + of_nat j)) [0..<1]) \<and> put_frame fp ?s s'"
    using nv assms(3,4) by (intro libc_append_bytes [OF assms(1) d]) auto
  then obtain s' where s': "libc_append fp (fp + 65) 1 written ?s = retK (0, written + 1) s'"
    "displays s' (tx @ [c])" "put_frame fp ?s s'" by auto
  have "mem s' a = mem s a" if "safe fp a" for a
  proof -
    have "a \<noteq> fp + 65" using that by (auto simp: safe_def)
    with put_frame_safe [OF s'(3) that] show ?thesis by simp
  qed
  with s' show ?thesis by blast
qed

lemma turn_one_arg:
  assumes "frame_ok fp" and "displays s tx" and "text_safe fp (mem s) format fmt" and "args_safe fp (mem s) ap ws"
    and "render S fmt ws = Some out" and "8 \<notin> set out" and "unat written + length out \<le> 2147483647"
    and "fmt = 37 # d # f" and "d \<in> {99, 115, 100, 117, 120}" and "\<And>w cs. S w = Some cs \<Longrightarrow> text_safe fp (mem s) w cs"
  shows "turned S fp tx fmt out written s (vprintf_turn fp format ap written s)"
proof -
  have "text_safe fp (mem s) (format + 1) (d # f)" using assms(3,8) text_safe_Cons by blast
  then have h: "mem s format = 37" "mem s (format + 1) = d" "text_safe fp (mem s) (format + 1 + 1) f"
    using text_safe_Cons assms(3,8) by blast+
  obtain w ws' cs out' where w: "ws = w # ws'" "one_arg S d w = Some cs" "render S f ws' = Some out'" "out = cs @ out'"
    using render_one_arg [OF assms(9) assms(5) [unfolded assms(8)]] by blast
  have a: "load32 (mem s) ap = w" "args_safe fp (mem s) (ap + 4) ws'" using args_safe_Cons assms(4) w(1) by blast+
  have cs: "8 \<notin> set cs" "unat written + length cs \<le> 2147483647" using assms(6,7) w(4) by auto
  let ?k = "\<lambda>r s. retK (r, format + 1 + 1, ap + 4) s"
  have "\<exists>s'. vprintf_turn fp format ap written s = ?k (0, written + of_nat (length cs)) s'
      \<and> displays s' (tx @ cs) \<and> (\<forall>a. safe fp a \<longrightarrow> mem s' a = mem s a)"
  proof -
    consider "d = 99" "cs = [ucast w]" | "d = 115" "S w = Some cs"
      | "d = 100" "w \<noteq> INT_MIN" "cs = signed_text (sint w)"
      | "d = 117" "cs = digits 10 (unat w)" | "d = 120" "cs = digits 16 (unat w)"
      using assms(9) w(2) by (auto simp: one_arg_def split: if_splits)
    then show ?thesis
    proof cases
      case 1
      with char_output [OF assms(1,2), of "ucast w" written] cs show ?thesis
        by (auto simp: vprintf_turn_def Let_def h a va_arg32_def)
    next
      case 2
      from outputs_bind [OF append_string_text [OF assms(1,2) assms(10) [OF 2(2)] cs], of ?k] 2(1) show ?thesis
        by (simp add: vprintf_turn_def Let_def h a va_arg32_def)
    next
      case 3
      from number_writer.print_number [OF itoa_writer [OF 3(2)] assms(1,2), of written ?k] cs 3 show ?thesis
        by (simp add: vprintf_turn_def Let_def h a va_arg32_def)
    next
      case 4
      from utoa.print_number [OF assms(1,2), of written w ?k] cs 4 show ?thesis
        by (simp add: vprintf_turn_def Let_def h a va_arg32_def)
    next
      case 5
      from utoa_hex.print_number [OF assms(1,2), of written w ?k] cs 5 show ?thesis
        by (simp add: vprintf_turn_def Let_def h a va_arg32_def)
    qed
  qed
  then show ?thesis by (rule turnedI [OF _ w(4,3)]) (use h(3) a(2) in \<open>auto simp: assms(8)\<close>)
qed

lemma turn_wide:
  assumes "frame_ok fp" and "displays s tx" and "text_safe fp (mem s) format fmt" and "args_safe fp (mem s) ap ws"
    and "render S fmt ws = Some out" and "8 \<notin> set out" and "unat written + length out \<le> 2147483647"
    and "fmt = 37 # 108 # 108 # g"
  shows "turned S fp tx fmt out written s (vprintf_turn fp format ap written s)"
proof -
  have t1: "text_safe fp (mem s) (format + 1) (108 # 108 # g)" "mem s format = 37"
    using assms(3,8) text_safe_Cons by blast+
  have t2: "text_safe fp (mem s) (format + 1 + 1) (108 # g)" "mem s (format + 1) = 108"
    using t1 text_safe_Cons by blast+
  have t3: "text_safe fp (mem s) (format + 1 + 1 + 1) g" "mem s (format + 1 + 1) = 108"
    using t2 text_safe_Cons by blast+
  note turn = vprintf_turn_def Let_def and lls = t1(2) t2(2) t3(2)
  let ?d = "mem s (format + 1 + 1 + 1)" and ?n = "\<lambda>cs. (0, written + of_nat (length cs))"
  show ?thesis
  proof (cases "?d \<in> {117, 100}")
    case True
    then obtain h k where g: "g = h # k" using t3(1) text_safe_Nil [of fp "mem s"] by (cases g) auto
    then have h: "?d = h" "text_safe fp (mem s) (format + 1 + 1 + 1 + 1) k" using t3(1) text_safe_Cons by blast+
    obtain lo hi ws' out' where w: "ws = lo # hi # ws'" "render S k ws' = Some out'" "out = wide_arg h (arg64 lo hi) @ out'"
      using render_wide_arg [of h S k ws out] True h(1) assms(5,8) g by auto
    have "args_safe fp (mem s) (ap + 4) (hi # ws')" "load32 (mem s) ap = lo" using assms(4) w(1) args_safe_Cons by blast+
    then have a: "va_arg64 ap s = arg64 lo hi" "args_safe fp (mem s) (ap + 4 + 4) ws'"
      using args_safe_Cons [of fp "mem s" "ap + 4" hi ws'] by (auto simp: va_arg64_def arg64_def)
    let ?cs = "wide_arg h (arg64 lo hi)" and ?k = "\<lambda>r s. retK (r, format + 1 + 1 + 1 + 1, ap + 8) s"
    have len: "unat written + length ?cs \<le> 2147483647" using assms(7) w(3) by simp
    have "\<exists>s'. vprintf_turn fp format ap written s = ?k (?n ?cs) s'
        \<and> displays s' (tx @ ?cs) \<and> (\<forall>a. safe fp a \<longrightarrow> mem s' a = mem s a)"
    proof (cases "h = 117")
      case True
      with ulltoa.print_number [OF assms(1,2), of written "arg64 lo hi" ?k] len h(1) lls show ?thesis
        by (simp add: turn a(1) wide_arg_def)
    next
      case False
      with lltoa.print_number [OF assms(1,2), of written "arg64 lo hi" ?k] len h(1) lls \<open>?d \<in> {117, 100}\<close> show ?thesis
        by (simp add: turn a(1) wide_arg_def)
    qed
    then show ?thesis by (rule turnedI [OF _ w(3,2)]) (use h(2) a(2) g in \<open>auto simp: assms(8) add.assoc\<close>)
  next
    case False
    have r: "render S g ws = Some out"
      using assms(5,8) False t3(1) text_safe_Cons [of fp "mem s" _ "hd g" "tl g"] by (cases g) auto
    have "vprintf_turn fp format ap written s = retK (?n [], format + 1 + 1 + 1, ap) s"
      using False lls by (simp add: turn)
    with assms(2) have "\<exists>s'. vprintf_turn fp format ap written s = retK (?n [], format + 1 + 1 + 1, ap) s'
        \<and> displays s' (tx @ []) \<and> (\<forall>a. safe fp a \<longrightarrow> mem s' a = mem s a)" by simp
    then show ?thesis by (rule turnedI [OF _ _ r]) (use t3(1) assms(4) in \<open>auto simp: assms(8)\<close>)
  qed
qed

lemma turn_rest:
  assumes "frame_ok fp" and "displays s tx" and "text_safe fp (mem s) format fmt" and "args_safe fp (mem s) ap ws"
    and "8 \<notin> set fmt" and "unat written + length fmt \<le> 2147483647" and "fmt \<noteq> []"
    and "vprintf_turn fp format ap written s = bindK (append_string fp format written s) (\<lambda>r s.
      bindK (ofK (strlen (mem s) format) s) (\<lambda>n s. retK (r, format + n, ap) s))"
  shows "turned S fp tx fmt fmt written s (vprintf_turn fp format ap written s)"
proof -
  obtain s' where s': "append_string fp format written s = retK (0, written + of_nat (length fmt)) s'"
    "displays s' (tx @ fmt)" "\<forall>a. safe fp a \<longrightarrow> mem s' a = mem s a"
    using append_string_text [OF assms(1-3,5,6)] by (auto simp: outputs_def)
  then have "text_safe fp (mem s') format fmt" using assms(3) by (blast intro: text_safe_cong)
  then have "strlen (mem s') format = Some (of_nat (length fmt))" by (simp add: text_safe_def strlen_text)
  with s' have "\<exists>s'. vprintf_turn fp format ap written s = retK ((0, written + of_nat (length fmt)), format + of_nat (length fmt), ap) s'
      \<and> displays s' (tx @ fmt) \<and> (\<forall>a. safe fp a \<longrightarrow> mem s' a = mem s a)"
    unfolding assms(8) by (simp add: ofK_def)
  then show ?thesis
    by (rule turnedI [where out' = "[]" and fmt' = "[]"])
      (use assms(3,4,7) text_safe_append [of fp "mem s" format fmt "[]"] in auto)
qed

lemma vprintf_turn_rest:
  assumes "mem s format = 37" and "mem s (format + 1) \<notin> {37, 99, 115, 100, 117, 120}"
    and "mem s (format + 1) = 108 \<longrightarrow> mem s (format + 1 + 1) \<noteq> 108"
  shows "vprintf_turn fp format ap written s = bindK (append_string fp format written s) (\<lambda>r s.
      bindK (ofK (strlen (mem s) format) s) (\<lambda>n s. retK (r, format + n, ap) s))"
  using assms by (simp add: vprintf_turn_def Let_def)

lemma turn_correct:
  assumes "frame_ok fp" and "displays s tx" and "text_safe fp (mem s) format fmt" and "args_safe fp (mem s) ap ws"
    and "render S fmt ws = Some out" and "8 \<notin> set out" and "unat written + length out \<le> 2147483647"
    and "fmt \<noteq> []" and "\<And>w cs. S w = Some cs \<Longrightarrow> text_safe fp (mem s) w cs"
  shows "turned S fp tx fmt out written s (vprintf_turn fp format ap written s)"
proof -
  obtain c f where fmt: "fmt = c # f" using assms(8) by (cases fmt) auto
  then have h: "mem s format = c" "text_safe fp (mem s) (format + 1) f" using assms(3) text_safe_Cons by blast+
  note rest = turn_rest [OF assms(1-4) _ _ assms(8), of written S]
  consider "c \<noteq> 37 \<or> (\<exists>g. f = 37 # g)" | "c = 37" "f = []"
    | d g where "c = 37" "f = d # g" "d \<in> {99, 115, 100, 117, 120}"
    | g where "c = 37" "f = 108 # 108 # g"
    | d g where "c = 37" "f = d # g" "d \<notin> {37, 99, 115, 100, 117, 120}" "d = 108 \<longrightarrow> (\<forall>k. g \<noteq> 108 # k)"
    by (cases f) force+
  then show ?thesis
  proof cases
    case 1
    from turn_literal [OF assms(1-7) fmt 1] show ?thesis .
  next
    case 2
    then have "out = fmt" "mem s (format + 1) = 0" using assms(5) fmt h text_safe_Nil [of fp "mem s"] by auto
    with 2 rest assms(6,7) h(1) show ?thesis by (simp add: vprintf_turn_rest)
  next
    case 3
    with fmt have "fmt = 37 # d # g" by simp
    from turn_one_arg [OF assms(1-7) this 3(3) assms(9)] show ?thesis .
  next
    case 4
    with fmt have "fmt = 37 # 108 # 108 # g" by simp
    from turn_wide [OF assms(1-7) this] show ?thesis .
  next
    case 5
    have d: "mem s (format + 1) = d" "text_safe fp (mem s) (format + 1 + 1) g" using h(2) 5(2) text_safe_Cons by blast+
    have "mem s (format + 1 + 1) \<noteq> 108" if "d = 108"
      using d(2) 5(4) that text_safe_Nil [of fp "mem s"] text_safe_Cons [of fp "mem s" "format + 1 + 1"] by (cases g) auto
    moreover have "out = fmt"
    proof -
      have "render S fmt ws = Some fmt"
        using 5 by (cases g) (auto simp: fmt)
      with assms(5) show ?thesis by simp
    qed
    ultimately show ?thesis using rest assms(6,7) h(1) d(1) 5(1,3) by (simp add: vprintf_turn_rest)
  qed
qed

section \<open>The loop\<close>

lemma vprintf_loop_renders:
  assumes "frame_ok fp" and "displays s tx" and "text_safe fp (mem s) format fmt" and "args_safe fp (mem s) ap ws"
    and "render S fmt ws = Some out" and "8 \<notin> set out" and "unat written + length out \<le> 2147483647"
    and "\<And>w cs. S w = Some cs \<Longrightarrow> text_safe fp (mem s) w cs"
  shows "\<exists>s'. vprintf_loop fp format ap written s = retK (written + of_nat (length out)) s'
    \<and> displays s' (tx @ out) \<and> (\<forall>a. safe fp a \<longrightarrow> mem s' a = mem s a)"
  using assms
proof (induction "length fmt" arbitrary: fmt s tx format ap ws out written rule: less_induct)
  case less
  show ?case
  proof (cases "fmt = []")
    case True
    with less.prems have "mem s format = 0" "out = []" using text_safe_Nil by auto
    with less.prems(2) show ?thesis by (simp add: vprintf_loop.simps)
  next
    case False
    then have nz: "mem s format \<noteq> 0" using less.prems(3) text_safe_Cons [of fp "mem s" format] by (cases fmt) auto
    have "turned S fp tx fmt out written s (vprintf_turn fp format ap written s)"
      using less.prems False by (intro turn_correct [OF less.prems(1-7)]) auto
    then obtain cs out' fmt' ws' format' ap' s1 where
      t: "vprintf_turn fp format ap written s = retK ((0, written + of_nat (length cs)), format', ap') s1" "out = cs @ out'"
        "render S fmt' ws' = Some out'" "length fmt' < length fmt" "displays s1 (tx @ cs)"
        "\<And>a. safe fp a \<Longrightarrow> mem s1 a = mem s a" "text_safe fp (mem s) format' fmt'" "args_safe fp (mem s) ap' ws'"
      unfolding turned_def by blast
    have w: "unat (written + of_nat (length cs)) = unat written + length cs"
      using less.prems(7) t(2) unat_of_nat32 [of "length cs"] by (subst unat_add32) simp_all
    have "\<exists>s'. vprintf_loop fp format' ap' (written + of_nat (length cs)) s1 = retK (written + of_nat (length cs) + of_nat (length out')) s'
        \<and> displays s' ((tx @ cs) @ out') \<and> (\<forall>a. safe fp a \<longrightarrow> mem s' a = mem s1 a)"
    proof (rule less.hyps [OF t(4) less.prems(1) t(5) _ _ t(3)])
      show "text_safe fp (mem s1) format' fmt'" by (rule text_safe_cong [OF t(7,6)])
      show "args_safe fp (mem s1) ap' ws'" by (rule args_safe_cong [OF t(8,6)])
      show "text_safe fp (mem s1) p cs" if "S p = Some cs" for p cs by (rule text_safe_cong [OF less.prems(8) [OF that] t(6)])
    qed (use less.prems(6,7) t(2) w in auto)
    then show ?thesis
      using nz t(1,2,6) by (subst vprintf_loop.simps) (auto simp: add.assoc)
  qed
qed

text \<open>\<open>puts\<close> prints the string and a newline.\<close>

lemma puts_prints:
  assumes "frame_ok fp" and "displays s tx" and "m = store32 (mem s) arg string"
    and "\<And>k. k < 4 \<Longrightarrow> safe fp (arg + k)" and "text_safe fp m lit [37, 115, 10]" and "text_safe fp m string cs"
    and "8 \<notin> set cs" and "length cs < 2147483647"
  shows "\<exists>s'. puts fp lit arg string s = retK (of_nat (Suc (length cs))) s' \<and> displays s' (tx @ cs @ [10])
    \<and> (\<forall>a. safe fp a \<longrightarrow> mem s' a = m a)"
proof -
  have "m a = mem s a" if "vga_range a" for a
  proof -
    have "\<not> a - arg < 4" using assms(4) [of "a - arg"] that by (auto simp: safe_def)
    then show ?thesis by (simp add: assms(3) store32_other)
  qed
  then have d: "displays (s\<lparr>mem := m\<rparr>) tx" using displays_mem assms(2) by blast
  let ?S = "\<lambda>w. if w = string then Some cs else None"
  have "\<exists>s'. vprintf_loop fp lit arg 0 (s\<lparr>mem := m\<rparr>) = retK (0 + of_nat (length (cs @ [10]))) s'
      \<and> displays s' (tx @ cs @ [10]) \<and> (\<forall>a. safe fp a \<longrightarrow> mem s' a = mem (s\<lparr>mem := m\<rparr>) a)"
  proof (rule vprintf_loop_renders [OF assms(1) d])
    show "text_safe fp (mem (s\<lparr>mem := m\<rparr>)) lit [37, 115, 10]" using assms(5) by simp
    show "args_safe fp (mem (s\<lparr>mem := m\<rparr>)) arg [string]" using assms(3,4) by (simp add: args_safe_def)
    show "render ?S [37, 115, 10] [string] = Some (cs @ [10])" by (simp add: one_arg_def)
  qed (use assms(6-8) in \<open>auto split: if_splits\<close>)
  then show ?thesis by (simp add: puts_def printf_def vprintf_def assms(3))
qed

text \<open>C5: \<open>printf\<close>. For a format, argument words and strings in memory that the screen and the frame of the
  call do not overlap, \<open>vprintf\<close> ends, returns the number of bytes printed, and the screen that showed a
  text shows it with the rendering of the format appended; no other memory changes. The rendering must
  have no backspace and fit an \<open>int\<close>.\<close>

theorem vprintf_renders:
  assumes "frame_ok fp" and "displays s tx" and "text_safe fp (mem s) format fmt" and "args_safe fp (mem s) ap ws"
    and "\<forall>w cs. S w = Some cs \<longrightarrow> text_safe fp (mem s) w cs"
    and "render S fmt ws = Some out" and "8 \<notin> set out" and "length out \<le> 2147483647"
  shows "\<exists>s'. vprintf fp format ap s = retK (of_nat (length out)) s' \<and> displays s' (tx @ out)
    \<and> (\<forall>a. safe fp a \<longrightarrow> mem s' a = mem s a)"
  using vprintf_loop_renders [OF assms(1-4,6,7), of 0] assms(5,8) by (simp add: vprintf_def)

text \<open>Witness of C5: \<open>"%u%%"\<close> with the argument 42, in memory after each other.\<close>

theorem vprintf_renders_witness:
  "\<exists>s'. vprintf 0x8000 0x5000 0x5005 (fresh_tty [37, 117, 37, 37, 0, 42, 0, 0, 0] ()) = retK 3 s' \<and> displays s' [52, 50, 37]"
proof -
  let ?str = "[37, 117, 37, 37, 0, 42, 0, 0, 0] :: u8 list"
  let ?s = "fresh_tty ?str ()" and ?fp = "0x8000 :: u32"
  have nv: "\<not> vga_range a" if "a < 0x9000" for a using that by (simp add: vga_range_unat word_nat)
  have m: "mem ?s a = (if unat (a - 0x5000) < 9 then ?str ! unat (a - 0x5000) else 0)" if "a < 0x9000" for a
    using fresh_tty_mem [OF nv [OF that], of ?str "()"] by simp
  have sf: "safe ?fp a" if "a < 0x8000" for a
  proof -
    have "a < 0x9000" using that by (rule order_less_trans) simp
    moreover have "\<not> a - ?fp < 67" using diff_less_iff [of ?fp 67 a] that by (simp add: word_nat)
    ultimately show ?thesis by (simp add: safe_def nv)
  qed
  have "\<not> vga_range (?fp + k)" if "k < 67" for k
  proof (rule nv)
    have "unat k < 67" using that by (simp add: word_nat)
    then show "?fp + k < 0x9000" by (simp add: word_nat unat_word_ariths)
  qed
  then have fr: "frame_ok ?fp" by (simp add: frame_ok_def)
  have t: "text_safe ?fp (mem ?s) 0x5000 [37, 117, 37, 37]"
  proof -
    have "safe ?fp (0x5000 + of_nat i)" if "i \<le> 4" for i
      using that unat_of_nat32 [of i] by (intro sf) (simp add: word_nat unat_word_ariths)
    moreover have "mem ?s (0x5000 + of_nat i) = ?str ! i" if "i \<le> 4" for i
      using that unat_of_nat32 [of i] m [of "0x5000 + of_nat i"] by (simp add: word_nat unat_word_ariths)
    moreover from this [of 4] have "mem ?s 0x5004 = 0" by simp
    ultimately show ?thesis by (auto simp: text_safe_def text_at_def nth_Cons split: nat.splits)
  qed
  have a: "args_safe ?fp (mem ?s) 0x5005 [42]"
  proof -
    have "safe ?fp (0x5005 + k)" if "k < 4" for k
    proof (rule sf)
      have "unat k < 4" using that by (simp add: word_nat)
      then show "0x5005 + k < 0x8000" by (simp add: word_nat unat_word_ariths)
    qed
    then show ?thesis by (simp add: args_safe_def load32_def m)
  qed
  have "render (\<lambda>_. None) [37, 117, 37, 37] [42] = Some [52, 50, 37]"
    by (simp add: one_arg_def digits.simps dig_def)
  from vprintf_renders [OF fr fresh_tty_displays t a _ this] show ?thesis by auto
qed

end
