(* ===== verification/Debug_Log.thy ===== *)
theory Debug_Log
  imports Libc_Stdio
begin

text \<open>
  The callers of \<open>printf\<close> outside the C library: the debug logger and the heap dump of \<open>utils.c\<close> and the
  message of \<open>abort\<close> (\<open>libc/stdlib/abort.c\<close>). A call pushes its argument words at \<open>arg\<close>; the addresses of
  the string literals are arguments.
\<close>

section \<open>Calling printf\<close>

primrec store_words :: "memory \<Rightarrow> u32 \<Rightarrow> u32 list \<Rightarrow> memory" where
  "store_words m a [] = m"
| "store_words m a (w # ws) = store_words (store32 m a w) (a + 4) ws"

definition printf_call :: "u32 \<Rightarrow> u32 \<Rightarrow> u32 \<Rightarrow> u32 list \<Rightarrow> 'z tty_scheme \<Rightarrow> (u32, 'z tty_scheme) kres option" where
  "printf_call fp arg format ws s = printf fp format arg (s\<lparr>mem := store_words (mem s) arg ws\<rparr>)"

section \<open>Definitions\<close>

definition kernel_debug_logger ::
  "u32 \<Rightarrow> u32 \<Rightarrow> u32 \<Rightarrow> u32 \<Rightarrow> u32 \<Rightarrow> u32 \<Rightarrow> u32 \<Rightarrow> u32 \<Rightarrow> 'z tty_scheme \<Rightarrow> (unit, 'z tty_scheme) kres option" where
  "kernel_debug_logger fp arg lit_place lit_newline filename line format args s =
     bindK (printf_call fp arg lit_place [filename, line] s) (\<lambda>_ s.
     bindK (vprintf fp format args s) (\<lambda>_ s.
     bindK (printf_call fp arg lit_newline [] s) (\<lambda>_ s. retK () s)))"

text \<open>The literals of the heap dump.\<close>

record dump_literals =
  lit_logged :: u32
  lit_begin :: u32
  lit_block :: u32
  lit_FREE :: u32
  lit_USED :: u32
  lit_end :: u32

partial_function (option) log_heap_loop ::
  "u32 \<Rightarrow> u32 \<Rightarrow> dump_literals \<Rightarrow> u32 \<Rightarrow> u32 \<Rightarrow> 'z tty_scheme \<Rightarrow> (unit, 'z tty_scheme) kres option" where
  "log_heap_loop fp arg l i node s =
     (if \<not> blk_EOM (mem s) node then
        bindK (printf_call fp arg (lit_block l)
          [i, node, if blk_free (mem s) node then lit_FREE l else lit_USED l,
           internal_heap_block_get_available_space node (mem s)] s) (\<lambda>_ s.
        log_heap_loop fp arg l (i + 1) (blk_next (mem s) node) s)
      else retK () s)"

definition kernel_debug_log_heap_info ::
  "u32 \<Rightarrow> u32 \<Rightarrow> dump_literals \<Rightarrow> u32 \<Rightarrow> u32 \<Rightarrow> 'z tty_scheme \<Rightarrow> (unit, 'z tty_scheme) kres option" where
  "kernel_debug_log_heap_info fp arg l filename line s =
     bindK (printf_call fp arg (lit_logged l) [filename, line] s) (\<lambda>_ s.
     bindK (printf_call fp arg (lit_begin l) [] s) (\<lambda>_ s.
     bindK (log_heap_loop fp arg l 0 (heap_start s) s) (\<lambda>_ s.
     bindK (printf_call fp arg (lit_end l) [] s) (\<lambda>_ s. retK () s))))"

text \<open>The last loop of \<open>abort\<close>; \<open>hlt\<close> is what the processor does until an interrupt ends the instruction.\<close>

partial_function (option) halt_loop :: "('s \<Rightarrow> (unit, 's) kres option) \<Rightarrow> 's \<Rightarrow> (unit, 's) kres option" where
  "halt_loop hlt s = bindK (hlt s) (\<lambda>_ s. halt_loop hlt s)"

definition abort_halts ::
  "('z tty_scheme \<Rightarrow> (unit, 'z tty_scheme) kres option) \<Rightarrow> u32 \<Rightarrow> u32 \<Rightarrow> u32 \<Rightarrow> u32 \<Rightarrow> u32 \<Rightarrow> 'z tty_scheme \<Rightarrow> (unit, 'z tty_scheme) kres option" where
  "abort_halts hlt fp arg lit_panic_err lit_panic err s =
     bindK (if err \<noteq> NULL then printf_call fp arg lit_panic_err [err] s else printf_call fp arg lit_panic [] s)
       (\<lambda>_ s. let s = s\<lparr>irq_enabled := False\<rparr> in halt_loop hlt s)"

text \<open>What the compiler's stack check calls; \<open>msg\<close> is the address of the literal \<open>"stack guard fail"\<close>.\<close>

definition stack_chk_fail ::
  "('z tty_scheme \<Rightarrow> (unit, 'z tty_scheme) kres option) \<Rightarrow> u32 \<Rightarrow> u32 \<Rightarrow> u32 \<Rightarrow> u32 \<Rightarrow> u32 \<Rightarrow> 'z tty_scheme \<Rightarrow> (unit, 'z tty_scheme) kres option" where
  "stack_chk_fail hlt fp arg lit_panic_err lit_panic msg s = abort_halts hlt fp arg lit_panic_err lit_panic msg s"

section \<open>What a call prints\<close>

lemma store_words_other:
  "4 * length ws \<le> unat (x - a) \<Longrightarrow> store_words m a ws x = m x"
proof (induction ws arbitrary: m a)
  case (Cons w ws)
  then have x: "\<not> x - a < 4" "4 \<le> x - a" by (simp_all add: word_nat)
  then have "unat (x - (a + 4)) = unat (x - a) - 4" using unat_sub32 [of 4 "x - a"] by (simp add: diff_diff_eq)
  with Cons x show ?case by (simp add: store32_other)
qed simp

lemma store_words_load:
  assumes "i < length ws" and "length ws \<le> 1000"
  shows "load32 (store_words m a ws) (a + 4 * of_nat i) = ws ! i"
  using assms
proof (induction ws arbitrary: m a i)
  case (Cons w ws)
  show ?case
  proof (cases i)
    case 0
    have "store_words (store32 m a w) (a + 4) ws (a + k) = store32 m a w (a + k)" if "k < 4" for k
    proof (rule store_words_other)
      have "unat k < 4" using that by (simp add: word_nat)
      then have "unat (k - 4) = 4294967292 + unat k" by (simp add: unat_sub_if' word_nat)
      then show "4 * length ws \<le> unat (a + k - (a + 4))" using Cons.prems(2) by simp
    qed
    from this [of 0] this [of 1] this [of 2] this [of 3]
    have "load32 (store_words (store32 m a w) (a + 4) ws) a = load32 (store32 m a w) a"
      by (intro load32_cong) simp_all
    with 0 show ?thesis by simp
  next
    case (Suc j)
    have "a + 4 * of_nat (Suc j) = a + 4 + 4 * of_nat j" by (simp add: algebra_simps)
    with Suc Cons.IH [of j "store32 m a w" "a + 4"] Cons.prems show ?thesis by (simp add: algebra_simps)
  qed
qed simp

lemma printf_call_renders:
  assumes "frame_ok fp" and "displays s tx" and "m = store_words (mem s) arg ws" and "length ws \<le> 1000"
    and "\<And>k. unat k < 4 * length ws \<Longrightarrow> safe fp (arg + k)" and "text_safe fp m lit fmt"
    and "\<And>w cs. S w = Some cs \<Longrightarrow> text_safe fp m w cs"
    and "render S fmt ws = Some out" and "8 \<notin> set out" and "length out \<le> 2147483647"
  shows "\<exists>s'. printf_call fp arg lit ws s = retK (of_nat (length out)) s' \<and> displays s' (tx @ out)
    \<and> (\<forall>a. safe fp a \<longrightarrow> mem s' a = m a)"
proof -
  have "m a = mem s a" if "vga_range a" for a
  proof -
    have "\<not> unat (a - arg) < 4 * length ws" using assms(5) [of "a - arg"] that by (auto simp: safe_def)
    then show ?thesis by (simp add: assms(3) store_words_other)
  qed
  then have d: "displays (s\<lparr>mem := m\<rparr>) tx" using displays_mem assms(2) by blast
  have "args_safe fp m arg ws"
  proof -
    have "safe fp (arg + 4 * of_nat i + k)" if "i < length ws" "k < 4" for i k
    proof -
      have "unat k < 4" "unat (of_nat i :: u32) = i" using that assms(4) by (simp_all add: word_nat unat_of_nat32)
      then have "unat (4 * of_nat i + k) = 4 * i + unat k" using that(1) assms(4) by (simp add: unat_word_ariths)
      then have "safe fp (arg + (4 * of_nat i + k))" using that(1) \<open>unat k < 4\<close> by (intro assms(5)) simp
      then show ?thesis by (simp add: add.assoc)
    qed
    then show ?thesis using store_words_load assms(4) by (simp add: args_safe_def assms(3))
  qed
  then show ?thesis
    using vprintf_loop_renders [OF assms(1) d, of lit fmt arg ws S out 0] assms(3,6-10)
    by (simp add: printf_call_def printf_def vprintf_def)
qed

text \<open>The bytes of a literal.\<close>

definition bytes :: "string \<Rightarrow> u8 list" where
  "bytes str = map of_char str"

lemma displays_irq [simp]: "displays (s\<lparr>irq_enabled := b\<rparr>) tx \<longleftrightarrow> displays s tx"
  by (simp add: displays_def view_def cell_at_def split: prod.splits)

text \<open>A frame at \<open>0x8000\<close>, arguments at \<open>0x6000\<close> and strings from \<open>0x5000\<close> on, for the witnesses.\<close>

lemma fresh_frame: "frame_ok 0x8000"
proof -
  have "\<not> vga_range (0x8000 + k)" if "k < 67" for k
  proof -
    have "unat k < 67" using that by (simp add: word_nat)
    then show ?thesis by (simp add: vga_range_unat unat_word_ariths)
  qed
  then show ?thesis by (simp add: frame_ok_def)
qed

lemma fresh_safe: "unat a < 0x8000 \<Longrightarrow> safe 0x8000 a"
  using diff_less_iff [of "0x8000" 67 a] by (simp add: safe_def vga_range_unat)

lemma fresh_args: "n \<le> 100 \<Longrightarrow> unat k < 4 * n \<Longrightarrow> safe 0x8000 (0x6000 + k)"
  by (rule fresh_safe) (simp add: unat_word_ariths)

lemma fresh_text:
  assumes "length (pre @ cs @ 0 # post) \<le> 1000" and "0 \<notin> set cs" and "length ws \<le> 100"
  shows "text_safe 0x8000 (store_words (mem (fresh_tty (pre @ cs @ 0 # post) z)) 0x6000 ws) (0x5000 + of_nat (length pre)) cs"
proof -
  let ?str = "pre @ cs @ 0 # post"
  let ?m = "store_words (mem (fresh_tty ?str z)) 0x6000 ws"
  have u: "unat (0x5000 + of_nat j :: u32) = 0x5000 + j" if "j \<le> 1000" for j
    using that unat_of_nat32 [of j] by (simp add: unat_word_ariths)
  have m: "?m (0x5000 + of_nat (length pre) + of_nat i) = (cs @ [0]) ! i
      \<and> safe 0x8000 (0x5000 + of_nat (length pre) + of_nat i)" if "i \<le> length cs" for i
  proof -
    let ?j = "length pre + i" and ?a = "0x5000 + of_nat (length pre + i) :: u32"
    have j: "?j < length ?str" "?j \<le> 1000" using that assms(1) by simp_all
    have "?a - 0x6000 = of_nat ?j - 0x1000" by simp
    moreover have "unat (of_nat ?j - 0x1000 :: u32) = 4294963200 + ?j"
      using j(2) unat_of_nat32 [of ?j] by (simp add: unat_sub_if' word_nat)
    ultimately have "4 * length ws \<le> unat (?a - 0x6000)" using assms(3) by simp
    then have "?m ?a = mem (fresh_tty ?str z) ?a" by (rule store_words_other)
    also have "\<dots> = ?str ! ?j" using fresh_tty_string(2) [of ?j ?str z] j(1) assms(1) by simp
    also have "\<dots> = (cs @ [0]) ! i" using that by (simp add: nth_append)
    finally have "?m ?a = (cs @ [0]) ! i" .
    moreover have "safe 0x8000 ?a" using u [OF j(2)] j(2) by (intro fresh_safe) simp
    ultimately show ?thesis by (simp add: add.assoc)
  qed
  from m [of "length cs"] have "?m (0x5000 + of_nat (length pre) + of_nat (length cs)) = 0" by simp
  with m assms(1,2) show ?thesis by (auto simp: text_safe_def text_at_def nth_append)
qed

text \<open>The loop is not left: it comes to a result only if a \<open>hlt\<close> does not return.\<close>

lemma halt_loop_result:
  assumes "halt_loop hlt s = Some r"
  shows "(\<forall>x t. r \<noteq> Ret x t) \<and> (\<exists>t. \<forall>t'. hlt t \<noteq> retK () t')"
proof (rule halt_loop.raw_induct [where P = "\<lambda>hlt s r. (\<forall>x t. r \<noteq> Ret x t) \<and> (\<exists>t. \<forall>t'. hlt t \<noteq> retK () t')", OF _ assms])
  fix loop :: "('a \<Rightarrow> (unit, 'a) kres option) \<Rightarrow> 'a \<Rightarrow> (unit, 'a) kres option" and hlt s r
  assume IH: "\<And>hlt s r. loop hlt s = Some r \<Longrightarrow> (\<forall>x t. r \<noteq> Ret x t) \<and> (\<exists>t. \<forall>t'. hlt t \<noteq> retK () t')"
    and r: "bindK (hlt s) (\<lambda>_ s. loop hlt s) = Some r"
  show "(\<forall>x t. r \<noteq> Ret x t) \<and> (\<exists>t. \<forall>t'. hlt t \<noteq> retK () t')"
  proof (cases "\<exists>t. hlt s = retK () t")
    case True
    then obtain t where "hlt s = retK () t" by blast
    with r have "loop hlt t = Some r" by simp
    then show ?thesis by (rule IH)
  next
    case False
    then have "\<forall>x t. r \<noteq> Ret x t" using r by (auto simp: bindK_def retK_def split: option.splits kres.splits)
    with False show ?thesis by blast
  qed
qed

text \<open>\<open>stopped hlt r tx\<close>: the machine has come to the halting loop with interrupts off and the text \<open>tx\<close> on the screen, and stays in it.\<close>

definition stopped :: "('z tty_scheme \<Rightarrow> (unit, 'z tty_scheme) kres option) \<Rightarrow> (unit, 'z tty_scheme) kres option \<Rightarrow> u8 list \<Rightarrow> bool" where
  "stopped hlt r tx \<longleftrightarrow> (\<exists>s'. r = bindK (hlt s') (\<lambda>_ t. halt_loop hlt t) \<and> \<not> irq_enabled s' \<and> displays s' tx)
     \<and> (\<forall>x t. r \<noteq> retK x t) \<and> ((\<forall>t. \<exists>t'. hlt t = retK () t') \<longrightarrow> r = None)"

lemma halt_loop_stopped:
  assumes "\<not> irq_enabled s" and "displays s tx"
  shows "stopped hlt (halt_loop hlt s) tx"
proof -
  have "halt_loop hlt s \<noteq> retK x t" for x t using halt_loop_result [of hlt s] by (auto simp: retK_def)
  moreover have "halt_loop hlt s = None" if "\<forall>t. \<exists>t'. hlt t = retK () t'"
    using halt_loop_result [of hlt s] that by (cases "halt_loop hlt s") auto
  ultimately show ?thesis using assms halt_loop.simps [of hlt s] by (auto simp: stopped_def)
qed

lemma abort_halts_shows:
  assumes "frame_ok fp" and "displays s tx" and "err \<noteq> NULL" and "m = store_words (mem s) arg [err]"
    and "\<forall>k<4. safe fp (arg + k)" and "text_safe fp m lit (bytes ''kernel: panic: %s'' @ [10])"
    and "text_safe fp m err cs" and "8 \<notin> set cs" and "length cs \<le> 2147480000"
  shows "stopped hlt (abort_halts hlt fp arg lit lit_plain err s) (tx @ bytes ''kernel: panic: '' @ cs @ [10])"
proof -
  let ?S = "\<lambda>w. if w = err then Some cs else None" and ?out = "bytes ''kernel: panic: '' @ cs @ [10]"
  have "render ?S (bytes ''kernel: panic: %s'' @ [10]) [err] = Some ?out"
    by (simp add: bytes_def one_arg_def)
  moreover have "\<And>k. unat k < 4 * length [err] \<Longrightarrow> safe fp (arg + k)" using assms(5) by (simp add: word_nat)
  moreover have "8 \<notin> set ?out" "length ?out \<le> 2147483647" using assms(8,9) by (simp_all add: bytes_def)
  moreover have "\<And>w ds. ?S w = Some ds \<Longrightarrow> text_safe fp m w ds" using assms(7) by (simp split: if_splits)
  ultimately obtain s' where "printf_call fp arg lit [err] s = retK (of_nat (length ?out)) s'" "displays s' (tx @ ?out)"
    using printf_call_renders [OF assms(1,2,4) _ _ assms(6), of ?S ?out] by auto
  with assms(3) show ?thesis
    using halt_loop_stopped [of "s'\<lparr>irq_enabled := False\<rparr>" "tx @ ?out" hlt] by (simp add: abort_halts_def)
qed

text \<open>A smashed stack is reported.\<close>

lemma stack_chk_fail_shows:
  assumes "frame_ok fp" and "displays s tx" and "msg \<noteq> NULL" and "m = store_words (mem s) arg [msg]"
    and "\<forall>k<4. safe fp (arg + k)" and "text_safe fp m lit (bytes ''kernel: panic: %s'' @ [10])"
    and "text_safe fp m msg (bytes ''stack guard fail'')"
  shows "stopped hlt (stack_chk_fail hlt fp arg lit lit_plain msg s) (tx @ bytes ''kernel: panic: '' @ bytes ''stack guard fail'' @ [10])"
  unfolding stack_chk_fail_def by (rule abort_halts_shows [OF assms]) (simp_all add: bytes_def)

text \<open>C27: a panic is seen, and the machine stops. \<open>abort\<close> with a message prints \<open>kernel: panic: \<close>, the message and a newline after
  what the screen showed, turns interrupts off and executes \<open>hlt\<close> in that state; it never returns, and however often the
  processor is woken from \<open>hlt\<close> it goes back to it for ever.\<close>

theorem abort_shows_panic:
  assumes "frame_ok fp" and "displays s tx" and "err \<noteq> NULL" and "m = store_words (mem s) arg [err]"
    and "\<forall>k<4. safe fp (arg + k)" and "text_safe fp m lit (bytes ''kernel: panic: %s'' @ [10])"
    and "text_safe fp m err cs" and "8 \<notin> set cs" and "length cs \<le> 2147480000"
  shows "(\<exists>s'. abort_halts hlt fp arg lit lit_plain err s = bindK (hlt s') (\<lambda>_ t. halt_loop hlt t)
        \<and> \<not> irq_enabled s' \<and> displays s' (tx @ bytes ''kernel: panic: '' @ cs @ [10]))
    \<and> (\<forall>x t. abort_halts hlt fp arg lit lit_plain err s \<noteq> retK x t)
    \<and> ((\<forall>t. \<exists>t'. hlt t = retK () t') \<longrightarrow> abort_halts hlt fp arg lit lit_plain err s = None)"
  using abort_halts_shows [OF assms, of hlt lit_plain] by (simp add: stopped_def)

text \<open>Witness of C27: the message \<open>hi\<close>, with a processor that is woken after every \<open>hlt\<close>.\<close>

theorem abort_shows_panic_witness:
  "abort_halts (retK ()) 0x8000 0x6000 0x5003 0 0x5000 (fresh_tty ([104, 105, 0] @ bytes ''kernel: panic: %s'' @ [10, 0]) ()) = None
   \<and> (\<exists>s'. abort_halts (\<lambda>s. switchK s) 0x8000 0x6000 0x5003 0 0x5000 (fresh_tty ([104, 105, 0] @ bytes ''kernel: panic: %s'' @ [10, 0]) ()) = switchK s'
     \<and> displays s' (bytes ''kernel: panic: hi'' @ [10]))"
proof -
  let ?str = "[104, 105, 0] @ bytes ''kernel: panic: %s'' @ [10, 0]"
  have lit: "text_safe 0x8000 (store_words (mem (fresh_tty ?str ())) 0x6000 [0x5000]) 0x5003 (bytes ''kernel: panic: %s'' @ [10])"
    using fresh_text [of "[104, 105, 0]" "bytes ''kernel: panic: %s'' @ [10]" "[]" "[0x5000]" "()"] by (simp add: bytes_def)
  have err: "text_safe 0x8000 (store_words (mem (fresh_tty ?str ())) 0x6000 [0x5000]) 0x5000 [104, 105]"
    using fresh_text [of "[]" "[104, 105]" "bytes ''kernel: panic: %s'' @ [10, 0]" "[0x5000]" "()"] by (simp add: bytes_def)
  have "\<forall>k<4. safe 0x8000 (0x6000 + k)" using fresh_args [of 1] by (simp add: word_nat)
  note a = abort_shows_panic [OF fresh_frame fresh_tty_displays _ refl this lit err, where lit_plain = 0]
  from a [of "retK ()"] a [of switchK] show ?thesis by (auto simp: bytes_def)
qed

end
