(* ===== verification/Keyboard.thy ===== *)
theory Keyboard
  imports Debug_Log
begin

text \<open>
  The keyboard driver (\<open>interrupts/keyboard.c\<close>, \<open>keyboard.h\<close>): scan codes, the two layout tables, the
  modifier keys and the handler of IRQ 1. The keyboard controller is a device outside the program:
  reading its port is the argument \<open>inb\<close>. The build defines \<open>DEBUG\<close>, so the key \<open>]\<close> dumps the heap.
\<close>

section \<open>Definitions\<close>

abbreviation (input) KEYBOARD_KEY_UNKNOWN :: u32 where "KEYBOARD_KEY_UNKNOWN \<equiv> 0xFFFFFFFF"
abbreviation (input) KEYBOARD_KEY_ESC :: u32 where "KEYBOARD_KEY_ESC \<equiv> 0xFFFFFFFF - 1"
abbreviation (input) KEYBOARD_KEY_CTRL :: u32 where "KEYBOARD_KEY_CTRL \<equiv> 0xFFFFFFFF - 2"
abbreviation (input) KEYBOARD_KEY_LSHFT :: u32 where "KEYBOARD_KEY_LSHFT \<equiv> 0xFFFFFFFF - 3"
abbreviation (input) KEYBOARD_KEY_RSHFT :: u32 where "KEYBOARD_KEY_RSHFT \<equiv> 0xFFFFFFFF - 4"
abbreviation (input) KEYBOARD_KEY_ALT :: u32 where "KEYBOARD_KEY_ALT \<equiv> 0xFFFFFFFF - 5"
abbreviation (input) KEYBOARD_KEY_F1 :: u32 where "KEYBOARD_KEY_F1 \<equiv> 0xFFFFFFFF - 6"
abbreviation (input) KEYBOARD_KEY_F2 :: u32 where "KEYBOARD_KEY_F2 \<equiv> 0xFFFFFFFF - 7"
abbreviation (input) KEYBOARD_KEY_F3 :: u32 where "KEYBOARD_KEY_F3 \<equiv> 0xFFFFFFFF - 8"
abbreviation (input) KEYBOARD_KEY_F4 :: u32 where "KEYBOARD_KEY_F4 \<equiv> 0xFFFFFFFF - 9"
abbreviation (input) KEYBOARD_KEY_F5 :: u32 where "KEYBOARD_KEY_F5 \<equiv> 0xFFFFFFFF - 10"
abbreviation (input) KEYBOARD_KEY_F6 :: u32 where "KEYBOARD_KEY_F6 \<equiv> 0xFFFFFFFF - 11"
abbreviation (input) KEYBOARD_KEY_F7 :: u32 where "KEYBOARD_KEY_F7 \<equiv> 0xFFFFFFFF - 12"
abbreviation (input) KEYBOARD_KEY_F8 :: u32 where "KEYBOARD_KEY_F8 \<equiv> 0xFFFFFFFF - 13"
abbreviation (input) KEYBOARD_KEY_F9 :: u32 where "KEYBOARD_KEY_F9 \<equiv> 0xFFFFFFFF - 14"
abbreviation (input) KEYBOARD_KEY_F10 :: u32 where "KEYBOARD_KEY_F10 \<equiv> 0xFFFFFFFF - 15"
abbreviation (input) KEYBOARD_KEY_F11 :: u32 where "KEYBOARD_KEY_F11 \<equiv> 0xFFFFFFFF - 16"
abbreviation (input) KEYBOARD_KEY_F12 :: u32 where "KEYBOARD_KEY_F12 \<equiv> 0xFFFFFFFF - 17"
abbreviation (input) KEYBOARD_KEY_SCRLCK :: u32 where "KEYBOARD_KEY_SCRLCK \<equiv> 0xFFFFFFFF - 18"
abbreviation (input) KEYBOARD_KEY_HOME :: u32 where "KEYBOARD_KEY_HOME \<equiv> 0xFFFFFFFF - 19"
abbreviation (input) KEYBOARD_KEY_UP :: u32 where "KEYBOARD_KEY_UP \<equiv> 0xFFFFFFFF - 20"
abbreviation (input) KEYBOARD_KEY_LEFT :: u32 where "KEYBOARD_KEY_LEFT \<equiv> 0xFFFFFFFF - 21"
abbreviation (input) KEYBOARD_KEY_RIGHT :: u32 where "KEYBOARD_KEY_RIGHT \<equiv> 0xFFFFFFFF - 22"
abbreviation (input) KEYBOARD_KEY_DOWN :: u32 where "KEYBOARD_KEY_DOWN \<equiv> 0xFFFFFFFF - 23"
abbreviation (input) KEYBOARD_KEY_PGUP :: u32 where "KEYBOARD_KEY_PGUP \<equiv> 0xFFFFFFFF - 24"
abbreviation (input) KEYBOARD_KEY_PGDOWN :: u32 where "KEYBOARD_KEY_PGDOWN \<equiv> 0xFFFFFFFF - 25"
abbreviation (input) KEYBOARD_KEY_END :: u32 where "KEYBOARD_KEY_END \<equiv> 0xFFFFFFFF - 26"
abbreviation (input) KEYBOARD_KEY_INS :: u32 where "KEYBOARD_KEY_INS \<equiv> 0xFFFFFFFF - 27"
abbreviation (input) KEYBOARD_KEY_DEL :: u32 where "KEYBOARD_KEY_DEL \<equiv> 0xFFFFFFFF - 28"
abbreviation (input) KEYBOARD_KEY_CAPS :: u32 where "KEYBOARD_KEY_CAPS \<equiv> 0xFFFFFFFF - 29"
abbreviation (input) KEYBOARD_KEY_NONE :: u32 where "KEYBOARD_KEY_NONE \<equiv> 0xFFFFFFFF - 30"
abbreviation (input) KEYBOARD_KEY_ALTGR :: u32 where "KEYBOARD_KEY_ALTGR \<equiv> 0xFFFFFFFF - 31"
abbreviation (input) KEYBOARD_KEY_NUMLCK :: u32 where "KEYBOARD_KEY_NUMLCK \<equiv> 0xFFFFFFFF - 32"

text \<open>\<open>enum PS2ScancodeSet1\<close>: the names and values of the scan codes. A variable of this type holds an integer.\<close>

definition PS2ScancodeSet1 :: "(string \<times> u32) list" where
  "PS2ScancodeSet1 =
     [(''SC_ESC'', 0x01), (''SC_1'', 0x02), (''SC_2'', 0x03), (''SC_3'', 0x04), (''SC_4'', 0x05),
      (''SC_5'', 0x06), (''SC_6'', 0x07), (''SC_7'', 0x08), (''SC_8'', 0x09), (''SC_9'', 0x0A),
      (''SC_0'', 0x0B), (''SC_MINUS'', 0x0C), (''SC_EQUALS'', 0x0D), (''SC_BACKSPACE'', 0x0E),
      (''SC_TAB'', 0x0F), (''SC_Q'', 0x10), (''SC_W'', 0x11), (''SC_E'', 0x12), (''SC_R'', 0x13),
      (''SC_T'', 0x14), (''SC_Y'', 0x15), (''SC_U'', 0x16), (''SC_I'', 0x17), (''SC_O'', 0x18),
      (''SC_P'', 0x19), (''SC_LBRACKET'', 0x1A), (''SC_RBRACKET'', 0x1B), (''SC_ENTER'', 0x1C),
      (''SC_LCTRL'', 0x1D), (''SC_A'', 0x1E), (''SC_S'', 0x1F), (''SC_D'', 0x20), (''SC_F'', 0x21),
      (''SC_G'', 0x22), (''SC_H'', 0x23), (''SC_J'', 0x24), (''SC_K'', 0x25), (''SC_L'', 0x26),
      (''SC_SEMICOLON'', 0x27), (''SC_APOSTROPHE'', 0x28), (''SC_GRAVE'', 0x29), (''SC_LSHIFT'', 0x2A),
      (''SC_BACKSLASH'', 0x2B), (''SC_Z'', 0x2C), (''SC_X'', 0x2D), (''SC_C'', 0x2E), (''SC_V'', 0x2F),
      (''SC_B'', 0x30), (''SC_N'', 0x31), (''SC_M'', 0x32), (''SC_COMMA'', 0x33), (''SC_PERIOD'', 0x34),
      (''SC_SLASH'', 0x35), (''SC_RSHIFT'', 0x36), (''SC_KEYPAD_STAR'', 0x37), (''SC_LALT'', 0x38),
      (''SC_SPACE'', 0x39), (''SC_CAPS_LOCK'', 0x3A), (''SC_F1'', 0x3B), (''SC_F2'', 0x3C), (''SC_F3'', 0x3D),
      (''SC_F4'', 0x3E), (''SC_F5'', 0x3F), (''SC_F6'', 0x40), (''SC_F7'', 0x41), (''SC_F8'', 0x42),
      (''SC_F9'', 0x43), (''SC_F10'', 0x44), (''SC_NUM_LOCK'', 0x45), (''SC_SCROLL_LOCK'', 0x46),
      (''SC_KEYPAD_7'', 0x47), (''SC_KEYPAD_8'', 0x48), (''SC_KEYPAD_9'', 0x49), (''SC_KEYPAD_MINUS'', 0x4A),
      (''SC_KEYPAD_4'', 0x4B), (''SC_KEYPAD_5'', 0x4C), (''SC_KEYPAD_6'', 0x4D), (''SC_KEYPAD_PLUS'', 0x4E),
      (''SC_KEYPAD_1'', 0x4F), (''SC_KEYPAD_2'', 0x50), (''SC_KEYPAD_3'', 0x51), (''SC_KEYPAD_0'', 0x52),
      (''SC_KEYPAD_DOT'', 0x53), (''SC_F11'', 0x57), (''SC_F12'', 0x58)]"

abbreviation (input) SC_RBRACKET :: u32 where "SC_RBRACKET \<equiv> 0x1B"
abbreviation (input) SC_LCTRL :: u32 where "SC_LCTRL \<equiv> 0x1D"
abbreviation (input) SC_LSHIFT :: u32 where "SC_LSHIFT \<equiv> 0x2A"
abbreviation (input) SC_RSHIFT :: u32 where "SC_RSHIFT \<equiv> 0x36"
abbreviation (input) SC_LALT :: u32 where "SC_LALT \<equiv> 0x38"
abbreviation (input) PC_AC_KEYBOARD_CONTROLLER_PORT :: u16 where "PC_AC_KEYBOARD_CONTROLLER_PORT \<equiv> 0x60"

text \<open>The layout tables, indexed by scan code. \<open>keys\<close> are the codes of a row of characters.\<close>

abbreviation (input) keys :: "string \<Rightarrow> u32 list" where "keys row \<equiv> map of_char row"

definition lowercase :: "u32 list" where
  "lowercase =
     [KEYBOARD_KEY_UNKNOWN, KEYBOARD_KEY_ESC] @ keys ''1234567890-='' @ [8, 9] @ keys ''qwertyuiop[]'' @
     [10, KEYBOARD_KEY_CTRL] @ keys ''asdfghjkl;'' @ [39, 96, KEYBOARD_KEY_LSHFT, 92] @ keys ''zxcvbnm,./'' @
     [KEYBOARD_KEY_RSHFT] @ keys ''*'' @ [KEYBOARD_KEY_ALT] @ keys '' '' @ [KEYBOARD_KEY_CAPS,
      KEYBOARD_KEY_F1, KEYBOARD_KEY_F2, KEYBOARD_KEY_F3, KEYBOARD_KEY_F4, KEYBOARD_KEY_F5,
      KEYBOARD_KEY_F6, KEYBOARD_KEY_F7, KEYBOARD_KEY_F8, KEYBOARD_KEY_F9, KEYBOARD_KEY_F10,
      KEYBOARD_KEY_NUMLCK, KEYBOARD_KEY_SCRLCK, KEYBOARD_KEY_HOME, KEYBOARD_KEY_UP, KEYBOARD_KEY_PGUP] @
     keys ''-'' @ [KEYBOARD_KEY_LEFT, KEYBOARD_KEY_UNKNOWN, KEYBOARD_KEY_RIGHT] @ keys ''+'' @
     [KEYBOARD_KEY_END, KEYBOARD_KEY_DOWN, KEYBOARD_KEY_PGDOWN, KEYBOARD_KEY_INS, KEYBOARD_KEY_DEL,
      KEYBOARD_KEY_UNKNOWN, KEYBOARD_KEY_UNKNOWN, KEYBOARD_KEY_UNKNOWN, KEYBOARD_KEY_F11, KEYBOARD_KEY_F12] @
     replicate 39 KEYBOARD_KEY_UNKNOWN"

definition uppercase :: "u32 list" where
  "uppercase =
     [KEYBOARD_KEY_UNKNOWN, KEYBOARD_KEY_ESC] @ keys ''!@#$%^&*()_+'' @ [8, 9] @ keys ''QWERTYUIOP{}'' @
     [10, KEYBOARD_KEY_CTRL] @ keys ''ASDFGHJKL:'' @ [34, 126, KEYBOARD_KEY_LSHFT, 124] @ keys ''ZXCVBNM<>?'' @
     [KEYBOARD_KEY_RSHFT] @ keys ''*'' @ [KEYBOARD_KEY_ALT] @ keys '' '' @ [KEYBOARD_KEY_CAPS,
      KEYBOARD_KEY_F1, KEYBOARD_KEY_F2, KEYBOARD_KEY_F3, KEYBOARD_KEY_F4, KEYBOARD_KEY_F5,
      KEYBOARD_KEY_F6, KEYBOARD_KEY_F7, KEYBOARD_KEY_F8, KEYBOARD_KEY_F9, KEYBOARD_KEY_F10,
      KEYBOARD_KEY_NUMLCK, KEYBOARD_KEY_SCRLCK, KEYBOARD_KEY_HOME, KEYBOARD_KEY_UP, KEYBOARD_KEY_PGUP] @
     keys ''-'' @ [KEYBOARD_KEY_LEFT, KEYBOARD_KEY_UNKNOWN, KEYBOARD_KEY_RIGHT] @ keys ''+'' @
     [KEYBOARD_KEY_END, KEYBOARD_KEY_DOWN, KEYBOARD_KEY_PGDOWN, KEYBOARD_KEY_INS, KEYBOARD_KEY_DEL,
      KEYBOARD_KEY_UNKNOWN, KEYBOARD_KEY_UNKNOWN, KEYBOARD_KEY_UNKNOWN, KEYBOARD_KEY_F11, KEYBOARD_KEY_F12] @
     replicate 39 KEYBOARD_KEY_UNKNOWN"

record keyboard = tty +
  CTRL_pressed :: bool
  SHIFT_pressed :: bool
  ALT_pressed :: bool

text \<open>Whether the kernel is built with \<open>DEBUG\<close>, and the addresses the driver's calls of \<open>printf\<close> use: the
  frame, the argument words and the literals.\<close>

record kbd_layout =
  k_debug :: bool
  k_fp :: u32
  k_arg :: u32
  k_lit_c :: u32
  k_file :: u32
  k_dump :: dump_literals

definition keyboard_init :: "u32 \<Rightarrow> 'z keyboard_scheme \<Rightarrow> 'z keyboard_scheme" where
  "keyboard_init irq_1_handler_addr s =
     (let s = s\<lparr>CTRL_pressed := False, SHIFT_pressed := False, ALT_pressed := False\<rparr>
      in irq_install_handler 1 irq_1_handler_addr s)"

definition update_modifier_keys_state :: "u32 \<Rightarrow> bool \<Rightarrow> 'z keyboard_scheme \<Rightarrow> bool \<times> 'z keyboard_scheme" where
  "update_modifier_keys_state scancode press s =
     (if scancode = SC_LCTRL then (True, s\<lparr>CTRL_pressed := \<not> press\<rparr>)
      else if scancode = SC_LSHIFT \<or> scancode = SC_RSHIFT then (True, s\<lparr>SHIFT_pressed := \<not> press\<rparr>)
      else if scancode = SC_LALT then (True, s\<lparr>ALT_pressed := \<not> press\<rparr>)
      else (False, s))"

definition log_key_press :: "kbd_layout \<Rightarrow> u32 \<Rightarrow> 'z keyboard_scheme \<Rightarrow> (unit, 'z keyboard_scheme) kres option" where
  "log_key_press l scancode s =
     (if SHIFT_pressed s
      then bindK (printf_call (k_fp l) (k_arg l) (k_lit_c l) [uppercase ! unat scancode] s) (\<lambda>_ s. retK () s)
      else if k_debug l \<and> scancode = SC_RBRACKET
      then kernel_debug_log_heap_info (k_fp l) (k_arg l) (k_dump l) (k_file l) 332 s
      else bindK (printf_call (k_fp l) (k_arg l) (k_lit_c l) [lowercase ! unat scancode] s) (\<lambda>_ s. retK () s))"

definition irq_1_handler ::
  "kbd_layout \<Rightarrow> (u16 \<Rightarrow> 'z keyboard_scheme \<Rightarrow> u8 \<times> 'z keyboard_scheme) \<Rightarrow> Registers \<Rightarrow> 'z keyboard_scheme
   \<Rightarrow> (unit, 'z keyboard_scheme) kres option" where
  "irq_1_handler l inb regs s =
     (let (b, s) = inb PC_AC_KEYBOARD_CONTROLLER_PORT s;
          scancode = ucast (b AND 0x7F);
          (b, s) = inb PC_AC_KEYBOARD_CONTROLLER_PORT s;
          press = (b AND 0x80 \<noteq> 0);
          (is_modifier, s) = update_modifier_keys_state scancode press s
      in if \<not> is_modifier then log_key_press l scancode s else retK () s)"

section \<open>Properties\<close>

text \<open>The names of the scan codes agree with the tables: for every scan code named after one character the tables hold this
  character, a letter in capitals with shift and small without, a digit without shift.\<close>

definition names_key :: "string \<times> u32 \<Rightarrow> bool" where
  "names_key e = (case fst e of
       [_, _, _, c] \<Rightarrow>
         if (65 :: nat) \<le> of_char c
         then uppercase ! unat (snd e) = of_char c \<and> lowercase ! unat (snd e) = of_char c + 32
         else lowercase ! unat (snd e) = of_char c
     | _ \<Rightarrow> True)"

lemma scan_codes_named: "list_all names_key PS2ScancodeSet1"
  by (simp add: PS2ScancodeSet1_def names_key_def lowercase_def uppercase_def)

text \<open>The modifier keys. The interrupt of a shift, control or alt key changes nothing but the key's
  flag, which is set by the make code and cleared by the break code.\<close>

theorem modifier_keys:
  assumes "\<forall>t. inb 0x60 t = (b, t)"
  shows "(b AND 0x7F = 0x2A \<or> b AND 0x7F = 0x36 \<longrightarrow>
      irq_1_handler l inb regs s = retK () (s\<lparr>SHIFT_pressed := (b AND 0x80 = 0)\<rparr>))
    \<and> (b AND 0x7F = 0x1D \<longrightarrow> irq_1_handler l inb regs s = retK () (s\<lparr>CTRL_pressed := (b AND 0x80 = 0)\<rparr>))
    \<and> (b AND 0x7F = 0x38 \<longrightarrow> irq_1_handler l inb regs s = retK () (s\<lparr>ALT_pressed := (b AND 0x80 = 0)\<rparr>))"
  using assms by (auto simp: irq_1_handler_def update_modifier_keys_state_def)

text \<open>A keyboard with its handler installed, for the witnesses: the literal \<open>"%c"\<close> is at \<open>0x5000\<close>.\<close>

definition example_layout :: kbd_layout where
  "example_layout = \<lparr>k_debug = True, k_fp = 0x8000, k_arg = 0x6000, k_lit_c = 0x5000, k_file = 0,
     k_dump = \<lparr>lit_logged = 0, lit_begin = 0, lit_block = 0, lit_FREE = 0, lit_USED = 0, lit_end = 0\<rparr>\<rparr>"

definition example_keyboard :: "keyboard" where
  "example_keyboard = keyboard_init 0xC0107000 (fresh_tty [37, 99, 0] \<lparr>CTRL_pressed = False, SHIFT_pressed = True, ALT_pressed = False\<rparr>)"

text \<open>The break code of the left shift key.\<close>

theorem modifier_keys_witness:
  "irq_1_handler example_layout (\<lambda>_ t. (0xAA, t)) \<lparr>int_no = 33, err_code = 0\<rparr> (example_keyboard\<lparr>SHIFT_pressed := True\<rparr>)
     = retK () (example_keyboard\<lparr>SHIFT_pressed := False\<rparr>)"
  using modifier_keys [of "\<lambda>_ t. (0xAA, t)" "0xAA" example_layout "\<lparr>int_no = 33, err_code = 0\<rparr>" "example_keyboard\<lparr>SHIFT_pressed := True\<rparr>"]
  by simp

lemma displays_outb [simp]: "displays (outb port v s) tx \<longleftrightarrow> displays s tx"
  by (simp add: outb_def displays_def view_def cell_at_def split: prod.splits)

lemma log_key_press_types:
  assumes "frame_ok (k_fp l)" and "displays s tx" and "SHIFT_pressed s \<or> \<not> k_debug l \<or> k \<noteq> SC_RBRACKET"
    and "v = (if SHIFT_pressed s then uppercase else lowercase) ! unat k" and "ucast v \<noteq> (8 :: u8)"
    and "\<forall>j<4. safe (k_fp l) (k_arg l + j)"
    and "text_safe (k_fp l) (store_words (mem s) (k_arg l) [v]) (k_lit_c l) [37, 99]"
  shows "\<exists>s'. log_key_press l k s = retK () s' \<and> displays s' (tx @ [ucast v])
    \<and> (\<forall>a. safe (k_fp l) a \<and> \<not> a - k_arg l < 4 \<longrightarrow> mem s' a = mem s a)"
proof -
  have "\<And>j. unat j < 4 * length [v] \<Longrightarrow> safe (k_fp l) (k_arg l + j)" using assms(6) by (simp add: word_nat)
  moreover have "render (\<lambda>_. None) [37, 99] [v] = Some [ucast v]" by (simp add: one_arg_def)
  ultimately have "\<exists>s'. printf_call (k_fp l) (k_arg l) (k_lit_c l) [v] s = retK (of_nat (length [ucast v :: u8])) s'
      \<and> displays s' (tx @ [ucast v]) \<and> (\<forall>a. safe (k_fp l) a \<longrightarrow> mem s' a = store_words (mem s) (k_arg l) [v] a)"
    using printf_call_renders [OF assms(1,2) refl _ _ assms(7), of "\<lambda>_. None" "[ucast v]"] assms(5) by simp
  then obtain s' where s': "printf_call (k_fp l) (k_arg l) (k_lit_c l) [v] s = retK (of_nat (length [ucast v :: u8])) s'"
      "displays s' (tx @ [ucast v])" "\<forall>a. safe (k_fp l) a \<longrightarrow> mem s' a = store_words (mem s) (k_arg l) [v] a" by blast
  have "log_key_press l k s = retK () s'" using s'(1) assms(3,4) by (auto simp: log_key_press_def)
  with s'(2,3) show ?thesis by (intro exI [of _ s']) (simp add: store32_other)
qed

text \<open>Typing. When IRQ 1 arrives with a key that is neither a modifier, backspace nor, in a debug build, the unshifted \<open>]\<close>,
  the installed handler prints the key's entry of the layout table that the shift key selects after what the screen showed,
  and the interrupt is acknowledged. No memory changes but the screen, the frame of \<open>printf\<close> and its argument.\<close>

lemma irq_1_types:
  assumes "irq_routines s 1 = h" and "h \<noteq> NULL" and "call h = irq_1_handler l inb" and "\<forall>t. inb 0x60 t = (b, t)"
    and "k = (ucast (b AND 0x7F) :: u32)" and "k \<noteq> 0x1D" and "k \<noteq> 0x2A" and "k \<noteq> 0x36" and "k \<noteq> 0x38"
    and "SHIFT_pressed s \<or> \<not> k_debug l \<or> k \<noteq> 0x1B" and "v = (if SHIFT_pressed s then uppercase else lowercase) ! unat k"
    and "ucast v \<noteq> (8 :: u8)" and "frame_ok (k_fp l)" and "displays s tx" and "\<forall>j<4. safe (k_fp l) (k_arg l + j)"
    and "text_safe (k_fp l) (store_words (mem s) (k_arg l) [v]) (k_lit_c l) [37, 99]"
  shows "\<exists>s'. irq_handler call \<lparr>int_no = 33, err_code = e\<rparr> s = retK () s' \<and> displays s' (tx @ [ucast v])
    \<and> hd (port_log s') = (0x20, 0x20) \<and> (\<forall>a. safe (k_fp l) a \<and> \<not> a - k_arg l < 4 \<longrightarrow> mem s' a = mem s a)"
proof -
  obtain s1 where s1: "log_key_press l k s = retK () s1" "displays s1 (tx @ [ucast v])"
      "\<forall>a. safe (k_fp l) a \<and> \<not> a - k_arg l < 4 \<longrightarrow> mem s1 a = mem s a"
    using log_key_press_types [OF assms(13,14,10-12,15,16)] by blast
  have "irq_1_handler l inb \<lparr>int_no = 33, err_code = e\<rparr> s = log_key_press l k s"
    using assms(4-9) by (simp add: irq_1_handler_def update_modifier_keys_state_def)
  moreover have "mem (outb p x s1) = mem s1" for p x by (simp add: outb_def)
  ultimately show ?thesis using s1 assms(1-3) by (simp add: irq_handler_def Let_def)
qed

end
