(* ===== verification/Gdt.thy ===== *)
theory Gdt
  imports Keyboard
begin

text \<open>
  The global descriptor table and the task state segment (\<open>gdt/gdt.c\<close>, \<open>gdt.h\<close>, \<open>gdt_flush.S\<close>,
  \<open>tss_flush.S\<close>). The processor's segment registers are fields of the state. The addresses of the two
  tables are arguments. The field \<open>esp0\<close> of the task state segment is \<open>tss_esp0\<close> of the scheduler's state,
  because task switches write it.
\<close>

section \<open>Definitions\<close>

datatype GdtSegmentType = GDT_SEGMENT_NULL | GDT_SEGMENT_KCODE | GDT_SEGMENT_KDATA | GDT_SEGMENT_UCODE
  | GDT_SEGMENT_UDATA | GDT_SEGMENT_TSS | GDT_SEGMENT_COUNT

primrec segment_num :: "GdtSegmentType \<Rightarrow> u32" where
  "segment_num GDT_SEGMENT_NULL = 0"
| "segment_num GDT_SEGMENT_KCODE = 1"
| "segment_num GDT_SEGMENT_KDATA = 2"
| "segment_num GDT_SEGMENT_UCODE = 3"
| "segment_num GDT_SEGMENT_UDATA = 4"
| "segment_num GDT_SEGMENT_TSS = 5"
| "segment_num GDT_SEGMENT_COUNT = 6"

abbreviation (input) GDT_ACCESS_KCODE :: u8 where "GDT_ACCESS_KCODE \<equiv> 0x9A"
abbreviation (input) GDT_ACCESS_KDATA :: u8 where "GDT_ACCESS_KDATA \<equiv> 0x92"
abbreviation (input) GDT_ACCESS_UCODE :: u8 where "GDT_ACCESS_UCODE \<equiv> 0xFA"
abbreviation (input) GDT_ACCESS_UDATA :: u8 where "GDT_ACCESS_UDATA \<equiv> 0xF2"
abbreviation (input) GDT_FLAGS_MAX_4G :: u8 where "GDT_FLAGS_MAX_4G \<equiv> 0xCF"
abbreviation (input) GDT_SEL_KDATA :: u16 where "GDT_SEL_KDATA \<equiv> 0x10"
abbreviation (input) RPL_USER_RING3 :: u16 where "RPL_USER_RING3 \<equiv> 0x3"

record GdtEntry =
  ge_limit :: u16
  ge_base_low :: u16
  ge_base_middle :: u8
  ge_access :: u8
  ge_flags :: u8
  ge_base_high :: u8

record GdtRegister =
  gdtr_limit :: u16
  gdtr_base :: u32

record TssEntry =
  tss_prev_tss :: u32
  tss_ss0 :: u32
  tss_esp1 :: u32
  tss_ss1 :: u32
  tss_esp2 :: u32
  tss_ss2 :: u32
  tss_cr3 :: u32
  tss_eip :: u32
  tss_eflags :: u32
  tss_eax :: u32
  tss_ecx :: u32
  tss_edx :: u32
  tss_ebx :: u32
  tss_esp :: u32
  tss_ebp :: u32
  tss_esi :: u32
  tss_edi :: u32
  tss_es :: u32
  tss_cs :: u32
  tss_ss :: u32
  tss_ds :: u32
  tss_fs :: u32
  tss_gs :: u32
  tss_ldt :: u32
  tss_trap :: u32
  tss_iomap_base :: u32

record machine = keyboard +
  gdt_entries :: "u32 \<Rightarrow> GdtEntry"
  gdt_ptr :: GdtRegister
  tss_entry :: TssEntry
  gdtr :: GdtRegister
  cs_reg :: u16
  ds_reg :: u16
  es_reg :: u16
  fs_reg :: u16
  gs_reg :: u16
  ss_reg :: u16
  task_reg :: u16

text \<open>The descriptor that \<open>gdt_gate_set\<close> writes, field by field.\<close>

definition gdt_gate :: "u32 \<Rightarrow> u32 \<Rightarrow> u8 \<Rightarrow> u8 \<Rightarrow> GdtEntry" where
  "gdt_gate base limit access gran = \<lparr>
     ge_limit = ucast (limit AND 0xFFFF),
     ge_base_low = ucast (base AND 0xFFFF),
     ge_base_middle = ucast (drop_bit 16 base AND 0xFF),
     ge_access = access,
     ge_flags = ucast (drop_bit 16 limit AND 0x0F) OR (gran AND 0xF0),
     ge_base_high = ucast (drop_bit 24 base AND 0xFF)\<rparr>"

definition gdt_gate_set :: "u32 \<Rightarrow> u32 \<Rightarrow> u32 \<Rightarrow> u8 \<Rightarrow> u8 \<Rightarrow> 'z machine_scheme \<Rightarrow> 'z machine_scheme" where
  "gdt_gate_set num base limit access gran s =
     s\<lparr>gdt_entries := (gdt_entries s)(num := gdt_gate base limit access gran)\<rparr>"

text \<open>\<open>memset\<close> of the whole task state segment with 0.\<close>

definition zero_tss :: TssEntry where
  "zero_tss = \<lparr>tss_prev_tss = 0, tss_ss0 = 0, tss_esp1 = 0, tss_ss1 = 0, tss_esp2 = 0, tss_ss2 = 0,
     tss_cr3 = 0, tss_eip = 0, tss_eflags = 0, tss_eax = 0, tss_ecx = 0, tss_edx = 0, tss_ebx = 0,
     tss_esp = 0, tss_ebp = 0, tss_esi = 0, tss_edi = 0, tss_es = 0, tss_cs = 0, tss_ss = 0, tss_ds = 0,
     tss_fs = 0, tss_gs = 0, tss_ldt = 0, tss_trap = 0, tss_iomap_base = 0\<rparr>"

definition tss_write :: "u32 \<Rightarrow> u32 \<Rightarrow> u16 \<Rightarrow> u32 \<Rightarrow> 'z machine_scheme \<Rightarrow> 'z machine_scheme" where
  "tss_write tss_addr num stack_seg stack s =
     (let base = tss_addr;
          limit = 27 * 4 - 1;
          s = gdt_gate_set num base limit 0xE9 0x0 s;
          s = s\<lparr>tss_entry := zero_tss, tss_esp0 := 0\<rparr>;
          s = s\<lparr>tss_entry := (tss_entry s)\<lparr>tss_ss0 := ucast stack_seg\<rparr>, tss_esp0 := stack\<rparr>;
          data_sel = ucast (GDT_SEL_KDATA OR RPL_USER_RING3)
      in s\<lparr>tss_entry := (tss_entry s)\<lparr>tss_cs := ucast (GDT_OFFSET_KERNEL_CODE OR RPL_USER_RING3),
           tss_gs := data_sel, tss_fs := data_sel, tss_es := data_sel, tss_ds := data_sel, tss_ss := data_sel\<rparr>\<rparr>)"

text \<open>\<open>_gdt_flush\<close> loads the register from the given place, here the contents of \<open>gdt_ptr\<close>, and reloads the
  segment registers. \<open>ltr\<close> marks the descriptor of the loaded task state segment busy.\<close>

definition gdt_flush :: "GdtRegister \<Rightarrow> 'z machine_scheme \<Rightarrow> 'z machine_scheme" where
  "gdt_flush r s = s\<lparr>gdtr := r, ds_reg := 0x10, es_reg := 0x10, fs_reg := 0x10, gs_reg := 0x10, ss_reg := 0x10,
     cs_reg := 0x08\<rparr>"

definition tss_flush :: "'z machine_scheme \<Rightarrow> 'z machine_scheme" where
  "tss_flush s =
     (let s = s\<lparr>task_reg := 0x2B\<rparr>; num = ucast (drop_bit 3 (task_reg s))
      in s\<lparr>gdt_entries := (gdt_entries s)(num := (gdt_entries s num)\<lparr>ge_access := ge_access (gdt_entries s num) OR 2\<rparr>)\<rparr>)"

definition gdt_init :: "u32 \<Rightarrow> u32 \<Rightarrow> 'z machine_scheme \<Rightarrow> 'z machine_scheme" where
  "gdt_init gdt_addr tss_addr s =
     (let s = s\<lparr>gdt_ptr := \<lparr>gdtr_limit = ucast (segment_num GDT_SEGMENT_COUNT * 8 - 1), gdtr_base = gdt_addr\<rparr>\<rparr>;
          s = gdt_gate_set (segment_num GDT_SEGMENT_NULL) 0 0 0 0 s;
          s = gdt_gate_set (segment_num GDT_SEGMENT_KCODE) 0 0xFFFFFFFF GDT_ACCESS_KCODE GDT_FLAGS_MAX_4G s;
          s = gdt_gate_set (segment_num GDT_SEGMENT_KDATA) 0 0xFFFFFFFF GDT_ACCESS_KDATA GDT_FLAGS_MAX_4G s;
          s = gdt_gate_set (segment_num GDT_SEGMENT_UCODE) 0 0xFFFFFFFF GDT_ACCESS_UCODE GDT_FLAGS_MAX_4G s;
          s = gdt_gate_set (segment_num GDT_SEGMENT_UDATA) 0 0xFFFFFFFF GDT_ACCESS_UDATA GDT_FLAGS_MAX_4G s;
          s = tss_write tss_addr (segment_num GDT_SEGMENT_TSS) GDT_SEL_KDATA 0x0 s;
          s = gdt_flush (gdt_ptr s) s
      in tss_flush s)"

section \<open>How the processor reads a descriptor\<close>

definition seg_base :: "GdtEntry \<Rightarrow> u32" where
  "seg_base e = ucast (ge_base_low e) OR push_bit 16 (ucast (ge_base_middle e)) OR push_bit 24 (ucast (ge_base_high e))"

text \<open>The last valid offset: the 20-bit limit, in bytes or in pages of 4 KB.\<close>

definition seg_last :: "GdtEntry \<Rightarrow> u32" where
  "seg_last e =
     (let lim = ucast (ge_limit e) OR push_bit 16 (ucast (ge_flags e AND 0x0F))
      in if bit (ge_flags e) 7 then push_bit 12 lim OR 0xFFF else lim)"

definition seg_present :: "GdtEntry \<Rightarrow> bool" where
  "seg_present e \<longleftrightarrow> bit (ge_access e) 7"

definition seg_dpl :: "GdtEntry \<Rightarrow> u8" where
  "seg_dpl e = drop_bit 5 (ge_access e) AND 3"

text \<open>Code or data (not a system descriptor), and which of them; a system descriptor has a type.\<close>

definition seg_normal :: "GdtEntry \<Rightarrow> bool" where
  "seg_normal e \<longleftrightarrow> bit (ge_access e) 4"

definition seg_code :: "GdtEntry \<Rightarrow> bool" where
  "seg_code e \<longleftrightarrow> bit (ge_access e) 3"

definition sys_type :: "GdtEntry \<Rightarrow> u8" where
  "sys_type e = ge_access e AND 0x0F"

text \<open>The descriptor a selector in a segment register stands for.\<close>

definition selected :: "'z machine_scheme \<Rightarrow> u16 \<Rightarrow> GdtEntry" where
  "selected s selector = gdt_entries s (ucast (drop_bit 3 selector))"

lemma gate_base: "seg_base (gdt_gate base limit access gran) = base"
proof (rule bit_word_eqI)
  fix n assume "n < LENGTH(32)"
  then have n: "n < 32" by simp
  have m: "(0xFFFF :: u32) = mask 16" "(0xFF :: u32) = mask 8" by (simp_all add: mask_eq_exp_minus_1)
  consider "n < 16" | "16 \<le> n" "n < 24" | "24 \<le> n" by linarith
  then show "bit (seg_base (gdt_gate base limit access gran)) n \<longleftrightarrow> bit base n"
    using n unfolding seg_base_def gdt_gate_def m by cases (auto simp: bit_simps)
qed

lemma gate_last:
  "seg_last (gdt_gate base limit access gran) =
    (if bit gran 7 then push_bit 12 (limit AND 0xFFFFF) OR 0xFFF else limit AND 0xFFFFF)"
proof -
  let ?e = "gdt_gate base limit access gran"
  have m: "(0x0F :: u8) = mask 4" "(0xF0 :: u8) = push_bit 4 (mask 4)" "(0xFFFF :: u32) = mask 16"
    "(0x0F :: u32) = mask 4" "(0xFFFFF :: u32) = mask 20"
    by (simp_all add: mask_eq_exp_minus_1)
  have "bit (ucast (ge_limit ?e) OR push_bit 16 (ucast (ge_flags ?e AND 0x0F)) :: u32) n \<longleftrightarrow> bit (limit AND 0xFFFFF) n"
    if "n < 32" for n
    using that unfolding gdt_gate_def m by (cases "n < 16") (auto simp: bit_simps)
  then have "ucast (ge_limit ?e) OR push_bit 16 (ucast (ge_flags ?e AND 0x0F)) = limit AND 0xFFFFF"
    by (intro bit_word_eqI) simp
  moreover have "bit (ge_flags ?e) 7 \<longleftrightarrow> bit gran 7"
    unfolding gdt_gate_def m by (simp add: bit_simps)
  ultimately show ?thesis by (simp add: seg_last_def Let_def)
qed

lemma gate_access [simp]: "ge_access (gdt_gate base limit access gran) = access"
  by (simp add: gdt_gate_def)

definition busy :: "GdtEntry \<Rightarrow> GdtEntry" where
  "busy e = e\<lparr>ge_access := ge_access e OR 2\<rparr>"

lemma busy_simps [simp]: "seg_base (busy e) = seg_base e" "seg_last (busy e) = seg_last e" "ge_access (busy e) = ge_access e OR 2"
  by (simp_all add: busy_def seg_base_def seg_last_def Let_def)

lemma gdt_init_entries:
  fixes s :: "'z machine_scheme" and g t :: u32
  defines "s' \<equiv> gdt_init g t s"
  shows "gdt_entries s' 0 = gdt_gate 0 0 0 0" "gdt_entries s' 1 = gdt_gate 0 0xFFFFFFFF 0x9A 0xCF"
    "gdt_entries s' 2 = gdt_gate 0 0xFFFFFFFF 0x92 0xCF" "gdt_entries s' 3 = gdt_gate 0 0xFFFFFFFF 0xFA 0xCF"
    "gdt_entries s' 4 = gdt_gate 0 0xFFFFFFFF 0xF2 0xCF" "gdt_entries s' 5 = busy (gdt_gate t 107 0xE9 0)"
    "cs_reg s' = 0x08" "ds_reg s' = 0x10" "es_reg s' = 0x10" "fs_reg s' = 0x10" "gs_reg s' = 0x10" "ss_reg s' = 0x10"
    "task_reg s' = 0x2B" "tss_ss0 (tss_entry s') = 0x10" "tss_esp0 s' = 0"
    "gdtr s' = \<lparr>gdtr_limit = 47, gdtr_base = g\<rparr>"
  by (simp_all add: s'_def gdt_init_def Let_def gdt_gate_set_def tss_write_def gdt_flush_def tss_flush_def busy_def)

text \<open>A present code or data segment that spans the whole address space.\<close>

definition flat_segment :: "GdtEntry \<Rightarrow> bool \<Rightarrow> u8 \<Rightarrow> bool" where
  "flat_segment e code ring \<longleftrightarrow> seg_present e \<and> seg_normal e \<and> seg_code e = code \<and> seg_dpl e = ring
     \<and> seg_base e = 0 \<and> seg_last e = 0xFFFFFFFF"

lemma flat_gates:
  "flat_segment (gdt_gate 0 0xFFFFFFFF 0x9A 0xCF) True 0" "flat_segment (gdt_gate 0 0xFFFFFFFF 0x92 0xCF) False 0"
  "flat_segment (gdt_gate 0 0xFFFFFFFF 0xFA 0xCF) True 3" "flat_segment (gdt_gate 0 0xFFFFFFFF 0xF2 0xCF) False 3"
  by (simp_all add: flat_segment_def seg_present_def seg_normal_def seg_code_def seg_dpl_def gate_base gate_last)

text \<open>C22: segmentation. After \<open>gdt_init\<close> the code register selects a present ring 0 code segment and every data
  register a present ring 0 data segment, both flat over the whole 4 GB; the table has the same two
  for ring 3 and a null descriptor; the task register selects a busy 32-bit task state
  segment of 108 bytes at the segment's address, whose ring 0 stack segment is the kernel's data segment;
  the loaded register describes the six descriptors.\<close>

theorem gdt_init_segments:
  "let s' = gdt_init gdt_addr tss_addr s; tss = selected s' (task_reg s') in
     flat_segment (selected s' (cs_reg s')) True 0
   \<and> list_all (\<lambda>r. flat_segment (selected s' r) False 0)
       [ds_reg s', es_reg s', fs_reg s', gs_reg s', ss_reg s', ucast (tss_ss0 (tss_entry s'))]
   \<and> flat_segment (gdt_entries s' 3) True 3 \<and> flat_segment (gdt_entries s' 4) False 3 \<and> \<not> seg_present (gdt_entries s' 0)
   \<and> seg_present tss \<and> \<not> seg_normal tss \<and> sys_type tss = 0x0B \<and> seg_base tss = tss_addr \<and> seg_last tss = 107
   \<and> gdtr s' = \<lparr>gdtr_limit = 6 * 8 - 1, gdtr_base = gdt_addr\<rparr> \<and> tss_esp0 s' = 0"
  by (simp add: Let_def selected_def gdt_init_entries flat_gates seg_present_def seg_normal_def sys_type_def
      gate_base gate_last)

end
