(* ===== verification/Kernel_Main.thy ===== *)
theory Kernel_Main
  imports Paging_Init Kernel_Tasks Gdt
begin

text \<open>
  The start of the kernel (\<open>kernel/kernel.c\<close>): the calls with which \<open>kernel_main\<close> brings up the terminal,
  the descriptor tables, paging, the heap, the timer, multitasking and the keyboard, in this order.
  The addresses of the kernel image's symbols are in a record.
\<close>

section \<open>Bringing the kernel up\<close>

record image =
  img_kernel_start :: paddr
  img_kernel_end :: vaddr
  img_gdt_entries :: u32
  img_tss_entry :: u32
  img_idt_entries :: u32
  img_isr :: "nat \<Rightarrow> u32"
  img_irq :: "nat \<Rightarrow> u32"
  img_irq_0_handler :: u32
  img_irq_1_handler :: u32
  img_update_awoken :: u32

definition kernel_boot ::
  "image \<Rightarrow> (u32 \<Rightarrow> mmap_entry) \<Rightarrow> u32 \<Rightarrow> multiboot_info \<Rightarrow> 'z machine_scheme \<Rightarrow> (unit, 'z machine_scheme) kres option" where
  "kernel_boot im mm magic mbd s =
     (let s = tty_init s;
          s = gdt_init (img_gdt_entries im) (img_tss_entry im) s;
          s = idt_init (img_idt_entries im) (img_isr im) (img_irq im) s
      in bindK (pmm_directory_init mm (img_kernel_start im) (img_kernel_end im) magic mbd s) (\<lambda>_ s.
         bindK (heap_init (img_kernel_end im) s) (\<lambda>_ s.
         let s = timer_init (img_irq_0_handler im) s
         in bindK (multitasking_initialize (img_update_awoken im) s) (\<lambda>_ s.
            retK () (keyboard_init (img_irq_1_handler im) s)))))"

section \<open>What each step leaves alone\<close>

lemma vmm_more_fields:
  fixes s t :: "'z machine_scheme"
  assumes "vmm.more t = vmm.more s"
  shows "mem t = mem s" "irq_routines t = irq_routines s" "timer_events t = timer_events s" "tev t = tev s" "current_pid t = current_pid s"
    "IRQ_disable_counter t = IRQ_disable_counter s" "postpone_task_switches_counter t = postpone_task_switches_counter s"
    "task_switches_postponed_flag t = task_switches_postponed_flag s" "timer.more t = timer.more s"
    "idt_entries t = idt_entries s" "idtr t = idtr s"
  using assms by (cases s; cases t; simp)+

lemma heap_more_fields:
  fixes s t :: "'z timer_scheme"
  assumes "heap.more t = heap.more s"
  shows "irq_routines t = irq_routines s" "timer_events t = timer_events s" "tev t = tev s" "timer.more t = timer.more s"
    "idt_entries t = idt_entries s" "idtr t = idtr s"
  using assms by (cases s; cases t; simp)+

lemma timer_more_fields:
  fixes s t :: "'z machine_scheme"
  assumes "timer.more t = timer.more s"
  shows "terminal_row t = terminal_row s" "terminal_column t = terminal_column s" "terminal_color t = terminal_color s"
    "terminal_buffer t = terminal_buffer s" "gdtr t = gdtr s" "cs_reg t = cs_reg s" "gdt_entries t = gdt_entries s"
  using assms by (cases s; cases t; simp)+

text \<open>\<open>t\<close> differs from \<open>s\<close> in the interrupt tables, the ports and the interrupt flag only.\<close>

definition idt_frame :: "'z kernel_scheme \<Rightarrow> 'z kernel_scheme \<Rightarrow> bool" where
  "idt_frame s t \<longleftrightarrow> t\<lparr>idt_entries := idt_entries s, idt_ptr := idt_ptr s, idtr := idtr s, port_log := port_log s, irq_enabled := irq_enabled s\<rparr> = s"

lemma idt_frame_steps:
  "idt_frame s s" "idt_frame s t \<Longrightarrow> idt_frame s (outb p v t)" "idt_frame s t \<Longrightarrow> idt_frame s (kernel_gate f k i t)"
  "idt_frame s t \<Longrightarrow> idt_frame s (t\<lparr>idt_entries := e\<rparr>)" "idt_frame s t \<Longrightarrow> idt_frame s (t\<lparr>idt_ptr := r\<rparr>)"
  "idt_frame s t \<Longrightarrow> idt_frame s (t\<lparr>idtr := r\<rparr>)" "idt_frame s t \<Longrightarrow> idt_frame s (t\<lparr>irq_enabled := b\<rparr>)"
  by (simp_all add: idt_frame_def outb_def kernel_gate_def idt_gate_set_def)

lemma idt_frame_fold: "idt_frame s t \<Longrightarrow> idt_frame s (fold (\<lambda>i. kernel_gate f (k i) i) xs t)"
  by (induction xs arbitrary: t) (simp_all add: idt_frame_steps)

lemma idt_init_frame: "idt_frame s (idt_init a f g s)"
  unfolding idt_init_def idt_flush_def Let_def by (intro idt_frame_steps idt_frame_fold idt_frame_fold [where k = "\<lambda>i. i"])

text \<open>The first three steps.\<close>

definition early :: "image \<Rightarrow> 'z machine_scheme \<Rightarrow> 'z machine_scheme" where
  "early im s = idt_init (img_idt_entries im) (img_isr im) (img_irq im) (gdt_init (img_gdt_entries im) (img_tss_entry im) (tty_init s))"

lemma early_fields:
  "pmem (early im s) = pmem s" "cr3 (early im s) = cr3 s" "tlb (early im s) = tlb s" "allocate (early im s) = allocate s" "pframe (early im s) = pframe s"
  "timer_events (early im s) = timer_events s" "current_pid (early im s) = current_pid s" "IRQ_disable_counter (early im s) = IRQ_disable_counter s"
  "postpone_task_switches_counter (early im s) = postpone_task_switches_counter s"
  "task_switches_postponed_flag (early im s) = task_switches_postponed_flag s" "mem (early im s) = mem (tty_init s)"
  "terminal_row (early im s) = terminal_row (tty_init s)" "terminal_column (early im s) = terminal_column (tty_init s)"
  "terminal_color (early im s) = terminal_color (tty_init s)" "terminal_buffer (early im s) = terminal_buffer (tty_init s)"
proof -
  define g where "g = gdt_init (img_gdt_entries im) (img_tss_entry im) (tty_init s)"
  have "idt_frame g (early im s)" unfolding early_def g_def by (rule idt_init_frame)
  note f = this [unfolded idt_frame_def, symmetric] and d = g_def gdt_init_def gdt_gate_set_def tss_write_def gdt_flush_def tss_flush_def Let_def
  note c = arg_cong [OF f, of pmem] arg_cong [OF f, of cr3] arg_cong [OF f, of tlb] arg_cong [OF f, of allocate] arg_cong [OF f, of pframe]
    arg_cong [OF f, of timer_events] arg_cong [OF f, of current_pid] arg_cong [OF f, of IRQ_disable_counter]
    arg_cong [OF f, of postpone_task_switches_counter] arg_cong [OF f, of task_switches_postponed_flag] arg_cong [OF f, of mem]
    arg_cong [OF f, of terminal_row] arg_cong [OF f, of terminal_column] arg_cong [OF f, of terminal_color] arg_cong [OF f, of terminal_buffer]
  have "pmem g = pmem s" "cr3 g = cr3 s" "tlb g = tlb s" "allocate g = allocate s" "pframe g = pframe s" "timer_events g = timer_events s"
    "current_pid g = current_pid s" "IRQ_disable_counter g = IRQ_disable_counter s"
    "postpone_task_switches_counter g = postpone_task_switches_counter s" "task_switches_postponed_flag g = task_switches_postponed_flag s"
    by (simp_all add: d tty_init_def)
  moreover have "mem g = mem (tty_init s)" "terminal_row g = terminal_row (tty_init s)" "terminal_column g = terminal_column (tty_init s)"
    "terminal_color g = terminal_color (tty_init s)" "terminal_buffer g = terminal_buffer (tty_init s)" by (simp_all add: d)
  ultimately show "pmem (early im s) = pmem s" "cr3 (early im s) = cr3 s" "tlb (early im s) = tlb s" "allocate (early im s) = allocate s" "pframe (early im s) = pframe s"
    "timer_events (early im s) = timer_events s" "current_pid (early im s) = current_pid s" "IRQ_disable_counter (early im s) = IRQ_disable_counter s"
    "postpone_task_switches_counter (early im s) = postpone_task_switches_counter s"
    "task_switches_postponed_flag (early im s) = task_switches_postponed_flag s" "mem (early im s) = mem (tty_init s)"
    "terminal_row (early im s) = terminal_row (tty_init s)" "terminal_column (early im s) = terminal_column (tty_init s)"
    "terminal_color (early im s) = terminal_color (tty_init s)" "terminal_buffer (early im s) = terminal_buffer (tty_init s)"
    using c by simp_all
qed

lemma early_tables:
  "idtr (early im s) = \<lparr>idtr_limit = 2047, idtr_base = img_idt_entries im\<rparr>"
  "idt_entries (early im s) = idt_entries (idt_init (img_idt_entries im) (img_isr im) (img_irq im) s)"
  "gdtr (early im s) = \<lparr>gdtr_limit = 47, gdtr_base = img_gdt_entries im\<rparr>" "cs_reg (early im s) = 0x08"
  "gdt_entries (early im s) 1 = gdt_gate 0 0xFFFFFFFF 0x9A 0xCF"
proof -
  let ?g = "gdt_init (img_gdt_entries im) (img_tss_entry im) (tty_init s)"
  show "idtr (early im s) = \<lparr>idtr_limit = 2047, idtr_base = img_idt_entries im\<rparr>" by (simp add: early_def idt_init_def idt_flush_def Let_def)
  show "idt_entries (early im s) = idt_entries (idt_init (img_idt_entries im) (img_isr im) (img_irq im) s)"
    by (simp add: fun_eq_iff early_def idt_init_entries)
  have "idt_frame ?g (early im s)" unfolding early_def by (rule idt_init_frame)
  note f = this [unfolded idt_frame_def, symmetric]
  show "gdtr (early im s) = \<lparr>gdtr_limit = 47, gdtr_base = img_gdt_entries im\<rparr>" "cs_reg (early im s) = 0x08"
    "gdt_entries (early im s) 1 = gdt_gate 0 0xFFFFFFFF 0x9A 0xCF"
    using arg_cong [OF f, of gdtr] arg_cong [OF f, of cs_reg] arg_cong [OF f, of gdt_entries]
      gdt_init_entries [where g = "img_gdt_entries im" and t = "img_tss_entry im" and s = "tty_init s"] by simp_all
qed

text \<open>The heap is used for the first time: the control block of the kernel's task and the timer event are cut off
  the first block.\<close>

lemma multitasking_initialize_fresh:
  fixes s :: "'z timer_scheme"
  assumes "heap_ok s [(b, HEAP_END, True)] HEAP_END" and "unat b \<le> 0xC03FF000"
    and "IRQ_disable_counter s = 0" "postpone_task_switches_counter s = 0" "task_switches_postponed_flag s = 0"
  shows "\<exists>s'. multitasking_initialize a s = retK () s'
    \<and> heap_ok s' [(b, b + 56, False), (b + 56, b + 72, False), (b + 72, HEAP_END, True)] HEAP_END
    \<and> IRQ_disable_counter s' = 0 \<and> postpone_task_switches_counter s' = 0 \<and> task_switches_postponed_flag s' = 0 \<and> irq_enabled s'
    \<and> current_task_PCB s' = b + 8 \<and> state (tcb s' (b + 8)) = TASK_STATE_RUNNING \<and> tid (tcb s' (b + 8)) = ucast (current_pid s)
    \<and> timer_events s' = b + 64 \<and> tev s' (b + 64) = \<lparr>func = a, tev_next = timer_events s\<rparr>
    \<and> heap_start s' = heap_start s \<and> irq_routines s' = irq_routines s \<and> idt_entries s' = idt_entries s \<and> idtr s' = idtr s \<and> timer.more s' = timer.more s
    \<and> same_outside (unat b) (unat b + 80) (mem s) (mem s') \<and> pmem s' = pmem s \<and> cr3 s' = cr3 s"
proof -
  let ?s = "s\<lparr>irq_enabled := False\<rparr>" and ?k = "b + 8" and ?p = "b + 64"
  have b: "unat (b + 56) = unat b + 56" "b + 8 + 48 = b + 56" "b + 56 + 8 + 8 = b + 72" "unat b + 80 \<le> 2 ^ 32" using assms(2) by (simp_all add: unat_add32)
  have pb: "unat (program_break_point s) = 0xC0400000" using assms(1) by (simp add: heap_ok_def)
  have hs: "heap_ok ?s [(b, HEAP_END, True)] HEAP_END" "lock_ok 0 ?s" using assms by (simp_all add: lock_ok_def)
  moreover have a1: "abs_alloc 48 [(b, HEAP_END, True)] = Some (b, [(b, b + 56, False), (b + 56, HEAP_END, True)])"
    using assms(2) b by (simp add: fits_def split_blk_def round8_def)
  moreover have r: "round8 (unat SIZEOF_TCB) = 48" "round8 (unat (8 :: u32)) = 8" by (simp_all add: round8_def)
  ultimately obtain t where
    t: "kmalloc SIZEOF_TCB ?s = retK ?k t" "kept ?s t" "heap_ok t [(b, b + 56, False), (b + 56, HEAP_END, True)] HEAP_END"
    using kmalloc_spec [of ?s "[(b, HEAP_END, True)]" HEAP_END SIZEOF_TCB, unfolded r] pb by auto
  have al: "unat (ALIGN SIZEOF_TCB) = 48" "unat (ALIGN 8) = 8" using r by (simp_all add: unat_ALIGN)
  have tq: "t = ?s\<lparr>mem := set_free b HEAP_BLOCK_USED (heap_block_split b (ALIGN SIZEOF_TCB) (mem s)), irq_enabled := (IRQ_disable_counter s = 0)\<rparr>"
    using kmalloc_fit [OF hs, of SIZEOF_TCB, unfolded r, OF _ a1] t(1) by simp
  have t4: "same_outside (unat b) (unat b + 80) (mem s) (mem t)" "pmem t = pmem s" "cr3 t = cr3 s"
    using same_outside_mono [OF taken_outside [of b "ALIGN SIZEOF_TCB" "mem s" HEAP_BLOCK_USED]] al(1) b(4) by (simp_all add: tq)
  define u where "u = (upd_tcb ?k (\<lambda>_. zero_tcb\<lparr>tcb_cr3 := cr3 t, tnext := ?k, state := TASK_STATE_RUNNING, tid := ucast (current_pid t), stack_base := NULL\<rparr>)
       (t\<lparr>current_task_PCB := ?k\<rparr>))\<lparr>last_tick := ticks_since_boot t\<rparr>"
  have hu: "heap_ok u [(b, b + 56, False), (b + 56, HEAP_END, True)] HEAP_END" using t(3) by (simp add: u_def)
  have lu: "lock_ok 0 u" using t(2) assms(3-5) by (simp add: u_def lock_ok_def kept_def)
  have a2: "abs_alloc 8 [(b, b + 56, False), (b + 56, HEAP_END, True)] = Some (b + 56, [(b, b + 56, False), (b + 56, b + 72, False), (b + 72, HEAP_END, True)])"
    using assms(2) b by (simp add: fits_def split_blk_def round8_def)
  have "unat (program_break_point u) = 0xC0400000" using hu by (simp add: heap_ok_def)
  with a2 obtain v where
    v: "kmalloc 8 u = retK ?p v" "kept u v" "heap_ok v [(b, b + 56, False), (b + 56, b + 72, False), (b + 72, HEAP_END, True)] HEAP_END"
    using kmalloc_spec [OF hu lu, of 8, unfolded r] by auto
  have "v = u\<lparr>mem := set_free (b + 56) HEAP_BLOCK_USED (heap_block_split (b + 56) (ALIGN 8) (mem u)), irq_enabled := (IRQ_disable_counter u = 0)\<rparr>"
    using kmalloc_fit [OF hu lu, of 8, unfolded r, OF _ a2] v(1) by simp
  then have v4: "same_outside (unat b) (unat b + 80) (mem u) (mem v)" "pmem v = pmem u" "cr3 v = cr3 u"
    using same_outside_mono [OF taken_outside [of "b + 56" "ALIGN 8" "mem u" HEAP_BLOCK_USED]] al(2) b by simp_all
  have ne: "?k \<noteq> NULL" "?p \<noteq> NULL"
    using assms(2) by (simp_all add: word_unat_eq_iff unat_add32)
  let ?v = "v\<lparr>tev := (tev v)(?p := \<lparr>func = a, tev_next = timer_events v\<rparr>), timer_events := ?p,
      postpone_task_switches_counter := 0, task_switches_postponed_flag := 0, IRQ_disable_counter := 0, irq_enabled := True\<rparr>"
  have res: "multitasking_initialize a s = retK () ?v"
    using t(1) v(1) ne by (simp add: multitasking_initialize_def install_timer_event_def Let_def u_def upd_tcb_def read_ticks_since_boot_def)
  have "heap.more u = heap.more t" "mem u = mem t" by (simp_all add: u_def upd_tcb_def)
  then have "heap.more v = heap.more s" using t(2) v(2) by (simp add: kept_def)
  note m = heap_more_fields [OF this]
  have "same_outside (unat b) (unat b + 80) (mem s) (mem v)"
    using same_outside_trans [OF t4(1), of "mem v"] v4(1) \<open>mem u = mem t\<close> by simp
  moreover have "pmem v = pmem s" "cr3 v = cr3 s" using v4(2,3) t4(2,3) by (simp_all add: u_def upd_tcb_def)
  moreover have "heap_start v = heap_start s" "current_task_PCB v = ?k" "tcb v ?k = zero_tcb\<lparr>tcb_cr3 := cr3 t, tnext := ?k, state := TASK_STATE_RUNNING, tid := ucast (current_pid s), stack_base := NULL\<rparr>"
    using t(2) v(2) by (simp_all add: u_def kept_def upd_tcb_def)
  ultimately show ?thesis
    using v(3) m by (intro exI [of _ ?v]) (simp add: res)
qed

section \<open>From the loader to the first task\<close>

text \<open>What the loader and \<open>boot.S\<close> leave: a well-formed memory map with the two lowest free frames \<open>f1\<close> and
  \<open>f2\<close> below the page that \<open>boot.S\<close> maps to the screen, boot tables \<open>d\<close> and \<open>t\<close> in frames that are not free, an image
  that ends in the first 4 MB with a page to spare, and cleared variables.\<close>

definition boot_ready ::
  "image \<Rightarrow> (u32 \<Rightarrow> mmap_entry) \<Rightarrow> multiboot_info \<Rightarrow> mmap_entry list \<Rightarrow> 20 word \<Rightarrow> 20 word \<Rightarrow> 20 word \<Rightarrow> 20 word \<Rightarrow> 'z machine_scheme \<Rightarrow> bool" where
  "boot_ready im mm mbd es d t f1 f2 s \<longleftrightarrow>
     (let free = initially_free es (img_kernel_start im) (img_kernel_end im) in
      drop_bit 6 (mb_flags mbd) AND 1 \<noteq> 0 \<and> mmap_chain mm (mmap_addr mbd + mmap_length mbd) (mmap_addr mbd) es
      \<and> (\<forall>e \<in> set es. region_available e \<longrightarrow> region_ok e)
      \<and> free f1 \<and> free f2 \<and> f1 < f2 \<and> (\<forall>g < f2. g \<noteq> f1 \<longrightarrow> \<not> free g) \<and> unat f2 < 0x3FF
      \<and> boot_space d t s \<and> \<not> free d \<and> \<not> free t
      \<and> 0xC0100000 \<le> unat (img_kernel_end im) \<and> unat (img_kernel_end im) \<le> 0xC03FF000
      \<and> allocate s = 1 \<and> pframe s = 0 \<and> timer_events s = NULL
      \<and> IRQ_disable_counter s = 0 \<and> postpone_task_switches_counter s = 0 \<and> task_switches_postponed_flag s = 0)"

lemma heap_begin_range:
  assumes "0xC0100000 \<le> unat k" and "unat k \<le> 0xC03FF000"
  shows "0xC0100000 \<le> unat (heap_begin k)" "unat (heap_begin k) \<le> 0xC03FF000" "page_aligned (heap_begin k)"
proof -
  have b: "unat (heap_begin k) = (unat k + 4095) div 4096 * 4096" using assms(2) by (intro unat_heap_begin) simp
  have "786688 \<le> (unat k + 4095) div 4096" using assms(1) by (simp add: less_eq_div_iff_mult_less_eq)
  moreover have "(unat k + 4095) div 4096 < 787456" using assms(2) by (simp add: div_less_iff_less_mult)
  ultimately show "0xC0100000 \<le> unat (heap_begin k)" "unat (heap_begin k) \<le> 0xC03FF000" "page_aligned (heap_begin k)"
    unfolding b by (simp_all add: page_aligned_def b)
qed

text \<open>Paging and the heap.\<close>

lemma boot_memory:
  fixes s :: "'z machine_scheme"
  assumes "boot_ready im mm mbd es d t f1 f2 s"
  defines "b \<equiv> heap_begin (img_kernel_end im)" and "e \<equiv> early im s"
  shows "\<exists>p h. pmm_directory_init mm (img_kernel_start im) (img_kernel_end im) MULTIBOOT_BOOTLOADER_MAGIC mbd e = retK () p
    \<and> vmm.more p = vmm.more e \<and> vmm_inv p \<and> cr3 p = frame_paddr f1 \<and> pmem p f1 = directory_words f1 f2 \<and> pmem p f2 = (\<lambda>k. table_entry (ucast k))
    \<and> (\<forall>v. KERNEL_VIRT_OFFSET \<le> v \<and> v < 0xC0400000 \<longrightarrow> mmu_walk p v = Some \<lparr>x_frame = frame_of (V2P v), x_write = True, x_user = False\<rparr>)
    \<and> h = p\<lparr>program_break_point := 0xC0400000, heap_start := b, mem := one_block HEAP_BLOCK_FREE b (mem e)\<rparr>
    \<and> heap_init (img_kernel_end im) p = retK () h \<and> heap_ok h [(b, HEAP_END, True)] HEAP_END"
proof -
  let ?f = "initially_free es (img_kernel_start im) (img_kernel_end im)"
  note r = assms(1) [unfolded boot_ready_def Let_def]
  have bs: "boot_space d t e" using boot_space_cong [of d t s e] r by (simp add: e_def early_fields)
  have ae: "allocate e = 1" "pframe e = 0" using r by (simp_all add: e_def early_fields)
  from r have map: "mmap_chain mm (mmap_addr mbd + mmap_length mbd) (mmap_addr mbd) es" "\<forall>e \<in> set es. region_available e \<longrightarrow> region_ok e"
    and fl: "drop_bit 6 (mb_flags mbd) AND 1 \<noteq> 0" and dt: "\<not> ?f d" "\<not> ?f t" and f: "?f f1" "?f f2" "f1 < f2" "unat f2 < 0x3FF" by simp_all
  from r have gap: "\<forall>g < f2. g \<noteq> f1 \<longrightarrow> \<not> ?f g" by simp
  have low: "\<not> ?f g" if "g < f1 \<or> f1 < g \<and> g < f2" for g
  proof -
    have "g < f2" "g \<noteq> f1" using that f(3) by (auto simp: word_nat)
    with gap show ?thesis by blast
  qed
  obtain u where u: "pmm_directory_init mm (img_kernel_start im) (img_kernel_end im) MULTIBOOT_BOOTLOADER_MAGIC mbd e = retK () (load_page_directory (frame_paddr f1) u)"
    "pmm_inv u" "cached u = []" "pmem u f1 = directory_words f1 f2" "pmem u f2 = (\<lambda>k. table_entry (ucast k))" "used (ucast f1) u" "used (ucast f2) u" "vmm.more u = vmm.more e"
    using pmm_directory_init_spec [OF map refl fl bs dt ae f(1) low f(2,3) low f(4)] by blast
  define p where "p = load_page_directory (frame_paddr f1) u"
  have ne: "f1 \<noteq> f2" using f(3) by simp
  have inv: "vmm_inv p" unfolding p_def by (rule loaded_inv [OF u(2-4) ne u(6,7)])
  have more: "vmm.more p = vmm.more e" using u(8) by (simp add: p_def load_page_directory_def)
  have cr: "cr3 p = frame_paddr f1" "pmem p = pmem u" by (simp_all add: p_def load_page_directory_def)
  have walk: "mmu_walk p v = Some \<lparr>x_frame = frame_of (V2P v), x_write = True, x_user = False\<rparr>" if "KERNEL_VIRT_OFFSET \<le> v \<and> v < 0xC0400000" for v
    using that loaded_space [OF ne, of v p] u(4,5) cr by (simp add: word_nat)
  have b: "unat b \<le> 0xC03FF000" "page_aligned b" using heap_begin_range [of "img_kernel_end im"] r by (simp_all add: b_def)
  then have "b < 0xC0400000" by (simp add: word_nat)
  with heap_init_spec [OF inv, of "img_kernel_end im"] b(2) vmm_more_fields(1) [OF more] show ?thesis
    using u(1,4,5) more inv cr walk by (simp add: p_def [symmetric] b_def [symmetric] heap_init_eq one_block_def not_le [symmetric])
qed

lemma one_block_between:
  assumes "unat b + 8 \<le> unat a" and "unat a < unat HEAP_END" and "unat b \<le> 0xC03FF000"
  shows "one_block f b m a = m a"
proof -
  let ?m = "internal_heap_block_set_metadata HEAP_END EOM_TRUE HEAP_BLOCK_USED NULL m"
  have "same_outside (unat b) (unat b + 8) ?m (one_block f b m)" "same_outside (unat HEAP_END) (unat HEAP_END + 8) m ?m"
    unfolding one_block_def using assms(3) by (intro set_metadata_outside; simp)+
  with assms(1,2) show ?thesis by (simp add: same_outside_def)
qed

lemma displays_cong:
  assumes "terminal_row t = terminal_row s" "terminal_column t = terminal_column s" "terminal_color t = terminal_color s"
    "terminal_buffer t = terminal_buffer s" and "\<And>a. vga_range a \<Longrightarrow> mem t a = mem s a"
  shows "displays t tx \<longleftrightarrow> displays s tx"
proof -
  have "displays t tx \<longleftrightarrow> displays (s\<lparr>mem := mem t\<rparr>) tx"
    using assms(1-4) by (simp add: displays_def view_def cell_at_def split: prod.splits)
  with displays_mem [of "mem t" s] assms(5) show ?thesis by simp
qed

text \<open>The steps after the heap: the timer, multitasking and the keyboard.\<close>

lemma boot_tasks:
  fixes h :: "'z machine_scheme"
  assumes "heap_ok h [(b, HEAP_END, True)] HEAP_END" and "heap_start h = b" and "unat b \<le> 0xC03FF000" and "timer_events h = NULL"
    and "IRQ_disable_counter h = 0" "postpone_task_switches_counter h = 0" "task_switches_postponed_flag h = 0"
  shows "\<exists>z. bindK (multitasking_initialize a (timer_init i0 h)) (\<lambda>_ s. retK () (keyboard_init i1 s)) = retK () z
    \<and> heap_start z = b \<and> heap_ok z [(b, b + 56, False), (b + 56, b + 72, False), (b + 72, HEAP_END, True)] HEAP_END
    \<and> IRQ_disable_counter z = 0 \<and> postpone_task_switches_counter z = 0 \<and> irq_enabled z
    \<and> current_task_PCB z = b + 8 \<and> state (tcb z (b + 8)) = TASK_STATE_RUNNING
    \<and> events z [b + 64] \<and> func (tev z (b + 64)) = a \<and> irq_routines z 0 = i0 \<and> irq_routines z 1 = i1
    \<and> idtr z = idtr h \<and> idt_entries z = idt_entries h \<and> gdtr z = gdtr h \<and> cs_reg z = cs_reg h \<and> gdt_entries z = gdt_entries h
    \<and> same_outside (unat b) (unat b + 80) (mem h) (mem z) \<and> pmem z = pmem h \<and> cr3 z = cr3 h"
proof -
  define q where "q = timer_init i0 h"
  note qd = q_def timer_init_def irq_install_handler_def outb_def Let_def
  have q: "heap_ok q bs x = heap_ok h bs x" for bs x by (rule heap_ok_cong) (simp_all add: qd)
  have qf: "IRQ_disable_counter q = 0" "postpone_task_switches_counter q = 0" "task_switches_postponed_flag q = 0" "timer_events q = NULL"
      "mem q = mem h" "irq_routines q 0 = i0" "idt_entries q = idt_entries h" "idtr q = idtr h" "heap_start q = b" "timer.more q = timer.more h"
    using assms(2,4-7) by (simp_all add: qd)
  obtain v where v: "multitasking_initialize a q = retK () v"
      "heap_ok v [(b, b + 56, False), (b + 56, b + 72, False), (b + 72, HEAP_END, True)] HEAP_END"
      "IRQ_disable_counter v = 0" "postpone_task_switches_counter v = 0" "irq_enabled v"
      "current_task_PCB v = b + 8" "state (tcb v (b + 8)) = TASK_STATE_RUNNING"
      "timer_events v = b + 64" "tev v (b + 64) = \<lparr>func = a, tev_next = timer_events q\<rparr>"
      "heap_start v = heap_start q" "irq_routines v = irq_routines q" "idt_entries v = idt_entries q" "idtr v = idtr q" "timer.more v = timer.more q"
      "same_outside (unat b) (unat b + 80) (mem q) (mem v)" "pmem v = pmem q" "cr3 v = cr3 q"
    using multitasking_initialize_fresh [OF assms(1) [folded q] assms(3) qf(1-3), of a] by blast
  define z where "z = keyboard_init i1 v"
  note zd = z_def keyboard_init_def irq_install_handler_def Let_def
  have "timer.more v = timer.more h" using v(14) qf(10) by simp
  note tf = timer_more_fields [OF this]
  have pm: "same_outside (unat b) (unat b + 80) (mem h) (mem z)" "pmem z = pmem h" "cr3 z = cr3 h"
    using v(15-17) by (simp_all add: zd qd)
  have hz: "heap_ok z bs x = heap_ok v bs x" for bs x by (rule heap_ok_cong) (simp_all add: zd)
  have "b + 64 \<noteq> NULL" using assms(3) by (simp add: word_unat_eq_iff unat_add32)
  then have ev: "events z [b + 64]" using v(8,9) qf(4) by (simp add: events_def zd)
  have res: "bindK (multitasking_initialize a (timer_init i0 h)) (\<lambda>_ s. retK () (keyboard_init i1 s)) = retK () z"
    using v(1) by (simp add: q_def z_def)
  show ?thesis
    by (rule exI [of _ z]) (use res v(2-13) [folded hz] hz pm ev qf tf in \<open>simp add: zd\<close>)
qed

section \<open>The directory inside the heap\<close>

text \<open>The page directory may be the first page of the heap (see below), so that what is written there overwrites its first entries.
  \<open>overwritten n c s\<close> is the machine with the first \<open>n\<close> entries of the loaded directory replaced by \<open>c\<close>.\<close>

definition overwritten :: "nat \<Rightarrow> (10 word \<Rightarrow> u32) \<Rightarrow> 'z vmm_scheme \<Rightarrow> 'z vmm_scheme" where
  "overwritten n c s = set_pmem (frame_of (cr3 s)) (\<lambda>i. if unat i < n then c i else pmem s (frame_of (cr3 s)) i) s"

lemma walk_overwritten:
  assumes "n \<le> unat (PDX v)" and "ucast (drop_bit 12 (pmem s (frame_of (cr3 s)) (PDX v))) \<noteq> frame_of (cr3 s)"
  shows "mmu_walk (overwritten n c s) v = mmu_walk s v"
  using assms by (simp add: mmu_walk_def overwritten_def set_pmem_def Let_def)

lemma PDX_kernel:
  assumes "KERNEL_VIRT_OFFSET \<le> v" and "v < 0xC0400000"
  shows "PDX v = 768"
proof -
  have "unat v div 2 ^ 22 = 768" using assms by (intro div_nat_eqI) (simp_all add: word_nat)
  then have "unat (PDX v) = 768" by (simp add: PDX_def unsigned_ucast_eq drop_bit_eq_div unat_div take_bit_eq_mod)
  then show ?thesis by (simp add: word_unat_eq_iff)
qed

lemma kernel_walk_overwritten:
  assumes "f1 \<noteq> f2" and "pmem s f1 = directory_words f1 f2" and "cr3 s = frame_paddr f1" and "n \<le> 768"
    and "KERNEL_VIRT_OFFSET \<le> v \<and> v < 0xC0400000"
  shows "mmu_walk (overwritten n c s) v = mmu_walk s v"
proof (rule walk_overwritten)
  have p: "PDX v = 768" using assms(5) by (intro PDX_kernel) simp_all
  then show "n \<le> unat (PDX v)" using assms(4) by simp
  have "frame_of (cr3 s) = f1" using assms(3) by simp
  then show "ucast (drop_bit 12 (pmem s (frame_of (cr3 s)) (PDX v))) \<noteq> frame_of (cr3 s)"
    using assms(1,2) p by (simp add: directory_words_def)
qed

section \<open>Properties\<close>

text \<open>The kernel comes up. From the state that the loader and \<open>boot.S\<close> leave, the eight
  initialisation calls of \<open>kernel_main\<close> return: the frame allocator's invariant holds and the new directory is loaded; the heap begins at the page after the image and holds the control
  block of the kernel's task and one timer event; the running code is the current task, no lock is held and interrupts
  are on; the tick function is the one timer event; the timer and the keyboard have their
  handlers; the descriptor tables are loaded. Of the heap, the calls write to the first 80 bytes and the last 8 only. If the first page of the heap is the page
  directory these are its first 20 entries, and whatever they then hold, the processor translates the kernel's 4 MB to the
  frames of the first 4 MB.\<close>

theorem kernel_boot_correct:
  assumes "boot_ready im mm mbd es d t f1 f2 s"
  shows "\<exists>s' b. kernel_boot im mm MULTIBOOT_BOOTLOADER_MAGIC mbd s = retK () s'
    \<and> pmm_inv s' \<and> cr3 s' = frame_paddr f1
    \<and> (\<forall>c v. KERNEL_VIRT_OFFSET \<le> v \<and> v < 0xC0400000 \<longrightarrow>
         mmu_walk (overwritten 20 c s') v = Some \<lparr>x_frame = frame_of (V2P v), x_write = True, x_user = False\<rparr>)
    \<and> unat b = (unat (img_kernel_end im) + 4095) div 4096 * 4096 \<and> heap_start s' = b \<and> program_break_point s' = 0xC0400000
    \<and> heap_list (mem s') b [(b, b + 56, False), (b + 56, b + 72, False), (b + 72, HEAP_END, True)] HEAP_END
    \<and> (\<forall>a. unat b + 80 \<le> unat a \<and> unat a < unat HEAP_END \<longrightarrow> mem s' a = mem s a)
    \<and> IRQ_disable_counter s' = 0 \<and> postpone_task_switches_counter s' = 0 \<and> irq_enabled s'
    \<and> current_task_PCB s' = b + 8 \<and> state (tcb s' (b + 8)) = TASK_STATE_RUNNING
    \<and> events s' [b + 64] \<and> func (tev s' (b + 64)) = img_update_awoken im
    \<and> irq_routines s' 0 = img_irq_0_handler im \<and> irq_routines s' 1 = img_irq_1_handler im
    \<and> idtr s' = \<lparr>idtr_limit = 2047, idtr_base = img_idt_entries im\<rparr>
    \<and> idt_entries s' = idt_entries (idt_init (img_idt_entries im) (img_isr im) (img_irq im) s)
    \<and> gdtr s' = \<lparr>gdtr_limit = 47, gdtr_base = img_gdt_entries im\<rparr> \<and> flat_segment (selected s' (cs_reg s')) True 0"
proof -
  let ?b = "heap_begin (img_kernel_end im)" and ?e = "early im s"
  note r = assms [unfolded boot_ready_def Let_def]
  have ub: "unat ?b = (unat (img_kernel_end im) + 4095) div 4096 * 4096" using r by (intro unat_heap_begin) simp
  have range: "0xC0100000 \<le> unat ?b" "unat ?b \<le> 0xC03FF000" using heap_begin_range [of "img_kernel_end im"] r by simp_all
  obtain p h where p: "pmm_directory_init mm (img_kernel_start im) (img_kernel_end im) MULTIBOOT_BOOTLOADER_MAGIC mbd ?e = retK () p"
      "vmm.more p = vmm.more ?e" "cr3 p = frame_paddr f1" "pmem p f1 = directory_words f1 f2"
      "\<forall>v. KERNEL_VIRT_OFFSET \<le> v \<and> v < 0xC0400000 \<longrightarrow> mmu_walk p v = Some \<lparr>x_frame = frame_of (V2P v), x_write = True, x_user = False\<rparr>"
    and h: "h = p\<lparr>program_break_point := 0xC0400000, heap_start := ?b, mem := one_block HEAP_BLOCK_FREE ?b (mem ?e)\<rparr>"
      "heap_init (img_kernel_end im) p = retK () h" "heap_ok h [(?b, HEAP_END, True)] HEAP_END"
    using boot_memory [OF assms] by blast
  note pf = vmm_more_fields [OF p(2)]
  note tf = timer_more_fields [OF pf(9)]
  have hf: "heap_start h = ?b" "timer_events h = NULL" "IRQ_disable_counter h = 0" "postpone_task_switches_counter h = 0" "task_switches_postponed_flag h = 0"
    using pf r by (simp_all add: h(1) early_fields)
  obtain z where z: "bindK (multitasking_initialize (img_update_awoken im) (timer_init (img_irq_0_handler im) h))
        (\<lambda>_ s. retK () (keyboard_init (img_irq_1_handler im) s)) = retK () z"
      "heap_start z = ?b" "heap_ok z [(?b, ?b + 56, False), (?b + 56, ?b + 72, False), (?b + 72, HEAP_END, True)] HEAP_END"
      "IRQ_disable_counter z = 0" "postpone_task_switches_counter z = 0" "irq_enabled z"
      "current_task_PCB z = ?b + 8" "state (tcb z (?b + 8)) = TASK_STATE_RUNNING"
      "events z [?b + 64]" "func (tev z (?b + 64)) = img_update_awoken im"
      "irq_routines z 0 = img_irq_0_handler im" "irq_routines z 1 = img_irq_1_handler im"
      "idtr z = idtr h" "idt_entries z = idt_entries h" "gdtr z = gdtr h" "cs_reg z = cs_reg h" "gdt_entries z = gdt_entries h"
    and zm: "same_outside (unat ?b) (unat ?b + 80) (mem h) (mem z)" "pmem z = pmem h" "cr3 z = cr3 h"
    using boot_tasks [OF h(3) hf(1) range(2) hf(2-5)] by blast
  have boot: "kernel_boot im mm MULTIBOOT_BOOTLOADER_MAGIC mbd s = retK () z"
    using p(1) h(2) z(1) by (simp add: kernel_boot_def Let_def early_def)
  have pm: "pmem z = pmem p" "cr3 z = frame_paddr f1" using zm(2,3) p(3) by (simp_all add: h(1))
  have ne: "f1 \<noteq> f2" using r by auto
  have "mmu_walk z v = mmu_walk p v" for v using pm p(3) by (simp add: mmu_walk_def Let_def)
  then have walk: "mmu_walk (overwritten 20 c z) v = Some \<lparr>x_frame = frame_of (V2P v), x_write = True, x_user = False\<rparr>"
    if "KERNEL_VIRT_OFFSET \<le> v \<and> v < 0xC0400000" for c v
    using kernel_walk_overwritten [OF ne _ pm(2) _ that, of 20 c] pm(1) p(4,5) that by simp
  have frame: "mem z a = mem s a" if "unat ?b + 80 \<le> unat a \<and> unat a < unat HEAP_END" for a
  proof -
    have "mem z a = one_block HEAP_BLOCK_FREE ?b (mem ?e) a" using zm(1) that by (simp add: same_outside_def h(1))
    also have "\<dots> = mem ?e a" using that range(2) by (intro one_block_between) simp_all
    also have "\<dots> = mem s a" using that range(1) by (simp add: early_fields tty_init_frame vga_range_unat)
    finally show ?thesis .
  qed
  have sel: "selected z (cs_reg z) = gdt_gate 0 0xFFFFFFFF 0x9A 0xCF"
    using z(16,17) tf early_tables [of im s] by (simp add: h(1) selected_def)
  have "idtr h = idtr ?e" "idt_entries h = idt_entries ?e" "gdtr h = gdtr ?e" using pf tf by (simp_all add: h(1))
  moreover have hz: "heap_list (mem z) ?b [(?b, ?b + 56, False), (?b + 56, ?b + 72, False), (?b + 72, HEAP_END, True)] HEAP_END" "pmm_inv z"
      "program_break_point z = 0xC0400000"
    using z(3) unfolding heap_ok_def brk_inv_def vmm_inv_def z(2) by (simp_all add: word_unat_eq_iff)
  ultimately show ?thesis
    using boot ub pm(2) walk frame z(2,4-17) sel early_tables [of im s] by (intro exI [of _ z] exI [of _ ?b]) (simp add: flat_gates)
qed

text \<open>A machine as \<open>boot.S\<close> leaves it, with an image of 0x20008 bytes at 1 MB, for the witnesses.\<close>

definition example_image :: image where
  "example_image = \<lparr>img_kernel_start = 0x100000, img_kernel_end = 0xC0120008, img_gdt_entries = 0xC0118000, img_tss_entry = 0xC0118100,
     img_idt_entries = 0xC0119000, img_isr = \<lambda>i. 0xC0101000 + 16 * of_nat i, img_irq = \<lambda>i. 0xC0102000 + 16 * of_nat i,
     img_irq_0_handler = 0xC0103000, img_irq_1_handler = 0xC0103100, img_update_awoken = 0xC0103200\<rparr>"

definition example_mbd :: multiboot_info where
  "example_mbd = \<lparr>mb_flags = 64, mmap_length = 48, mmap_addr = 0x100\<rparr>"

definition boot_machine :: machine where
  "boot_machine = (fresh_tty [] \<lparr>CTRL_pressed = False, SHIFT_pressed = False, ALT_pressed = False,
      gdt_entries = \<lambda>_. gdt_gate 0 0 0 0, gdt_ptr = \<lparr>gdtr_limit = 0, gdtr_base = 0\<rparr>, tss_entry = zero_tss,
      gdtr = \<lparr>gdtr_limit = 0, gdtr_base = 0\<rparr>, cs_reg = 0, ds_reg = 0, es_reg = 0, fs_reg = 0, gs_reg = 0, ss_reg = 0, task_reg = 0\<rparr>)
    \<lparr>allocate := 1, pframe := 0, pmem := pmem boot_state, cr3 := cr3 boot_state, tlb := tlb boot_state, timer_events := NULL,
     IRQ_disable_counter := 0, postpone_task_switches_counter := 0, task_switches_postponed_flag := 0\<rparr>"

lemma boot_machine_ready: "boot_ready example_image example_mmap example_mbd example_entries 0x110 0x111 0x121 0x122 boot_machine"
proof -
  have "boot_space 0x110 0x111 boot_state"
    by (simp add: boot_space_def boot_state_def tlb_coherent_def)
  then have "boot_space 0x110 0x111 boot_machine"
    by (simp add: boot_space_def boot_machine_def tlb_coherent_def boot_state_def)
  moreover have "mmap_chain example_mmap (mmap_addr example_mbd + mmap_length example_mbd) (mmap_addr example_mbd) example_entries"
    and "\<forall>e \<in> set example_entries. region_available e \<longrightarrow> region_ok e"
    by (simp_all add: example_mmap_def example_entries_def region_ok_def mm_base_def mm_limit_def example_mbd_def)
  moreover have "g = 0x121" if "g < 0x122" "0x121 \<le> unat g" for g :: "20 word"
    using that by (simp add: word_unat_eq_iff word_nat)
  ultimately show ?thesis
    unfolding boot_ready_def Let_def example_image_def image.simps example_free
    by (auto simp: boot_machine_def example_mbd_def word_nat)
qed

text \<open>C30: the heap and the page tables share memory. On every machine on which the kernel, linked at 1 MB,
  comes up, the frames of the page directory and of the first page table lie inside the first free block that
  \<open>heap_init\<close> makes, and are mapped there writable: only the frames of the image are taken out of the
  frame allocator, not the rest of the first 4 MB, which \<open>heap_init\<close> hands to the heap.\<close>

theorem heap_overlaps_tables:
  assumes "boot_ready im mm mbd es d t f1 f2 s" and "img_kernel_start im = 0x100000"
  shows "\<exists>h b. bindK (pmm_directory_init mm (img_kernel_start im) (img_kernel_end im) MULTIBOOT_BOOTLOADER_MAGIC mbd (early im s))
        (\<lambda>_ p. heap_init (img_kernel_end im) p) = retK () h
    \<and> heap_ok h [(b, HEAP_END, True)] HEAP_END
    \<and> frame_of (cr3 h) = f1 \<and> frame_of (pmem h f1 768) = f2
    \<and> (\<forall>f \<in> {f1, f2}. unat b \<le> unat (P2V (frame_paddr f)) \<and> unat (P2V (frame_paddr f)) + 4096 \<le> unat HEAP_END
         \<and> mmu_walk h (P2V (frame_paddr f)) = Some \<lparr>x_frame = f, x_write = True, x_user = False\<rparr>)"
proof -
  let ?b = "heap_begin (img_kernel_end im)"
  note r = assms(1) [unfolded boot_ready_def Let_def]
  have ub: "unat ?b = (unat (img_kernel_end im) + 4095) div 4096 * 4096" using r by (intro unat_heap_begin) simp
  obtain p h where p: "pmm_directory_init mm (img_kernel_start im) (img_kernel_end im) MULTIBOOT_BOOTLOADER_MAGIC mbd (early im s) = retK () p"
      "cr3 p = frame_paddr f1" "pmem p f1 = directory_words f1 f2"
      "\<forall>v. KERNEL_VIRT_OFFSET \<le> v \<and> v < 0xC0400000 \<longrightarrow> mmu_walk p v = Some \<lparr>x_frame = frame_of (V2P v), x_write = True, x_user = False\<rparr>"
    and h: "h = p\<lparr>program_break_point := 0xC0400000, heap_start := ?b, mem := one_block HEAP_BLOCK_FREE ?b (mem (early im s))\<rparr>"
      "heap_init (img_kernel_end im) p = retK () h" "heap_ok h [(?b, HEAP_END, True)] HEAP_END"
    using boot_memory [OF assms(1)] by blast
  have walk: "mmu_walk h v = mmu_walk p v" for v by (simp add: h(1) mmu_walk_def Let_def)
  have inside: "unat ?b \<le> unat (P2V (frame_paddr f)) \<and> unat (P2V (frame_paddr f)) + 4096 \<le> unat HEAP_END
      \<and> mmu_walk h (P2V (frame_paddr f)) = Some \<lparr>x_frame = f, x_write = True, x_user = False\<rparr>"
    if "initially_free es (img_kernel_start im) (img_kernel_end im) f" "unat f \<le> 0x3FE" for f
  proof -
    have k: "unat (img_kernel_end im - KERNEL_VIRT_OFFSET) = unat (img_kernel_end im) - 0xC0000000" using r by (simp add: unat_sub32 word_nat)
    have "unat (img_kernel_end im - KERNEL_VIRT_OFFSET) div 4096 < unat f"
      using that(1) assms(2) by (auto simp: initially_free_def)
    then have "unat (img_kernel_end im) - 0xC0000000 < unat f * 4096" unfolding k by (simp add: div_less_iff_less_mult)
    then have "unat (img_kernel_end im) + 4095 < (unat f + 0xC0001) * 4096" using r by simp
    then have "(unat (img_kernel_end im) + 4095) div 4096 < unat f + 0xC0001" by (simp add: div_less_iff_less_mult)
    then have "unat ?b \<le> (unat f + 0xC0000) * 4096" unfolding ub by simp
    moreover have v: "unat (P2V (frame_paddr f)) = (unat f + 0xC0000) * 4096" using that(2) by (simp add: P2V_def unat_add32 unat_frame_paddr)
    moreover have "KERNEL_VIRT_OFFSET \<le> P2V (frame_paddr f) \<and> P2V (frame_paddr f) < 0xC0400000" using v that(2) by (simp add: word_nat)
    moreover have "V2P (P2V (frame_paddr f)) = frame_paddr f" by (simp add: V2P_def P2V_def)
    ultimately show ?thesis using that(2) p(4) by (simp add: walk)
  qed
  have "frame_of (pmem h f1 768) = f2" using p(3) by (simp add: h(1) directory_words_def frame_of_def)
  moreover have "unat f1 \<le> 0x3FE" using r by (simp add: word_nat)
  ultimately show ?thesis
    using p(1,2) h r inside [of f1] inside [of f2] by (intro exI [of _ h] exI [of _ ?b]) simp
qed

text \<open>Witness of C30: the directory is the first page of the heap, the table the second.\<close>

theorem heap_overlaps_tables_witness:
  "\<exists>h. bindK (pmm_directory_init example_mmap 0x100000 0xC0120008 MULTIBOOT_BOOTLOADER_MAGIC example_mbd (early example_image boot_machine))
        (\<lambda>_ p. heap_init 0xC0120008 p) = retK () h
     \<and> frame_of (cr3 h) = 0x121 \<and> mmu_walk h 0xC0121000 = Some \<lparr>x_frame = 0x121, x_write = True, x_user = False\<rparr>"
proof -
  have "P2V (frame_paddr 0x121) = 0xC0121000" by (simp add: P2V_def frame_paddr_def)
  with heap_overlaps_tables [OF boot_machine_ready] show ?thesis by (auto simp: example_image_def)
qed

end
