(* ===== verification/Assembly.thy ===== *)
theory Assembly
  imports Kernel_Main
begin

text \<open>
  The i386 instructions that the kernel's assembly files use, executed on the machine extended with the
  processor's registers, and the short routines the C code calls (\<open>load_page_directory.S\<close>, \<open>enable_paging.S\<close>,
  \<open>read_cr3.S\<close>, \<open>tlb_flush.S\<close>, \<open>forge_kernel_stack.S\<close>), instruction by instruction. The routines are shown to do
  what the definitions used by the C code say.

  Code is a list of instructions. A label that is called is a constructor of \<open>cfun\<close>, and what runs there is an
  argument \<open>run\<close>. The stack is in \<open>mem\<close>, and so is what is stored once paging is on; a store before that goes to
  physical memory. The interrupt flag is the field \<open>irq_enabled\<close>, bit 9 of the flags the processor pushes.
\<close>

section \<open>Processor\<close>

datatype reg = EAX | ECX | EDX | EBX | ESP | EBP | ESI | EDI

datatype sreg = DS | ES | FS | GS

record cpu = machine +
  gpr :: "reg \<Rightarrow> u32"
  EIP :: u32
  EFLAGS :: u32
  CR0 :: u32
  CR2 :: u32

datatype cfun = Irq_handler | Isr_handler | Kernel_main

text \<open>Operands are in the order of the source: the destination is last. \<open>Movl_load d b r\<close> is
  \<open>movl d(b), r\<close>, \<open>Movl_store r d b\<close> is \<open>movl r, d(b)\<close>, and \<open>Addl_mem a r\<close> is \<open>addl a, r\<close>
  without a dollar sign.\<close>

datatype instr =
    Movl_imm u32 reg | Movl reg reg | Movl_load u32 reg reg | Movl_store reg u32 reg | Movl_imm_abs u32 u32
  | Movw_imm u16 reg | Movl_from_sreg sreg reg | Movw_to_sreg reg sreg
  | Movl_from_cr0 reg | Movl_to_cr0 reg | Movl_from_cr2 reg | Movl_from_cr3 reg | Movl_to_cr3 reg
  | Addl_imm u32 reg | Addl_mem u32 reg | Subl_imm u32 reg | Orl_imm u32 reg | Xorl reg reg
  | Pushl_imm u32 | Pushl reg | Popl reg | Pushal | Popal | Call cfun | Ret_near
  | Cli | Sti | Iret | Invlpg reg

definition set_gpr :: "reg \<Rightarrow> u32 \<Rightarrow> 'z cpu_scheme \<Rightarrow> 'z cpu_scheme" where
  "set_gpr r w s = s\<lparr>gpr := (gpr s)(r := w)\<rparr>"

primrec get_sreg :: "sreg \<Rightarrow> 'z cpu_scheme \<Rightarrow> u16" where
  "get_sreg DS s = ds_reg s" | "get_sreg ES s = es_reg s" | "get_sreg FS s = fs_reg s" | "get_sreg GS s = gs_reg s"

primrec set_sreg :: "sreg \<Rightarrow> u16 \<Rightarrow> 'z cpu_scheme \<Rightarrow> 'z cpu_scheme" where
  "set_sreg DS w s = s\<lparr>ds_reg := w\<rparr>" | "set_sreg ES w s = s\<lparr>es_reg := w\<rparr>"
| "set_sreg FS w s = s\<lparr>fs_reg := w\<rparr>" | "set_sreg GS w s = s\<lparr>gs_reg := w\<rparr>"

definition push :: "u32 \<Rightarrow> 'z cpu_scheme \<Rightarrow> 'z cpu_scheme" where
  "push w s = (let a = gpr s ESP - 4 in s\<lparr>mem := store32 (mem s) a w, gpr := (gpr s)(ESP := a)\<rparr>)"

text \<open>The word \<open>n\<close> bytes above the stack pointer, and the removal of \<open>n\<close> bytes.\<close>

definition stack_word :: "u32 \<Rightarrow> 'z cpu_scheme \<Rightarrow> u32" where
  "stack_word n s = load32 (mem s) (gpr s ESP + n)"

definition drop_stack :: "u32 \<Rightarrow> 'z cpu_scheme \<Rightarrow> 'z cpu_scheme" where
  "drop_stack n s = set_gpr ESP (gpr s ESP + n) s"

text \<open>The word of flags as the processor pushes it, and what loading one does.\<close>

definition flags_word :: "'z cpu_scheme \<Rightarrow> u32" where
  "flags_word s = (if irq_enabled s then EFLAGS s OR 0x200 else EFLAGS s AND NOT 0x200)"

definition load_flags :: "u32 \<Rightarrow> 'z cpu_scheme \<Rightarrow> 'z cpu_scheme" where
  "load_flags w s = s\<lparr>EFLAGS := w, irq_enabled := bit w 9\<rparr>"

text \<open>A store of a word: to physical memory while paging is off.\<close>

definition phys_store :: "paddr \<Rightarrow> u32 \<Rightarrow> 'z vmm_scheme \<Rightarrow> 'z vmm_scheme" where
  "phys_store a w s = set_pmem (frame_of a) ((pmem s (frame_of a))(WDX a := w)) s"

definition store :: "u32 \<Rightarrow> u32 \<Rightarrow> 'z cpu_scheme \<Rightarrow> 'z cpu_scheme" where
  "store a w s = (if bit (CR0 s) 31 then s\<lparr>mem := store32 (mem s) a w\<rparr> else phys_store a w s)"

definition pushal :: "'z cpu_scheme \<Rightarrow> 'z cpu_scheme" where
  "pushal s = fold (\<lambda>r. push (gpr s r)) [EAX, ECX, EDX, EBX, ESP, EBP, ESI, EDI] s"

definition popal :: "'z cpu_scheme \<Rightarrow> 'z cpu_scheme" where
  "popal s = s\<lparr>gpr := (gpr s)(EDI := stack_word 0 s, ESI := stack_word 4 s, EBP := stack_word 8 s, EBX := stack_word 16 s,
     EDX := stack_word 20 s, ECX := stack_word 24 s, EAX := stack_word 28 s, ESP := gpr s ESP + 32)\<rparr>"

text \<open>A call of C code: the return address is pushed, the callee runs, and comes back with the stack pointer and
  \<open>ebx\<close>, \<open>ebp\<close>, \<open>esi\<close>, \<open>edi\<close> as they were (the calling convention). What it leaves in \<open>eax\<close>, \<open>ecx\<close> and \<open>edx\<close> is
  the argument \<open>scratch\<close>.\<close>

definition call_c :: "(cfun \<Rightarrow> 'z cpu_scheme \<Rightarrow> (unit, 'z cpu_scheme) kres option) \<Rightarrow> u32 \<Rightarrow> (reg \<Rightarrow> u32) \<Rightarrow> cfun \<Rightarrow> 'z cpu_scheme
    \<Rightarrow> (unit, 'z cpu_scheme) kres option" where
  "call_c run ret_addr scratch f s =
     bindK (run f (push ret_addr s)) (\<lambda>_ t.
       retK () (t\<lparr>gpr := (gpr s)(EAX := scratch EAX, ECX := scratch ECX, EDX := scratch EDX)\<rparr>))"

record 'z env =
  run :: "cfun \<Rightarrow> 'z cpu_scheme \<Rightarrow> (unit, 'z cpu_scheme) kres option"
  ret_addr :: u32
  scratch :: "reg \<Rightarrow> u32"

fun exec1 :: "'z env \<Rightarrow> instr \<Rightarrow> 'z cpu_scheme \<Rightarrow> (unit, 'z cpu_scheme) kres option" where
  "exec1 e (Movl_imm w r) s = retK () (set_gpr r w s)"
| "exec1 e (Movl q r) s = retK () (set_gpr r (gpr s q) s)"
| "exec1 e (Movl_load d b r) s = retK () (set_gpr r (load32 (mem s) (gpr s b + d)) s)"
| "exec1 e (Movl_store r d b) s = retK () (store (gpr s b + d) (gpr s r) s)"
| "exec1 e (Movl_imm_abs w a) s = retK () (store a w s)"
| "exec1 e (Movw_imm w r) s = retK () (set_gpr r (gpr s r AND 0xFFFF0000 OR ucast w) s)"
| "exec1 e (Movl_from_sreg q r) s = retK () (set_gpr r (ucast (get_sreg q s)) s)"
| "exec1 e (Movw_to_sreg r q) s = retK () (set_sreg q (ucast (gpr s r)) s)"
| "exec1 e (Movl_from_cr0 r) s = retK () (set_gpr r (CR0 s) s)"
| "exec1 e (Movl_to_cr0 r) s = retK () (s\<lparr>CR0 := gpr s r\<rparr>)"
| "exec1 e (Movl_from_cr2 r) s = retK () (set_gpr r (CR2 s) s)"
| "exec1 e (Movl_from_cr3 r) s = retK () (set_gpr r (cr3 s) s)"
| "exec1 e (Movl_to_cr3 r) s = retK () (s\<lparr>cr3 := gpr s r, tlb := \<lambda>_. None\<rparr>)"
| "exec1 e (Addl_imm w r) s = retK () (set_gpr r (gpr s r + w) s)"
| "exec1 e (Addl_mem a r) s = retK () (set_gpr r (gpr s r + load32 (mem s) a) s)"
| "exec1 e (Subl_imm w r) s = retK () (set_gpr r (gpr s r - w) s)"
| "exec1 e (Orl_imm w r) s = retK () (set_gpr r (gpr s r OR w) s)"
| "exec1 e (Xorl q r) s = retK () (set_gpr r (gpr s r XOR gpr s q) s)"
| "exec1 e (Pushl_imm w) s = retK () (push w s)"
| "exec1 e (Pushl r) s = retK () (push (gpr s r) s)"
| "exec1 e (Popl r) s = retK () (set_gpr r (stack_word 0 s) (drop_stack 4 s))"
| "exec1 e Pushal s = retK () (pushal s)"
| "exec1 e Popal s = retK () (popal s)"
| "exec1 e (Call f) s = call_c (run e) (ret_addr e) (scratch e) f s"
| "exec1 e Ret_near s = retK () (drop_stack 4 (s\<lparr>EIP := stack_word 0 s\<rparr>))"
| "exec1 e Cli s = retK () (s\<lparr>irq_enabled := False\<rparr>)"
| "exec1 e Sti s = retK () (s\<lparr>irq_enabled := True\<rparr>)"
| "exec1 e Iret s = retK () (drop_stack 12 (load_flags (stack_word 8 s) (s\<lparr>EIP := stack_word 0 s, cs_reg := ucast (stack_word 4 s)\<rparr>)))"
| "exec1 e (Invlpg r) s = retK () (tlb_flush (gpr s r) s)"

primrec exec :: "'z env \<Rightarrow> instr list \<Rightarrow> 'z cpu_scheme \<Rightarrow> (unit, 'z cpu_scheme) kres option" where
  "exec e [] s = retK () s"
| "exec e (i # xs) s = bindK (exec1 e i s) (\<lambda>_ s. exec e xs s)"

lemma bindK_assoc: "bindK (bindK r f) g = bindK r (\<lambda>x s. bindK (f x s) g)"
  by (auto simp: bindK_def split: option.splits kres.splits)

lemma exec_append: "exec e (xs @ ys) s = bindK (exec e xs s) (\<lambda>_ s. exec e ys s)"
  by (induction xs arbitrary: s) (simp_all add: bindK_assoc)

section \<open>Routines called from C\<close>

definition enable_paging_code :: "instr list" where
  "enable_paging_code = [Pushl EBP, Movl ESP EBP, Movl_from_cr0 EAX, Orl_imm 0x80000000 EAX, Movl_to_cr0 EAX, Movl EBP ESP, Popl EBP, Ret_near]"

definition load_page_directory_code :: "instr list" where
  "load_page_directory_code = [Pushl EBP, Movl ESP EBP, Movl_load 8 EBP EAX, Movl_to_cr3 EAX, Movl EBP ESP, Popl EBP, Ret_near]"

definition read_cr3_code :: "instr list" where
  "read_cr3_code = [Movl_from_cr3 EAX, Ret_near]"

definition tlb_flush_code :: "instr list" where
  "tlb_flush_code = [Movl_load 4 ESP EAX, Invlpg EAX, Ret_near]"

definition forge_kernel_stack_code :: "instr list" where
  "forge_kernel_stack_code =
    [Movl_load 4 ESP EAX,
     Movl_load 16 ESP EDX, Subl_imm 4 EAX, Movl_store EDX 0 EAX,
     Movl_load 8 ESP EDX, Subl_imm 4 EAX, Movl_store EDX 0 EAX,
     Movl_load 12 ESP EDX, Subl_imm 4 EAX, Movl_store EDX 0 EAX,
     Subl_imm 16 EAX,
     Xorl EDX EDX,
     Movl_store EDX 0 EAX, Movl_store EDX 4 EAX, Movl_store EDX 8 EAX, Movl_store EDX 12 EAX,
     Ret_near]"

section \<open>The stack\<close>

text \<open>\<open>words_at m a ws\<close>: the words \<open>ws\<close> lie in memory from \<open>a\<close> upwards.\<close>

fun words_at :: "memory \<Rightarrow> u32 \<Rightarrow> u32 list \<Rightarrow> bool" where
  "words_at m a [] \<longleftrightarrow> True"
| "words_at m a (w # ws) \<longleftrightarrow> load32 m a = w \<and> words_at m (a + 4) ws"

lemma words_at_nth: "words_at m a ws \<Longrightarrow> i < length ws \<Longrightarrow> load32 m (a + 4 * of_nat i) = ws ! i"
proof (induction ws arbitrary: a i)
  case (Cons w ws)
  then have "load32 m (a + 4 + 4 * of_nat j) = ws ! j" if "i = Suc j" for j using that by simp
  with Cons.prems show ?case by (cases i) (simp_all add: add.assoc distrib_left)
qed simp

lemma words_at_append: "words_at m a (vs @ ws) \<longleftrightarrow> words_at m a vs \<and> words_at m (a + 4 * of_nat (length vs)) ws"
  by (induction vs arbitrary: a) (simp_all add: add.assoc distrib_left)

lemma words_at_store_words: "length ws \<le> 1000 \<Longrightarrow> words_at (store_words m a ws) a ws"
proof -
  have "words_at m' a ws" if "\<And>i. i < length ws \<Longrightarrow> load32 m' (a + 4 * of_nat i) = ws ! i" for m' a
    using that
  proof (induction ws arbitrary: a)
    case (Cons w ws)
    have "load32 m' (a + 4 + 4 * of_nat i) = ws ! i" if "i < length ws" for i
      using Cons.prems [of "Suc i"] that by (simp add: add.assoc distrib_left)
    with Cons.IH [of "a + 4"] Cons.prems [of 0] show ?case by simp
  qed simp
  then show "length ws \<le> 1000 \<Longrightarrow> words_at (store_words m a ws) a ws" using store_words_load [of _ ws m a] by simp
qed

lemma words_at_store:
  assumes "words_at m a ws" and "unat b + 4 \<le> unat a" and "unat a + 4 * length ws \<le> 2 ^ 32"
  shows "words_at (store32 m b w) a ws"
  using assms
proof (induction ws arbitrary: a)
  case (Cons v ws)
  have "load32 (store32 m b w) a = load32 m a" using Cons.prems by (intro load32_other) simp_all
  moreover have "words_at (store32 m b w) (a + 4) ws"
  proof (cases "ws = []")
    case False
    then have "1 \<le> length ws" by (cases ws) simp_all
    then have "unat (a + 4) = unat a + 4" using Cons.prems(3) by (intro trans [OF unat_add32]) simp_all
    with Cons show ?thesis by simp
  qed simp
  ultimately show ?case using Cons.prems by simp
qed simp

lemma words_at_cong:
  assumes "\<And>x. unat a \<le> unat x \<Longrightarrow> unat x < unat a + 4 * length ws \<Longrightarrow> m' x = m x" and "unat a + 4 * length ws \<le> 2 ^ 32"
  shows "words_at m' a ws \<longleftrightarrow> words_at m a ws"
  using assms
proof (induction ws arbitrary: a)
  case (Cons v ws)
  have u: "unat (a + of_nat k) = unat a + k" if "k < 4" for k using that Cons.prems(2) by (simp add: unat_add32 unat_of_nat)
  have "m' (a + of_nat k) = m (a + of_nat k)" if "k < 4" for k
    using Cons.prems(1) [of "a + of_nat k"] u [OF that] that by simp
  from this [of 0] this [of 1] this [of 2] this [of 3] have "load32 m' a = load32 m a" by (intro load32_cong) simp_all
  moreover have "words_at m' (a + 4) ws \<longleftrightarrow> words_at m (a + 4) ws"
  proof (cases "ws = []")
    case False
    then have "1 \<le> length ws" by (cases ws) simp_all
    then have "unat (a + 4) = unat a + 4" using Cons.prems(2) by (intro trans [OF unat_add32]) simp_all
    with Cons show ?thesis by auto
  qed simp
  ultimately show ?case by simp
qed simp

lemma push_fields [simp]:
  "gpr (push w s) = (gpr s)(ESP := gpr s ESP - 4)" "mem (push w s) = store32 (mem s) (gpr s ESP - 4) w"
  "EIP (push w s) = EIP s" "EFLAGS (push w s) = EFLAGS s" "CR0 (push w s) = CR0 s" "CR2 (push w s) = CR2 s"
  "irq_enabled (push w s) = irq_enabled s" "cs_reg (push w s) = cs_reg s" "ds_reg (push w s) = ds_reg s"
  "es_reg (push w s) = es_reg s" "fs_reg (push w s) = fs_reg s" "gs_reg (push w s) = gs_reg s" "cr3 (push w s) = cr3 s"
  by (simp_all add: push_def Let_def)

lemma words_at_push:
  assumes "words_at (mem s) (gpr s ESP) ws" and "4 \<le> unat (gpr s ESP)" and "unat (gpr s ESP) + 4 * length ws \<le> 2 ^ 32"
  shows "words_at (mem (push w s)) (gpr (push w s) ESP) (w # ws)"
proof -
  have "unat (gpr s ESP - 4) = unat (gpr s ESP) - 4" using assms(2) by (simp add: unat_sub32 word_nat)
  then show ?thesis using words_at_store [OF assms(1), of "gpr s ESP - 4" w] assms(2,3) by simp
qed


lemmas exec_defs = set_gpr_def stack_word_def drop_stack_def

text \<open>A routine returns: the address on the stack is popped into \<open>eip\<close>.\<close>

definition returned :: "'z cpu_scheme \<Rightarrow> (reg \<Rightarrow> u32) \<Rightarrow> 'z cpu_scheme \<Rightarrow> 'z cpu_scheme" where
  "returned s g t = t\<lparr>EIP := stack_word 0 s, gpr := g(ESP := gpr s ESP + 4)\<rparr>"

lemma frame_pointer:
  assumes "4 \<le> unat (gpr s ESP)" and "unat (gpr s ESP) + 8 \<le> 2 ^ 32"
  shows "load32 (store32 (mem s) (gpr s ESP - 4) w) (gpr s ESP) = stack_word 0 s"
    "load32 (store32 (mem s) (gpr s ESP - 4) w) (gpr s ESP + 4) = stack_word 4 s"
proof -
  have u: "unat (gpr s ESP - 4) = unat (gpr s ESP) - 4" "unat (gpr s ESP + 4) = unat (gpr s ESP) + 4"
    using assms by (simp_all add: unat_sub32 word_nat unat_add32)
  show "load32 (store32 (mem s) (gpr s ESP - 4) w) (gpr s ESP) = stack_word 0 s"
    "load32 (store32 (mem s) (gpr s ESP - 4) w) (gpr s ESP + 4) = stack_word 4 s"
    using assms u by (simp_all add: stack_word_def load32_other)
qed

lemma load_page_directory_code_exec:
  assumes "4 \<le> unat (gpr s ESP)" and "unat (gpr s ESP) + 8 \<le> 2 ^ 32"
  shows "exec e load_page_directory_code s =
    retK () (returned s ((gpr s)(EAX := stack_word 4 s))
      (load_page_directory (stack_word 4 s) (s\<lparr>mem := store32 (mem s) (gpr s ESP - 4) (gpr s EBP)\<rparr>)))"
  using frame_pointer [OF assms] unfolding load_page_directory_code_def returned_def
  by (simp add: exec_defs load_page_directory_def push_def Let_def fun_upd_twist add.commute [of 4 "gpr s ESP"])

lemma enable_paging_code_exec:
  assumes "4 \<le> unat (gpr s ESP)" and "unat (gpr s ESP) + 8 \<le> 2 ^ 32"
  shows "exec e enable_paging_code s =
    retK () (returned s ((gpr s)(EAX := CR0 s OR 0x80000000))
      (s\<lparr>mem := store32 (mem s) (gpr s ESP - 4) (gpr s EBP), CR0 := CR0 s OR 0x80000000\<rparr>))"
  using frame_pointer [OF assms] unfolding enable_paging_code_def returned_def
  by (simp add: exec_defs push_def Let_def fun_upd_twist add.commute [of 4 "gpr s ESP"])

lemma read_cr3_code_exec: "exec e read_cr3_code s = retK () (returned s ((gpr s)(EAX := cr3 s)) s)"
  unfolding read_cr3_code_def returned_def by (simp add: exec_defs)

lemma tlb_flush_code_exec:
  "exec e tlb_flush_code s = retK () (returned s ((gpr s)(EAX := stack_word 4 s)) (tlb_flush (stack_word 4 s) s))"
  unfolding tlb_flush_code_def returned_def by (simp add: exec_defs tlb_flush_def)

text \<open>The stack that is forged and the caller's stack do not meet.\<close>

lemma forge_args:
  assumes "28 \<le> unat tp" and "unat sp + 20 \<le> 2 ^ 32" and "unat tp \<le> unat sp \<or> unat sp + 20 \<le> unat tp - 28"
    and "k \<in> {0, 4, 8, 12, 16}" and "j \<in> {4, 8, 12, 16, 20, 24, 28}"
  shows "load32 (store32 m (tp - j) w) (sp + k) = load32 m (sp + k)"
proof -
  have "unat k \<le> 16" "unat j \<le> 28" "4 \<le> unat j" using assms(4,5) by auto
  then have "unat (tp - j) = unat tp - unat j" "unat (sp + k) = unat sp + unat k"
    using assms(1,2) by (simp_all add: unat_sub32 word_nat unat_add32)
  with assms(1-3) \<open>unat k \<le> 16\<close> \<open>unat j \<le> 28\<close> \<open>4 \<le> unat j\<close> unat_lt32 [of tp] show ?thesis
    by (intro load32_other) (auto simp del: unat_lt32)
qed

lemma forge_push:
  assumes "bit (CR0 s) 31"
  shows "exec e [Movl_load k ESP EDX, Subl_imm 4 EAX, Movl_store EDX 0 EAX] s =
    retK () (s\<lparr>mem := store32 (mem s) (gpr s EAX - 4) (stack_word k s), gpr := (gpr s)(EDX := stack_word k s, EAX := gpr s EAX - 4)\<rparr>)"
  using assms by (simp add: exec_defs store_def)

lemma forge_clear:
  assumes "bit (CR0 s) 31"
  shows "exec e [Subl_imm 16 EAX, Xorl EDX EDX, Movl_store EDX 0 EAX, Movl_store EDX 4 EAX, Movl_store EDX 8 EAX, Movl_store EDX 12 EAX] s =
    retK () (s\<lparr>mem := store32 (store32 (store32 (store32 (mem s) (gpr s EAX - 16) 0) (gpr s EAX - 12) 0) (gpr s EAX - 8) 0) (gpr s EAX - 4) 0,
      gpr := (gpr s)(EDX := 0, EAX := gpr s EAX - 16)\<rparr>)"
  using assms by (simp add: exec_defs store_def fun_upd_twist)

lemma forge_kernel_stack_code_parts:
  "forge_kernel_stack_code = [Movl_load 4 ESP EAX] @ [Movl_load 16 ESP EDX, Subl_imm 4 EAX, Movl_store EDX 0 EAX]
     @ [Movl_load 8 ESP EDX, Subl_imm 4 EAX, Movl_store EDX 0 EAX] @ [Movl_load 12 ESP EDX, Subl_imm 4 EAX, Movl_store EDX 0 EAX]
     @ [Subl_imm 16 EAX, Xorl EDX EDX, Movl_store EDX 0 EAX, Movl_store EDX 4 EAX, Movl_store EDX 8 EAX, Movl_store EDX 12 EAX] @ [Ret_near]"
  by (simp add: forge_kernel_stack_code_def)

lemma forge_kernel_stack_code_exec:
  assumes "bit (CR0 s) 31" and "28 \<le> unat (stack_word 4 s)" and "unat (gpr s ESP) + 20 \<le> 2 ^ 32"
    and "unat (stack_word 4 s) \<le> unat (gpr s ESP) \<or> unat (gpr s ESP) + 20 \<le> unat (stack_word 4 s) - 28"
    and "forge_kernel_stack (stack_word 4 s) (stack_word 8 s) (stack_word 12 s) (stack_word 16 s) (mem s) = (a, m)"
  shows "exec e forge_kernel_stack_code s = retK () (returned s ((gpr s)(EAX := a, EDX := 0)) (s\<lparr>mem := m\<rparr>))"
proof -
  let ?tp = "stack_word 4 s"
  define m1 where "m1 = store32 (mem s) (?tp - 4) (stack_word 16 s)"
  define m2 where "m2 = store32 m1 (?tp - 8) (stack_word 8 s)"
  define m3 where "m3 = store32 m2 (?tp - 12) (stack_word 12 s)"
  have forged: "a = ?tp - 28" "m = store32 (store32 (store32 (store32 m3 (?tp - 28) 0) (?tp - 24) 0) (?tp - 20) 0) (?tp - 16) 0"
    using assms(5) by (auto simp: forge_kernel_stack_def Let_def m1_def m2_def m3_def)
  note args = forge_args [OF assms(2-4)]
  have sw: "load32 m1 (gpr s ESP + 8) = stack_word 8 s" "load32 m2 (gpr s ESP + 12) = stack_word 12 s"
    by (simp_all add: m1_def m2_def args flip: stack_word_def)
  have sr: "load32 m (gpr s ESP) = stack_word 0 s"
    using args [where k = 0] stack_word_def [of 0 s] by (simp add: forged m1_def m2_def m3_def)
  define s0 where "s0 = s\<lparr>gpr := (gpr s)(EAX := ?tp)\<rparr>"
  define s1 where "s1 = s\<lparr>mem := m1, gpr := (gpr s)(EAX := ?tp - 4, EDX := stack_word 16 s)\<rparr>"
  define s2 where "s2 = s\<lparr>mem := m2, gpr := (gpr s)(EAX := ?tp - 8, EDX := stack_word 8 s)\<rparr>"
  define s3 where "s3 = s\<lparr>mem := m3, gpr := (gpr s)(EAX := ?tp - 12, EDX := stack_word 12 s)\<rparr>"
  define s4 where "s4 = s\<lparr>mem := m, gpr := (gpr s)(EAX := a, EDX := 0)\<rparr>"
  have "exec e [Movl_load 4 ESP EAX] s = retK () s0" by (simp add: s0_def exec_defs)
  moreover have "exec e [Movl_load 16 ESP EDX, Subl_imm 4 EAX, Movl_store EDX 0 EAX] s0 = retK () s1"
    using assms(1) by (subst forge_push) (simp_all add: s0_def s1_def m1_def stack_word_def fun_upd_twist)
  moreover have "exec e [Movl_load 8 ESP EDX, Subl_imm 4 EAX, Movl_store EDX 0 EAX] s1 = retK () s2"
    using assms(1) sw by (subst forge_push) (simp_all add: s1_def s2_def m2_def stack_word_def [where s = "s\<lparr>mem := _, gpr := _\<rparr>"] fun_upd_twist)
  moreover have "exec e [Movl_load 12 ESP EDX, Subl_imm 4 EAX, Movl_store EDX 0 EAX] s2 = retK () s3"
    using assms(1) sw by (subst forge_push) (simp_all add: s2_def s3_def m3_def stack_word_def [where s = "s\<lparr>mem := _, gpr := _\<rparr>"] fun_upd_twist)
  moreover have "exec e [Subl_imm 16 EAX, Xorl EDX EDX, Movl_store EDX 0 EAX, Movl_store EDX 4 EAX, Movl_store EDX 8 EAX, Movl_store EDX 12 EAX] s3 = retK () s4"
    using assms(1) by (subst forge_clear) (simp_all add: s3_def s4_def forged fun_upd_twist)
  moreover have "exec e [Ret_near] s4 = retK () (returned s ((gpr s)(EAX := a, EDX := 0)) (s\<lparr>mem := m\<rparr>))"
    using sr by (simp add: s4_def exec_defs returned_def fun_upd_twist)
  ultimately show ?thesis unfolding forge_kernel_stack_code_parts exec_append by (simp only: bindK_simps)
qed

section \<open>Properties\<close>

text \<open>C38: the assembly routines do what the C code's model says of them. Called with their arguments above the return
  address on the stack, they return to that address with the arguments still there and every register but \<open>eax\<close> and
  \<open>edx\<close> as it was: \<open>_load_page_directory\<close>, \<open>_tlb_flush\<close> and \<open>_forge_kernel_stack\<close> have the effect of the definitions of the
  same names, \<open>_read_cr3\<close> returns the register, and \<open>_enable_paging\<close> sets its bit. The forged stack must lie apart
  from the caller's frame.\<close>

theorem assembly_routines_refine:
  assumes "4 \<le> unat (gpr s ESP)" and "unat (gpr s ESP) + 20 \<le> 2 ^ 32" and "bit (CR0 s) 31"
    and "words_at (mem s) (gpr s ESP) [ret, x1, x2, x3, x4]" and "28 \<le> unat x1"
    and "unat x1 \<le> unat (gpr s ESP) \<or> unat (gpr s ESP) + 20 \<le> unat x1 - 28"
    and "forge_kernel_stack x1 x2 x3 x4 (mem s) = (a, m)"
  shows "(let s1 = s\<lparr>mem := store32 (mem s) (gpr s ESP - 4) (gpr s EBP)\<rparr> in
        exec e load_page_directory_code s =
          retK () ((load_page_directory x1 s1)\<lparr>EIP := ret, gpr := (gpr s)(EAX := x1, ESP := gpr s ESP + 4)\<rparr>)
      \<and> exec e enable_paging_code s =
          retK () (s1\<lparr>CR0 := CR0 s OR 0x80000000, EIP := ret, gpr := (gpr s)(EAX := CR0 s OR 0x80000000, ESP := gpr s ESP + 4)\<rparr>))
    \<and> exec e read_cr3_code s = retK () (s\<lparr>EIP := ret, gpr := (gpr s)(EAX := cr3 s, ESP := gpr s ESP + 4)\<rparr>)
    \<and> exec e tlb_flush_code s = retK () ((tlb_flush x1 s)\<lparr>EIP := ret, gpr := (gpr s)(EAX := x1, ESP := gpr s ESP + 4)\<rparr>)
    \<and> exec e forge_kernel_stack_code s =
        retK () (s\<lparr>mem := m, EIP := ret, gpr := (gpr s)(EAX := a, EDX := 0, ESP := gpr s ESP + 4)\<rparr>)"
proof -
  have w: "stack_word 0 s = ret" "stack_word 4 s = x1" "stack_word 8 s = x2" "stack_word 12 s = x3" "stack_word 16 s = x4"
    using words_at_nth [OF assms(4), of 0] words_at_nth [OF assms(4), of 1] words_at_nth [OF assms(4), of 2]
      words_at_nth [OF assms(4), of 3] words_at_nth [OF assms(4), of 4] by (simp_all add: stack_word_def)
  have sp: "unat (gpr s ESP) + 8 \<le> 2 ^ 32" using assms(2) by simp
  show ?thesis
    using load_page_directory_code_exec [OF assms(1) sp, of e] enable_paging_code_exec [OF assms(1) sp, of e] read_cr3_code_exec [of e s]
      tlb_flush_code_exec [of e s] forge_kernel_stack_code_exec [of s a m e] assms(2,3,5-7)
    unfolding returned_def w Let_def by simp
qed

text \<open>A processor in the kernel's code with the given words on the stack, for the witnesses.\<close>

definition example_cpu :: "u32 list \<Rightarrow> cpu" where
  "example_cpu ws = machine.extend (boot_machine\<lparr>mem := store_words (\<lambda>_. 0) 0xC0110000 ws, ds_reg := 0x10, es_reg := 0x10,
       fs_reg := 0x10, gs_reg := 0x10, cs_reg := 8, irq_enabled := True\<rparr>)
     (cpu.fields ((\<lambda>_. 7)(ESP := 0xC0110000)) 0xC0101234 0x202 0x80010011 0)"

lemma example_cpu_fields [simp]:
  "gpr (example_cpu ws) = (\<lambda>_. 7)(ESP := 0xC0110000)" "CR0 (example_cpu ws) = 0x80010011" "EIP (example_cpu ws) = 0xC0101234"
  "EFLAGS (example_cpu ws) = 0x202" "irq_enabled (example_cpu ws)" "cs_reg (example_cpu ws) = 8" "ds_reg (example_cpu ws) = 0x10"
  "es_reg (example_cpu ws) = 0x10" "fs_reg (example_cpu ws) = 0x10" "gs_reg (example_cpu ws) = 0x10"
  "mem (example_cpu ws) = store_words (\<lambda>_. 0) 0xC0110000 ws"
  by (simp_all add: example_cpu_def machine.defs cpu.defs)

definition no_calls :: "'z env" where
  "no_calls = \<lparr>run = \<lambda>_ s. retK () s, ret_addr = 0xC0101111, scratch = \<lambda>_. 0\<rparr>"

text \<open>Witness of C38: a stack forged below \<open>0xC0130000\<close>.\<close>

theorem assembly_routines_refine_witness:
  "\<exists>t. exec no_calls forge_kernel_stack_code (example_cpu [0xC0101240, 0xC0130000, 1, 2, 3]) = retK () t
     \<and> gpr t EAX = 0xC012FFE4 \<and> EIP t = 0xC0101240 \<and> gpr t ESP = 0xC0110004 \<and> load32 (mem t) 0xC012FFF4 = 2"
proof -
  let ?ws = "[0xC0101240, 0xC0130000, 1, 2, 3] :: u32 list" and ?s = "example_cpu [0xC0101240, 0xC0130000, 1, 2, 3]"
  have ws: "words_at (mem ?s) (gpr ?s ESP) ?ws" unfolding example_cpu_fields fun_upd_same by (rule words_at_store_words) simp
  obtain a m where f: "forge_kernel_stack 0xC0130000 1 2 3 (mem ?s) = (a, m)" by (rule prod.exhaust)
  have a: "a = 0xC012FFE4" using f by (simp add: forge_kernel_stack_def Let_def)
  have "load32 m 0xC012FFF4 = 2" using forge_kernel_stack_spec [OF f] a by simp
  moreover have "bit (CR0 ?s) 31" by (simp add: bit_simps)
  ultimately show ?thesis
    using assembly_routines_refine [OF _ _ _ ws _ _ f, of no_calls] a by simp
qed

end
