(* ===== verification/Interrupt_Stubs.thy ===== *)
theory Interrupt_Stubs
  imports Assembly
begin

text \<open>
  The entry stubs of the interrupts (\<open>interrupts/interrupts.S\<close>): what the processor does when it takes an interrupt in
  the kernel, the stubs \<open>isr0\<close> to \<open>isr177\<close> and \<open>irq0\<close> to \<open>irq15\<close>, and the two common stubs that save the registers as a
  \<open>struct Registers\<close>, call \<open>isr_handler\<close> or \<open>irq_handler\<close> with its address, and restore them.
\<close>

section \<open>Taking an interrupt\<close>

text \<open>The processor pushes the flags, the code segment and the instruction pointer, and for some exceptions an error
  code, and continues at the gate with interrupts off. An interrupt gate also clears TF, NT, RF and VM.\<close>

definition deliver :: "u8 \<Rightarrow> u32 option \<Rightarrow> 'z cpu_scheme \<Rightarrow> 'z cpu_scheme" where
  "deliver v err s =
     (let t = push (EIP s) (push (ucast (cs_reg s)) (push (flags_word s) s));
          t = (case err of None \<Rightarrow> t | Some c \<Rightarrow> push c t)
      in t\<lparr>EIP := gate_offset (idt_entries s v), cs_reg := sel (idt_entries s v), irq_enabled := False,
           EFLAGS := EFLAGS s AND NOT 0x34100\<rparr>)"

section \<open>The stubs\<close>

definition irq_common_stub :: "instr list" where
  "irq_common_stub =
    [Pushal,
     Movl_from_sreg DS EAX, Pushl EAX,
     Movl_from_cr2 EAX, Pushl EAX,
     Movw_imm 0x10 EAX, Movw_to_sreg EAX DS, Movw_to_sreg EAX ES, Movw_to_sreg EAX FS, Movw_to_sreg EAX GS,
     Pushl ESP, Call Irq_handler,
     Addl_imm 8 ESP,
     Popl EBX, Movw_to_sreg EBX DS, Movw_to_sreg EBX ES, Movw_to_sreg EBX FS, Movw_to_sreg EBX GS,
     Popal, Addl_imm 8 ESP, Sti, Iret]"

definition isr_common_stub :: "instr list" where
  "isr_common_stub =
    [Pushal,
     Movl_from_sreg DS EAX, Pushl EAX,
     Movl_from_cr2 EAX, Pushl EAX,
     Movw_imm 0x10 EAX, Movw_to_sreg EAX DS, Movw_to_sreg EAX ES, Movw_to_sreg EAX FS, Movw_to_sreg EAX GS,
     Pushl ESP, Call Isr_handler,
     Addl_imm 8 ESP,
     Popl EBX, Movw_to_sreg EBX DS, Movw_to_sreg EBX ES, Movw_to_sreg EBX FS, Movw_to_sreg EBX GS,
     Popal, Addl_mem 8 ESP, Sti, Iret]"

definition ISR_NOERRCODE :: "nat \<Rightarrow> instr list" where
  "ISR_NOERRCODE num = [Cli, Pushl_imm 0, Pushl_imm (of_nat num)] @ isr_common_stub"

definition ISR_ERRCODE :: "nat \<Rightarrow> instr list" where
  "ISR_ERRCODE num = [Cli, Pushl_imm (of_nat num)] @ isr_common_stub"

definition IRQ :: "nat \<Rightarrow> nat \<Rightarrow> instr list" where
  "IRQ index code = [Cli, Pushl_imm 0, Pushl_imm (of_nat code)] @ irq_common_stub"

text \<open>The stub of each vector.\<close>

definition isr_stub :: "nat \<Rightarrow> instr list" where
  "isr_stub n = (if n \<in> {8, 10, 11, 12, 13, 14} then ISR_ERRCODE n else ISR_NOERRCODE n)"

definition irq_stub :: "nat \<Rightarrow> instr list" where
  "irq_stub i = IRQ i (32 + i)"

text \<open>The C functions at the labels that are called. The handlers get the address of a \<open>struct Registers\<close>; \<open>call\<close> is
  what the installed routines do, \<open>kernel_main\<close> what runs at that label.\<close>

definition registers_at :: "memory \<Rightarrow> u32 \<Rightarrow> Registers" where
  "registers_at m a = \<lparr>int_no = load32 m (a + 40), err_code = load32 m (a + 44)\<rparr>"

primrec c_function :: "(u32 \<Rightarrow> Registers \<Rightarrow> 'z cpu_scheme \<Rightarrow> (unit, 'z cpu_scheme) kres option)
    \<Rightarrow> (u32 \<Rightarrow> u32 \<Rightarrow> 'z cpu_scheme \<Rightarrow> (unit, 'z cpu_scheme) kres option) \<Rightarrow> cfun \<Rightarrow> 'z cpu_scheme \<Rightarrow> (unit, 'z cpu_scheme) kres option" where
  "c_function call kernel_main Irq_handler s = irq_handler call (registers_at (mem s) (stack_word 4 s)) s"
| "c_function call kernel_main Isr_handler s = isr_handler (registers_at (mem s) (stack_word 4 s)) s"
| "c_function call kernel_main Kernel_main s = kernel_main (stack_word 4 s) (stack_word 8 s) s"

section \<open>Saving and restoring\<close>

text \<open>The part that the two common stubs share, and the state in which it calls the handler.\<close>

definition stub_body :: "cfun \<Rightarrow> instr list" where
  "stub_body f =
    [Pushal]
    @ [Movl_from_sreg DS EAX, Pushl EAX, Movl_from_cr2 EAX, Pushl EAX,
       Movw_imm 0x10 EAX, Movw_to_sreg EAX DS, Movw_to_sreg EAX ES, Movw_to_sreg EAX FS, Movw_to_sreg EAX GS, Pushl ESP]
    @ [Call f]
    @ [Addl_imm 8 ESP, Popl EBX, Movw_to_sreg EBX DS, Movw_to_sreg EBX ES, Movw_to_sreg EBX FS, Movw_to_sreg EBX GS]
    @ [Popal]"

lemma common_stubs:
  "irq_common_stub = stub_body Irq_handler @ [Addl_imm 8 ESP, Sti, Iret]"
  "isr_common_stub = stub_body Isr_handler @ [Addl_mem 8 ESP, Sti, Iret]"
  by (simp_all add: irq_common_stub_def isr_common_stub_def stub_body_def)

text \<open>The words on the stack when the handler is entered: the return address, the argument, and the members \<open>cr2\<close> to
  \<open>eax\<close> of the structure.\<close>

definition saved_words :: "u32 \<Rightarrow> 'z cpu_scheme \<Rightarrow> u32 list" where
  "saved_words ra s = [ra, gpr s ESP - 40, CR2 s, ucast (ds_reg s), gpr s EDI, gpr s ESI, gpr s EBP, gpr s ESP, gpr s EBX, gpr s EDX, gpr s ECX, gpr s EAX]"

definition kernel_data :: "'z cpu_scheme \<Rightarrow> 'z cpu_scheme" where
  "kernel_data s = s\<lparr>ds_reg := 0x10, es_reg := 0x10, fs_reg := 0x10, gs_reg := 0x10\<rparr>"

text \<open>The state in which the handler is entered: everything is as it was but for the words below the stack pointer, the segment
  registers and \<open>eax\<close>.\<close>

definition handler_entry :: "u32 \<Rightarrow> 'z cpu_scheme \<Rightarrow> 'z cpu_scheme" where
  "handler_entry ra s =
     (kernel_data (fold push (rev (saved_words ra s)) s))\<lparr>gpr := (gpr s)(EAX := CR2 s AND 0xFFFF0000 OR 0x10, ESP := gpr s ESP - 48)\<rparr>"

lemma fold_push:
  "gpr (fold push ws s) = (gpr s)(ESP := gpr s ESP - 4 * of_nat (length ws))" "CR2 (fold push ws s) = CR2 s" "CR0 (fold push ws s) = CR0 s"
  by (induction ws arbitrary: s) (simp_all add: diff_diff_eq distrib_left)

lemma fold_push_words:
  assumes "words_at (mem s) (gpr s ESP) vs" and "4 * length ws \<le> unat (gpr s ESP)" and "unat (gpr s ESP) + 4 * length vs \<le> 2 ^ 32"
  shows "words_at (mem (fold push ws s)) (gpr (fold push ws s) ESP) (rev ws @ vs)"
  using assms
proof (induction ws arbitrary: s vs)
  case (Cons w ws)
  have sp: "4 \<le> unat (gpr s ESP)" using Cons.prems(2) by simp
  have u: "unat (gpr (push w s) ESP) = unat (gpr s ESP) - 4" using sp by (simp add: unat_sub32 word_nat)
  have "words_at (mem (push w s)) (gpr (push w s) ESP) (w # vs)"
    using words_at_push [OF Cons.prems(1) sp Cons.prems(3), of w] .
  from Cons.IH [OF this] show ?case using Cons.prems(2,3) u sp by simp
qed simp

text \<open>Pushing leaves the bytes at and above the stack pointer, and those below the new one, alone.\<close>

lemma fold_push_outside:
  assumes "4 * length ws \<le> unat (gpr s ESP)" and "unat (gpr s ESP) \<le> unat x \<or> unat x + 4 * length ws < unat (gpr s ESP)"
  shows "mem (fold push ws s) x = mem s x"
  using assms
proof (induction ws arbitrary: s)
  case (Cons w ws)
  have sp: "4 \<le> unat (gpr s ESP)" using Cons.prems(1) by simp
  have u: "unat (gpr s ESP - 4) = unat (gpr s ESP) - 4" using sp by (simp add: unat_sub32 word_nat)
  have "unat (gpr s ESP - 4) + 4 \<le> 2 ^ 32" using u sp unat_lt32 [of "gpr s ESP"] by (simp del: unat_lt32)
  then have "mem (push w s) x = mem s x"
    using store32_outside [of "gpr s ESP - 4" "mem s" w] Cons.prems(2) u sp by (auto simp: same_outside_def)
  moreover have "unat (gpr (push w s) ESP) \<le> unat x \<or> unat x + 4 * length ws < unat (gpr (push w s) ESP)"
    using Cons.prems u sp by auto
  ultimately show ?case using Cons.IH [of "push w s"] Cons.prems(1) u by simp
qed simp

lemma fold_push_more [simp]:
  "ds_reg (fold push ws s) = ds_reg s" "irq_enabled (fold push ws s) = irq_enabled s"
  by (induction ws arbitrary: s) simp_all

lemma low_word: "ucast (x AND 0xFFFF0000 OR 0x10 :: u32) = (0x10 :: u16)"
proof -
  have *: "(0xFFFF0000 :: u32) = push_bit 16 (mask 16)" by (simp add: mask_eq_exp_minus_1)
  show ?thesis unfolding * by (intro bit_word_eqI) (auto simp: bit_simps)
qed

lemma save_segments:
  "exec e [Movl_from_sreg DS EAX, Pushl EAX, Movl_from_cr2 EAX, Pushl EAX,
       Movw_imm 0x10 EAX, Movw_to_sreg EAX DS, Movw_to_sreg EAX ES, Movw_to_sreg EAX FS, Movw_to_sreg EAX GS, Pushl ESP] s =
     retK () ((kernel_data (push (gpr s ESP - 8) (push (CR2 s) (push (ucast (ds_reg s)) s))))
       \<lparr>gpr := (gpr s)(EAX := CR2 s AND 0xFFFF0000 OR 0x10, ESP := gpr s ESP - 12)\<rparr>)"
  by (simp add: exec_defs push_def Let_def kernel_data_def low_word fun_upd_twist)

abbreviation (input) save_code :: "instr list" where
  "save_code \<equiv> [Movl_from_sreg DS EAX, Pushl EAX, Movl_from_cr2 EAX, Pushl EAX,
     Movw_imm 0x10 EAX, Movw_to_sreg EAX DS, Movw_to_sreg EAX ES, Movw_to_sreg EAX FS, Movw_to_sreg EAX GS, Pushl ESP]"

lemma save_all:
  "\<exists>u. exec e ([Pushal] @ save_code) s = retK () u \<and> push ra u = handler_entry ra s
     \<and> gpr u = (gpr s)(EAX := CR2 s AND 0xFFFF0000 OR 0x10, ESP := gpr s ESP - 44)"
proof -
  let ?p = "fold push [gpr s EAX, gpr s ECX, gpr s EDX, gpr s EBX, gpr s ESP, gpr s EBP, gpr s ESI, gpr s EDI] s"
  define u where "u = (kernel_data (push (gpr s ESP - 40) (push (CR2 s) (push (ucast (ds_reg s)) ?p))))
      \<lparr>gpr := (gpr s)(EAX := CR2 s AND 0xFFFF0000 OR 0x10, ESP := gpr s ESP - 44)\<rparr>"
  have p: "gpr ?p = (gpr s)(ESP := gpr s ESP - 32)" "CR2 ?p = CR2 s" "ds_reg ?p = ds_reg s" unfolding fold_push by simp_all
  have "exec e [Pushal] s = retK () ?p" by (simp add: pushal_def)
  moreover have "exec e save_code ?p = retK () u" unfolding save_segments p u_def by (simp del: fold_simps add: p fun_upd_twist)
  moreover have "handler_entry ra s = (kernel_data (push ra (push (gpr s ESP - 40) (push (CR2 s) (push (ucast (ds_reg s)) ?p)))))
      \<lparr>gpr := (gpr s)(EAX := CR2 s AND 0xFFFF0000 OR 0x10, ESP := gpr s ESP - 48)\<rparr>"
    by (simp add: handler_entry_def saved_words_def)
  moreover have "gpr (push (gpr s ESP - 40) (push (CR2 s) (push (ucast (ds_reg s)) ?p))) ESP = gpr s ESP - 44" unfolding push_fields p by simp
  ultimately show ?thesis
    unfolding exec_append by (intro exI [of _ u]) (simp add: push_def [of ra] Let_def kernel_data_def u_def del: fold_simps exec.simps)
qed

lemma handler_entry_fields:
  "mem (handler_entry ra s) = mem (fold push (rev (saved_words ra s)) s)" "gpr (handler_entry ra s) ESP = gpr s ESP - 48"
  by (simp_all add: handler_entry_def kernel_data_def)

text \<open>The structure is in memory when the handler is entered, with the words that were on the stack above it.\<close>

lemma handler_entry_words:
  assumes "words_at (mem s) (gpr s ESP) vs" and "48 \<le> unat (gpr s ESP)" and "unat (gpr s ESP) + 4 * length vs \<le> 2 ^ 32"
  shows "words_at (mem (handler_entry ra s)) (gpr s ESP - 48) (saved_words ra s @ vs)"
  using fold_push_words [OF assms(1), of "rev (saved_words ra s)"] assms(2,3)
  unfolding handler_entry_fields fold_push by (simp add: saved_words_def)

lemma reg_fun_eq:
  "g EAX = h EAX \<Longrightarrow> g ECX = h ECX \<Longrightarrow> g EDX = h EDX \<Longrightarrow> g EBX = h EBX \<Longrightarrow> g ESP = h ESP \<Longrightarrow> g EBP = h EBP \<Longrightarrow> g ESI = h ESI \<Longrightarrow> g EDI = h EDI \<Longrightarrow> g = h"
proof (rule ext)
  fix r assume "g EAX = h EAX" "g ECX = h ECX" "g EDX = h EDX" "g EBX = h EBX" "g ESP = h ESP" "g EBP = h EBP" "g ESI = h ESI" "g EDI = h EDI"
  then show "g r = h r" by (cases r) simp_all
qed

lemma restore_all:
  assumes "words_at (mem t) (gpr t ESP) [x, y, ds, edi, esi, ebp, sp, ebx, edx, ecx, eax]"
  shows "exec e ([Addl_imm 8 ESP, Popl EBX, Movw_to_sreg EBX DS, Movw_to_sreg EBX ES, Movw_to_sreg EBX FS, Movw_to_sreg EBX GS] @ [Popal]) t =
    retK () (t\<lparr>ds_reg := ucast ds, es_reg := ucast ds, fs_reg := ucast ds, gs_reg := ucast ds,
      gpr := (\<lambda>_. 0)(EAX := eax, ECX := ecx, EDX := edx, EBX := ebx, ESP := gpr t ESP + 44, EBP := ebp, ESI := esi, EDI := edi)\<rparr>)"
proof -
  let ?ws = "[x, y, ds, edi, esi, ebp, sp, ebx, edx, ecx, eax]"
  have w: "load32 (mem t) (gpr t ESP + 4 * of_nat i) = ?ws ! i" if "i < 11" for i using words_at_nth [OF assms, of i] that by simp
  have "exec e [Addl_imm 8 ESP, Popl EBX, Movw_to_sreg EBX DS, Movw_to_sreg EBX ES, Movw_to_sreg EBX FS, Movw_to_sreg EBX GS] t =
    retK () (t\<lparr>ds_reg := ucast ds, es_reg := ucast ds, fs_reg := ucast ds, gs_reg := ucast ds, gpr := (gpr t)(EBX := ds, ESP := gpr t ESP + 12)\<rparr>)"
    using w [of 2] by (simp add: exec_defs fun_upd_twist add.commute [of _ "gpr t ESP"])
  moreover have "exec e [Popal] (t\<lparr>ds_reg := ucast ds, es_reg := ucast ds, fs_reg := ucast ds, gs_reg := ucast ds, gpr := (gpr t)(EBX := ds, ESP := gpr t ESP + 12)\<rparr>) =
    retK () (t\<lparr>ds_reg := ucast ds, es_reg := ucast ds, fs_reg := ucast ds, gs_reg := ucast ds,
      gpr := (\<lambda>_. 0)(EAX := eax, ECX := ecx, EDX := edx, EBX := ebx, ESP := gpr t ESP + 44, EBP := ebp, ESI := esi, EDI := edi)\<rparr>)"
    using w [of 3] w [of 4] w [of 5] w [of 7] w [of 8] w [of 9] w [of 10]
    by (simp add: popal_def stack_word_def add.commute [of _ "gpr t ESP"]) (intro cpu.fold_congs reg_fun_eq refl; simp)
  ultimately show ?thesis unfolding exec_append by simp
qed


lemma ucast_sreg [simp]: "ucast (ucast (x :: u16) :: u32) = x"
  by (rule bit_word_eqI) (auto simp: bit_simps)

text \<open>The common part of the stubs: when the handler returns and has kept the structure it was given, the registers are as they were.\<close>

lemma stub_body_exec:
  assumes "48 \<le> unat (gpr s ESP)" and "run e f (handler_entry (ret_addr e) s) = retK () t"
    and "\<And>x. unat (gpr s ESP) - 40 \<le> unat x \<Longrightarrow> unat x < unat (gpr s ESP) \<Longrightarrow> mem t x = mem (handler_entry (ret_addr e) s) x"
  shows "exec e (stub_body f) s =
    retK () (t\<lparr>ds_reg := ds_reg s, es_reg := ds_reg s, fs_reg := ds_reg s, gs_reg := ds_reg s, gpr := gpr s\<rparr>)"
proof -
  let ?H = "handler_entry (ret_addr e) s" and ?sp = "gpr s ESP"
  let ?regs = "[CR2 s, ucast (ds_reg s), gpr s EDI, gpr s ESI, gpr s EBP, ?sp, gpr s EBX, gpr s EDX, gpr s ECX, gpr s EAX]"
  obtain u where u: "exec e ([Pushal] @ save_code) s = retK () u" "push (ret_addr e) u = ?H"
      "gpr u = (gpr s)(EAX := CR2 s AND 0xFFFF0000 OR 0x10, ESP := ?sp - 44)"
    using save_all [of e s "ret_addr e"] by blast
  define t1 where "t1 = t\<lparr>gpr := (gpr u)(EAX := scratch e EAX, ECX := scratch e ECX, EDX := scratch e EDX)\<rparr>"
  have sp: "gpr t1 ESP = ?sp - 44" "mem t1 = mem t" by (simp_all add: t1_def u(3))
  have "words_at (mem ?H) (?sp - 48) ([ret_addr e, ?sp - 40] @ ?regs)"
    using handler_entry_words [of s "[]" "ret_addr e"] assms(1) unat_lt32 [of ?sp] by (simp add: saved_words_def del: unat_lt32)
  then have H: "words_at (mem ?H) (?sp - 40) ?regs" unfolding words_at_append by simp
  have b: "unat (?sp - 40) = unat ?sp - 40" using assms(1) by (simp add: unat_sub32 word_nat)
  have n: "length ?regs = 10" by simp
  have "words_at (mem t) (?sp - 40) ?regs"
  proof (rule words_at_cong [THEN iffD2, OF _ _ H])
    show "mem t x = mem ?H x" if "unat (?sp - 40) \<le> unat x" "unat x < unat (?sp - 40) + 4 * length ?regs" for x
      using assms(3) [of x] that assms(1) unfolding b n by simp
    show "unat (?sp - 40) + 4 * length ?regs \<le> 2 ^ 32" using assms(1) unat_lt32 [of ?sp] unfolding b n by (simp del: unat_lt32)
  qed
  then have w: "words_at (mem t1) (gpr t1 ESP) (load32 (mem t) (?sp - 44) # ?regs)" unfolding sp by simp
  have c: "exec e [Call f] u = retK () t1" using assms(2) by (simp add: call_c_def u(2) t1_def)
  have g: "(\<lambda>_. 0)(EAX := gpr s EAX, ECX := gpr s ECX, EDX := gpr s EDX, EBX := gpr s EBX, ESP := gpr t1 ESP + 44, EBP := gpr s EBP,
      ESI := gpr s ESI, EDI := gpr s EDI) = gpr s" by (rule reg_fun_eq) (simp_all add: sp)
  have parts: "stub_body f = ([Pushal] @ save_code) @ [Call f]
    @ ([Addl_imm 8 ESP, Popl EBX, Movw_to_sreg EBX DS, Movw_to_sreg EBX ES, Movw_to_sreg EBX FS, Movw_to_sreg EBX GS] @ [Popal])"
    by (simp add: stub_body_def)
  have "exec e (stub_body f) s = retK () (t1\<lparr>ds_reg := ucast (ucast (ds_reg s) :: u32), es_reg := ucast (ucast (ds_reg s) :: u32),
      fs_reg := ucast (ucast (ds_reg s) :: u32), gs_reg := ucast (ucast (ds_reg s) :: u32), gpr := gpr s\<rparr>)"
    unfolding parts exec_append [of e "[Pushal] @ save_code"] exec_append [of e "[Call f]"] u(1) bindK_simps c restore_all [OF w] g ..
  then show ?thesis by (simp add: t1_def)
qed


text \<open>What the handler reads: the two words pushed last before the common stub.\<close>

lemma handler_argument:
  assumes "words_at (mem s) (gpr s ESP) (n # c # vs)" and "48 \<le> unat (gpr s ESP)" and "unat (gpr s ESP) + 8 \<le> 2 ^ 32"
  shows "registers_at (mem (handler_entry ra s)) (stack_word 4 (handler_entry ra s)) = \<lparr>int_no = n, err_code = c\<rparr>"
proof -
  let ?H = "handler_entry ra s" and ?sp = "gpr s ESP"
  have "words_at (mem s) ?sp [n, c]" using assms(1) by simp
  from handler_entry_words [OF this assms(2), of ra] assms(3)
  have w: "words_at (mem ?H) (?sp - 48) (saved_words ra s @ [n, c])" by simp
  note x = words_at_nth [OF w]
  have "stack_word 4 ?H = ?sp - 40"
    using x [of 1] by (simp add: stack_word_def handler_entry_fields saved_words_def)
  moreover have "load32 (mem ?H) ?sp = n" "load32 (mem ?H) (?sp + 4) = c"
    using x [of 12] x [of 13] by (simp_all add: saved_words_def add.commute [of _ ?sp] nth_append)
  ultimately show ?thesis by (simp add: registers_at_def add.commute [of _ ?sp])
qed

lemma stub_body_panic:
  assumes "run e f (handler_entry (ret_addr e) s) = panicK p"
  shows "exec e (stub_body f @ xs) s = panicK p"
proof -
  obtain u where u: "exec e ([Pushal] @ save_code) s = retK () u" "push (ret_addr e) u = handler_entry (ret_addr e) s"
    using save_all [of e s "ret_addr e"] by blast
  have c: "exec e [Call f] u = panicK p" using assms by (simp add: call_c_def u(2))
  obtain ys where parts: "stub_body f @ xs = ([Pushal] @ save_code) @ [Call f] @ ys" by (simp add: stub_body_def)
  show ?thesis
    unfolding parts exec_append [of e "[Pushal] @ save_code"] exec_append [of e "[Call f]"] u(1) bindK_simps c ..
qed

section \<open>Interrupted code\<close>

text \<open>The state at the common stub, with the vector's number and an error code on the stack.\<close>

definition interrupted :: "u8 \<Rightarrow> u32 \<Rightarrow> u32 \<Rightarrow> 'z cpu_scheme \<Rightarrow> 'z cpu_scheme" where
  "interrupted v c n s = push n (push c (deliver v None s))"

lemma stub_heads:
  "exec e [Cli, Pushl_imm 0, Pushl_imm n] (deliver v None s) = retK () (interrupted v 0 n s)"
  "exec e [Cli, Pushl_imm n] (deliver v (Some c) s) = retK () (interrupted v c n s)"
  by (simp_all add: interrupted_def deliver_def push_def Let_def)

lemma interrupted_fields:
  "mem (interrupted v c n s) = mem (fold push [flags_word s, ucast (cs_reg s), EIP s, c, n] s)"
  "gpr (interrupted v c n s) = (gpr s)(ESP := gpr s ESP - 20)" "ds_reg (interrupted v c n s) = ds_reg s"
  by (simp_all add: interrupted_def deliver_def Let_def)

lemma interrupted_words:
  assumes "20 \<le> unat (gpr s ESP)"
  shows "words_at (mem (interrupted v c n s)) (gpr s ESP - 20) [n, c, EIP s, ucast (cs_reg s), flags_word s]"
  using fold_push_words [of s "[]" "[flags_word s, ucast (cs_reg s), EIP s, c, n]"] assms unat_lt32 [of "gpr s ESP"]
  unfolding interrupted_fields fold_push by (simp del: unat_lt32 fold_simps)

text \<open>Entering the handler writes only the 68 bytes below the stack pointer.\<close>

lemma entry_mem:
  assumes "68 \<le> unat (gpr s ESP)" and "unat (gpr s ESP) \<le> unat x \<or> unat x + 68 < unat (gpr s ESP)"
  shows "mem (handler_entry ra (interrupted v c n s)) x = mem s x"
proof -
  let ?b = "interrupted v c n s"
  have b: "unat (gpr ?b ESP) = unat (gpr s ESP) - 20" unfolding interrupted_fields(2) using assms(1) by (simp add: unat_sub32 word_nat)
  have "length (saved_words ra ?b) = 12" by (simp add: saved_words_def)
  then have "mem (handler_entry ra ?b) x = mem ?b x"
    unfolding handler_entry_fields using assms b by (intro fold_push_outside) auto
  also have "\<dots> = mem s x" unfolding interrupted_fields(1) using assms by (intro fold_push_outside) auto
  finally show ?thesis .
qed

lemma flags_word_IF: "bit (flags_word s) 9 \<longleftrightarrow> irq_enabled s"
proof -
  have "(0x200 :: u32) = push_bit 9 1" by simp
  then show ?thesis unfolding flags_word_def by (simp add: bit_simps)
qed

lemma iret_exec:
  assumes "words_at (mem t) (gpr t ESP) [ip, cs, fl]"
  shows "exec e [Sti, Iret] t = retK () (t\<lparr>EIP := ip, cs_reg := ucast cs, EFLAGS := fl, irq_enabled := bit fl 9, gpr := (gpr t)(ESP := gpr t ESP + 12)\<rparr>)"
  using assms by (simp add: exec_defs load_flags_def add.commute [of _ "gpr t ESP"])

text \<open>The handler keeps the frame: the structure and the words the processor pushed.\<close>

definition frame_kept :: "u32 \<Rightarrow> memory \<Rightarrow> memory \<Rightarrow> bool" where
  "frame_kept sp m m' \<longleftrightarrow> (\<forall>x. unat sp - 60 \<le> unat x \<and> unat x < unat sp \<longrightarrow> m' x = m x)"

lemma interrupted_exec:
  fixes s :: "'z cpu_scheme"
  assumes "68 \<le> unat (gpr s ESP)" and "es_reg s = ds_reg s" "fs_reg s = ds_reg s" "gs_reg s = ds_reg s"
    and "run e f (handler_entry (ret_addr e) (interrupted v c n s)) = retK () t"
    and "frame_kept (gpr s ESP) (mem (handler_entry (ret_addr e) (interrupted v c n s))) (mem t)"
  shows "exec e (stub_body f) (interrupted v c n s) =
      retK () (t\<lparr>ds_reg := ds_reg s, es_reg := es_reg s, fs_reg := fs_reg s, gs_reg := gs_reg s, gpr := (gpr s)(ESP := gpr s ESP - 20)\<rparr>)"
    "words_at (mem t) (gpr s ESP - 20) [n, c, EIP s, ucast (cs_reg s), flags_word s]"
proof -
  let ?b = "interrupted v c n s"
  have b: "unat (gpr s ESP - 20) = unat (gpr s ESP) - 20" using assms(1) by (simp add: unat_sub32 word_nat)
  have w: "words_at (mem ?b) (gpr ?b ESP) [n, c, EIP s, ucast (cs_reg s), flags_word s]"
    using interrupted_words [of s v c n] assms(1) by (simp add: interrupted_fields(2))
  have "exec e (stub_body f) ?b =
      retK () (t\<lparr>ds_reg := ds_reg ?b, es_reg := ds_reg ?b, fs_reg := ds_reg ?b, gs_reg := ds_reg ?b, gpr := gpr ?b\<rparr>)"
    using assms(5,6,1) b by (intro stub_body_exec) (simp_all add: interrupted_fields(2) frame_kept_def)
  with assms(2-4) show "exec e (stub_body f) ?b =
      retK () (t\<lparr>ds_reg := ds_reg s, es_reg := es_reg s, fs_reg := fs_reg s, gs_reg := gs_reg s, gpr := (gpr s)(ESP := gpr s ESP - 20)\<rparr>)"
    by (simp add: interrupted_fields)
  have "words_at (mem (handler_entry (ret_addr e) ?b)) (gpr ?b ESP - 48) (saved_words (ret_addr e) ?b @ [n, c, EIP s, ucast (cs_reg s), flags_word s])"
    using b assms(1) unat_lt32 [of "gpr s ESP"] by (intro handler_entry_words [OF w]) (simp_all add: interrupted_fields(2) del: unat_lt32)
  then have "words_at (mem (handler_entry (ret_addr e) ?b)) (gpr s ESP - 20) [n, c, EIP s, ucast (cs_reg s), flags_word s]"
    unfolding words_at_append by (simp add: saved_words_def interrupted_fields(2))
  moreover have "mem t x = mem (handler_entry (ret_addr e) ?b) x"
    if "unat (gpr s ESP - 20) \<le> unat x" "unat x < unat (gpr s ESP - 20) + 4 * length [n, c, EIP s, ucast (cs_reg s), flags_word s]" for x
    using that assms(1,6) unfolding b by (simp add: frame_kept_def)
  moreover have "unat (gpr s ESP - 20) + 4 * length [n, c, EIP s, ucast (cs_reg s), flags_word s] \<le> 2 ^ 32"
    using b assms(1) unat_lt32 [of "gpr s ESP"] by (simp del: unat_lt32)
  ultimately show "words_at (mem t) (gpr s ESP - 20) [n, c, EIP s, ucast (cs_reg s), flags_word s]"
    using words_at_cong [of "gpr s ESP - 20" "[n, c, EIP s, ucast (cs_reg s), flags_word s]" "mem t" "mem (handler_entry (ret_addr e) ?b)"] by blast
qed

lemma interrupted_argument:
  assumes "68 \<le> unat (gpr s ESP)"
  shows "registers_at (mem (handler_entry ra (interrupted v c n s))) (stack_word 4 (handler_entry ra (interrupted v c n s))) = \<lparr>int_no = n, err_code = c\<rparr>"
proof -
  have b: "unat (gpr s ESP - 20) = unat (gpr s ESP) - 20" using assms by (simp add: unat_sub32 word_nat)
  show ?thesis
    using interrupted_words [of s v c n] assms b unat_lt32 [of "gpr s ESP"]
    by (intro handler_argument [where vs = "[EIP s, ucast (cs_reg s), flags_word s]"]) (simp_all add: interrupted_fields(2) del: unat_lt32 words_at.simps)
qed

lemma irq_stub_exec:
  fixes s :: "'z cpu_scheme"
  assumes "i < 16" and "68 \<le> unat (gpr s ESP)" and "es_reg s = ds_reg s" "fs_reg s = ds_reg s" "gs_reg s = ds_reg s"
    and "u = handler_entry ra (interrupted (of_nat (32 + i)) 0 (of_nat (32 + i)) s)"
    and "irq_handler call \<lparr>int_no = of_nat (32 + i), err_code = 0\<rparr> u = retK () t" and "frame_kept (gpr s ESP) (mem u) (mem t)"
  shows "exec \<lparr>run = c_function call kernel_main, ret_addr = ra, scratch = sc\<rparr> (irq_stub i) (deliver (of_nat (32 + i)) None s) =
    retK () (t\<lparr>gpr := gpr s, EIP := EIP s, cs_reg := cs_reg s, ds_reg := ds_reg s, es_reg := es_reg s, fs_reg := fs_reg s, gs_reg := gs_reg s,
      EFLAGS := flags_word s, irq_enabled := irq_enabled s\<rparr>)"
proof -
  let ?e = "\<lparr>run = c_function call kernel_main, ret_addr = ra, scratch = sc\<rparr> :: 'z env"
  let ?n = "of_nat (32 + i) :: u32" and ?v = "of_nat (32 + i) :: u8"
  let ?b = "interrupted ?v 0 ?n s"
  let ?t1 = "t\<lparr>ds_reg := ds_reg s, es_reg := es_reg s, fs_reg := fs_reg s, gs_reg := gs_reg s, gpr := (gpr s)(ESP := gpr s ESP - 20)\<rparr>"
  have "run ?e Irq_handler (handler_entry (ret_addr ?e) ?b) = retK () t"
    using assms(6,7) interrupted_argument [OF assms(2), of ra ?v 0 ?n] by (simp del: of_nat_add)
  note x = interrupted_exec [OF assms(2-5) this] assms(6,8)
  have body: "exec ?e (stub_body Irq_handler) ?b = retK () ?t1"
    and w: "words_at (mem t) (gpr s ESP - 20) [?n, 0, EIP s, ucast (cs_reg s), flags_word s]" using x by simp_all
  let ?t2 = "?t1\<lparr>gpr := (gpr s)(ESP := gpr s ESP - 12)\<rparr>"
  have add: "exec ?e [Addl_imm 8 ESP] ?t1 = retK () ?t2" by (simp add: set_gpr_def)
  have "words_at (mem ?t2) (gpr ?t2 ESP) [EIP s, ucast (cs_reg s), flags_word s]" using w by simp
  note ir = iret_exec [OF this, of ?e]
  have parts: "irq_stub i = [Cli, Pushl_imm 0, Pushl_imm ?n] @ stub_body Irq_handler @ [Addl_imm 8 ESP] @ [Sti, Iret]"
    by (simp add: irq_stub_def IRQ_def common_stubs)
  show ?thesis
    unfolding parts exec_append stub_heads bindK_simps body add ir by (simp add: flags_word_IF)
qed

text \<open>The number pushed last is the one the handler reads, whatever is below it on the stack.\<close>

lemma head_argument:
  assumes "52 \<le> unat (gpr y ESP)" and "unat (gpr y ESP) + 4 \<le> 2 ^ 32"
  shows "int_no (registers_at (mem (handler_entry ra (push n y))) (stack_word 4 (handler_entry ra (push n y)))) = n"
proof -
  let ?w = "push n y"
  have u: "unat (gpr ?w ESP) = unat (gpr y ESP) - 4" using assms(1) by (simp add: unat_sub32 word_nat)
  have "words_at (mem ?w) (gpr ?w ESP) (n # load32 (mem ?w) (gpr ?w ESP + 4) # [])" by simp
  from handler_argument [OF this, of ra] u assms show ?thesis by simp
qed

lemma deliver_stack:
  assumes "72 \<le> unat (gpr s ESP)"
  shows "56 \<le> unat (gpr (deliver v err s) ESP) \<and> unat (gpr (deliver v err s) ESP) + 12 \<le> 2 ^ 32"
proof -
  have "gpr (deliver v err s) ESP = gpr s ESP - (case err of None \<Rightarrow> 12 | Some _ \<Rightarrow> 16)"
    by (simp add: deliver_def Let_def split: option.split)
  moreover have "unat (gpr s ESP - 12) = unat (gpr s ESP) - 12" "unat (gpr s ESP - 16) = unat (gpr s ESP) - 16"
    using assms by (simp_all add: unat_sub32 word_nat)
  ultimately show ?thesis using assms unat_lt32 [of "gpr s ESP"] by (cases err) (auto simp del: unat_lt32)
qed

section \<open>Properties\<close>

text \<open>C35: an interrupt line is transparent to the code it interrupts. When the processor takes an interrupt on line \<open>i\<close>,
  the stub calls \<open>irq_handler\<close> with a structure that holds the number \<open>32 + i\<close> and error code 0; when the handler returns with
  the frame intact, whatever else it did, the interrupted code goes on at the instruction it was at, with every register,
  the stack pointer, the code and data segments and the flags, the interrupt flag among them, as they were.\<close>

theorem irq_stub_transparent:
  fixes s :: "'z cpu_scheme"
  assumes "i < 16" and "68 \<le> unat (gpr s ESP)" and "es_reg s = ds_reg s" "fs_reg s = ds_reg s" "gs_reg s = ds_reg s"
    and "u = handler_entry ra (interrupted (of_nat (32 + i)) 0 (of_nat (32 + i)) s)"
    and "irq_handler call \<lparr>int_no = of_nat (32 + i), err_code = 0\<rparr> u = retK () t" and "frame_kept (gpr s ESP) (mem u) (mem t)"
  shows "exec \<lparr>run = c_function call kernel_main, ret_addr = ra, scratch = sc\<rparr> (irq_stub i) (deliver (of_nat (32 + i)) None s) =
    retK () (t\<lparr>gpr := gpr s, EIP := EIP s, cs_reg := cs_reg s, ds_reg := ds_reg s, es_reg := es_reg s, fs_reg := fs_reg s, gs_reg := gs_reg s,
      EFLAGS := flags_word s, irq_enabled := irq_enabled s\<rparr>)"
  using assms by (rule irq_stub_exec)

text \<open>Witness of C35: line 9, with no routine installed, is acknowledged at both controllers and the code goes on.\<close>

theorem irq_stub_transparent_witness:
  "\<exists>t. exec \<lparr>run = c_function (\<lambda>_ _ s. retK () s) (\<lambda>_ _ s. retK () s), ret_addr = 0xC0101111, scratch = \<lambda>_. 0\<rparr> (irq_stub 9) (deliver 41 None (example_cpu [])) = retK () t
     \<and> gpr t ESP = 0xC0110000 \<and> gpr t EBX = 7 \<and> EIP t = 0xC0101234 \<and> cs_reg t = 8 \<and> irq_enabled t"
proof -
  let ?s = "example_cpu []" and ?call = "\<lambda>_ _ s. retK () s"
  let ?u = "handler_entry 0xC0101111 (interrupted (of_nat (32 + 9)) 0 (of_nat (32 + 9)) ?s)"
  obtain t where t: "irq_handler ?call \<lparr>int_no = of_nat (32 + 9), err_code = 0\<rparr> ?u = retK () t" "mem t = mem ?u"
    by (simp add: irq_handler_def Let_def outb_def)
  have "frame_kept (gpr ?s ESP) (mem ?u) (mem t)" by (simp add: t(2) frame_kept_def)
  from irq_stub_transparent [OF _ _ _ _ _ refl t(1) this, of "\<lambda>_ _ s. retK () s" "\<lambda>_. 0"]
  show ?thesis by simp
qed

text \<open>C36: every exception ends in \<open>abort\<close> with its own message. For each of the vectors 0 to 31, whether or not the processor pushes an error
  code for it, \<open>isr_handler\<close> reads the vector's number from the structure the stub built,
  and the message is the one of that number.\<close>

theorem exception_stub_panics:
  fixes s :: "'z cpu_scheme"
  assumes "n < 32" and "72 \<le> unat (gpr s ESP)"
  shows "exec \<lparr>run = c_function call kernel_main, ret_addr = ra, scratch = sc\<rparr> (isr_stub n) (deliver (of_nat n) err s) =
    panicK (Abort (exception_messages ! n))"
proof -
  let ?e = "\<lparr>run = c_function call kernel_main, ret_addr = ra, scratch = sc\<rparr> :: 'z env" and ?n = "of_nat n :: u32"
  let ?d = "deliver (of_nat n) err s"
  have n: "of_nat n < (32 :: u32)" "unat ?n = n" using assms(1) by (simp_all add: unat_of_nat word_nat)
  have "run ?e Isr_handler (handler_entry (ret_addr ?e) (push ?n y)) = panicK (Abort (exception_messages ! n))"
    if "52 \<le> unat (gpr y ESP)" "unat (gpr y ESP) + 4 \<le> 2 ^ 32" for y
    using head_argument [OF that, of ra ?n] n by (simp add: isr_handler_def)
  note p = stub_body_panic [OF this]
  have sp: "56 \<le> unat (gpr ?d ESP)" "unat (gpr ?d ESP) + 12 \<le> 2 ^ 32" using deliver_stack [OF assms(2), of "of_nat n" err] by simp_all
  have u: "unat (gpr ?d ESP - 4) = unat (gpr ?d ESP) - 4" using sp by (simp add: unat_sub32 word_nat)
  have irq: "?d\<lparr>irq_enabled := False\<rparr> = ?d" by (simp add: deliver_def Let_def)
  have head: "exec ?e [Cli, Pushl_imm 0, Pushl_imm ?n] ?d = retK () (push ?n (push 0 ?d))" "exec ?e [Cli, Pushl_imm ?n] ?d = retK () (push ?n ?d)"
    using irq by simp_all
  show ?thesis
  proof (cases "n \<in> {8, 10, 11, 12, 13, 14}")
    case False
    then have "isr_stub n = [Cli, Pushl_imm 0, Pushl_imm ?n] @ stub_body Isr_handler @ [Addl_mem 8 ESP, Sti, Iret]"
      by (simp add: isr_stub_def ISR_NOERRCODE_def common_stubs)
    moreover have "52 \<le> unat (gpr (push 0 ?d) ESP)" "unat (gpr (push 0 ?d) ESP) + 4 \<le> 2 ^ 32" using sp u by simp_all
    ultimately show ?thesis by (simp only: exec_append [of _ "[Cli, Pushl_imm 0, Pushl_imm ?n]"] head bindK_simps p)
  next
    case True
    then have "isr_stub n = [Cli, Pushl_imm ?n] @ stub_body Isr_handler @ [Addl_mem 8 ESP, Sti, Iret]"
      by (auto simp: isr_stub_def ISR_ERRCODE_def common_stubs)
    moreover have "52 \<le> unat (gpr ?d ESP)" "unat (gpr ?d ESP) + 4 \<le> 2 ^ 32" using sp by simp_all
    ultimately show ?thesis by (simp only: exec_append [of _ "[Cli, Pushl_imm ?n]"] head bindK_simps p)
  qed
qed

text \<open>Witness of C36: a page fault, an alignment check, for which the processor pushes an error code and the stub another, and a division by zero.\<close>

theorem exception_stub_panics_witness:
  "exec \<lparr>run = c_function (\<lambda>_ _ s. retK () s) (\<lambda>_ _ s. retK () s), ret_addr = 0xC0101111, scratch = \<lambda>_. 0\<rparr> (isr_stub 14) (deliver 14 (Some 2) (example_cpu [])) = panicK (Abort ''page fault'')
   \<and> exec \<lparr>run = c_function (\<lambda>_ _ s. retK () s) (\<lambda>_ _ s. retK () s), ret_addr = 0xC0101111, scratch = \<lambda>_. 0\<rparr> (isr_stub 17) (deliver 17 (Some 0) (example_cpu [])) = panicK (Abort ''alignment fault'')
   \<and> exec \<lparr>run = c_function (\<lambda>_ _ s. retK () s) (\<lambda>_ _ s. retK () s), ret_addr = 0xC0101111, scratch = \<lambda>_. 0\<rparr> (isr_stub 0) (deliver 0 (None) (example_cpu [])) = panicK (Abort ''division by zero'')"
  using exception_stub_panics [of 14 "example_cpu []" "\<lambda>_ _ s. retK () s" "\<lambda>_ _ s. retK () s" "0xC0101111" "\<lambda>_. 0" "Some 2"]
    exception_stub_panics [of 17 "example_cpu []" "\<lambda>_ _ s. retK () s" "\<lambda>_ _ s. retK () s" "0xC0101111" "\<lambda>_. 0" "Some 0"]
    exception_stub_panics [of 0 "example_cpu []" "\<lambda>_ _ s. retK () s" "\<lambda>_ _ s. retK () s" "0xC0101111" "\<lambda>_. 0" "None"]
  by (simp add: exception_messages_def)




section \<open>Typing\<close>

lemma push_kept [simp]:
  "irq_routines (push w s) = irq_routines s" "SHIFT_pressed (push w s) = SHIFT_pressed s" "terminal_row (push w s) = terminal_row s"
  "terminal_column (push w s) = terminal_column s" "terminal_color (push w s) = terminal_color s" "terminal_buffer (push w s) = terminal_buffer s"
  by (simp_all add: push_def Let_def)

lemma entry_kept:
  assumes "u = handler_entry ra (interrupted v c n s)"
  shows "irq_routines u = irq_routines s" "SHIFT_pressed u = SHIFT_pressed s" "terminal_row u = terminal_row s"
    "terminal_column u = terminal_column s" "terminal_color u = terminal_color s" "terminal_buffer u = terminal_buffer s"
  by (simp_all add: assms handler_entry_def kernel_data_def saved_words_def interrupted_def deliver_def Let_def)

text \<open>C10: a key press, from the interrupt to the screen and back. Whatever code runs, when line 1 is raised with a key that is neither a
  modifier, backspace nor, in a debug build, the unshifted \<open>]\<close>, the stub, \<open>irq_handler\<close> and the keyboard's handler print
  the key's entry of the layout table that the shift key selects after what the screen showed, the interrupt is acknowledged, and the code goes on
  with its registers, segments and flags unchanged. This is so for the break code as for the make code: every key is typed
  again when it is released. The 68 bytes below the stack pointer must lie apart from the screen, the frame of \<open>printf\<close>, its argument and its format.\<close>

theorem keystroke_correct:
  fixes s :: "'z cpu_scheme"
  assumes "68 \<le> unat (gpr s ESP)" and "es_reg s = ds_reg s" "fs_reg s = ds_reg s" "gs_reg s = ds_reg s"
    and "irq_routines s 1 = h" and "h \<noteq> NULL" and "call h = irq_1_handler l inb" and "\<forall>t. inb 0x60 t = (b, t)"
    and "k = (ucast (b AND 0x7F) :: u32)" and "k \<noteq> 0x1D" and "k \<noteq> 0x2A" and "k \<noteq> 0x36" and "k \<noteq> 0x38"
    and "SHIFT_pressed s \<or> \<not> k_debug l \<or> k \<noteq> 0x1B" and "v = (if SHIFT_pressed s then uppercase else lowercase) ! unat k"
    and "ucast v \<noteq> (8 :: u8)" and "frame_ok (k_fp l)" and "displays s tx" and "\<forall>j<4. safe (k_fp l) (k_arg l + j)"
    and "text_safe (k_fp l) (store_words (mem s) (k_arg l) [v]) (k_lit_c l) [37, 99]"
    and "\<forall>x. unat (gpr s ESP) - 68 \<le> unat x \<and> unat x < unat (gpr s ESP) \<longrightarrow> safe (k_fp l) x \<and> \<not> x - k_arg l < 4 \<and> \<not> x - k_lit_c l < 3"
  shows "\<exists>t. exec \<lparr>run = c_function call kernel_main, ret_addr = ra, scratch = sc\<rparr> (irq_stub 1) (deliver 33 None s) = retK () t
    \<and> displays t (tx @ [ucast v]) \<and> hd (port_log t) = (PIC1, PIC_EOI)
    \<and> gpr t = gpr s \<and> EIP t = EIP s \<and> cs_reg t = cs_reg s \<and> ds_reg t = ds_reg s \<and> es_reg t = es_reg s \<and> fs_reg t = fs_reg s \<and> gs_reg t = gs_reg s
    \<and> flags_word t = flags_word s \<and> irq_enabled t = irq_enabled s"
proof -
  let ?e = "\<lparr>run = c_function call kernel_main, ret_addr = ra, scratch = sc\<rparr> :: 'z env"
  define u where "u = handler_entry ra (interrupted 33 0 33 s)"
  note kept = entry_kept [OF u_def]
  have mu: "mem u x = mem s x" if "\<not> safe (k_fp l) x \<or> x - k_arg l < 4 \<or> x - k_lit_c l < 3" for x
  proof -
    have "\<not> (unat (gpr s ESP) - 68 \<le> unat x \<and> unat x < unat (gpr s ESP))" using assms(21) that by blast
    then have "unat (gpr s ESP) \<le> unat x \<or> unat x + 68 < unat (gpr s ESP)" using assms(1) by linarith
    then show ?thesis unfolding u_def by (rule entry_mem [OF assms(1)])
  qed
  have "displays u tx" using assms(18) kept mu by (subst displays_cong [where s = s]) (auto simp: safe_def)
  moreover have "text_safe (k_fp l) (store_words (mem u) (k_arg l) [v]) (k_lit_c l) [37, 99]"
  proof -
    have "store_words (mem u) (k_arg l) [v] (k_lit_c l + of_nat i) = store_words (mem s) (k_arg l) [v] (k_lit_c l + of_nat i)" if "i < 3" for i
      using mu [of "k_lit_c l + of_nat i"] that by (simp add: store32_def word_nat unat_of_nat)
    from this [of 0] this [of 1] this [of 2] assms(20) show ?thesis
      unfolding text_safe_def text_at_def by (auto simp: less_Suc_eq)
  qed
  ultimately obtain t where t: "irq_handler call \<lparr>int_no = 33, err_code = 0\<rparr> u = retK () t" "displays t (tx @ [ucast v])"
      "hd (port_log t) = (0x20, 0x20)" "\<forall>a. safe (k_fp l) a \<and> \<not> a - k_arg l < 4 \<longrightarrow> mem t a = mem u a"
    using irq_1_types [of u h call l inb b k v tx 0] assms(5-17,19) kept by auto
  have "frame_kept (gpr s ESP) (mem u) (mem t)" using t(4) assms(1,21) by (auto simp: frame_kept_def)
  then have "exec ?e (irq_stub 1) (deliver 33 None s) =
      retK () (t\<lparr>gpr := gpr s, EIP := EIP s, cs_reg := cs_reg s, ds_reg := ds_reg s, es_reg := es_reg s, fs_reg := fs_reg s, gs_reg := gs_reg s,
        EFLAGS := flags_word s, irq_enabled := irq_enabled s\<rparr>)" (is "_ = retK () ?t")
    using irq_stub_exec [of 1 s u ra call t kernel_main sc] assms(1-4) t(1) by (simp add: u_def)
  moreover have "displays ?t tx' = displays t tx'" for tx' by (rule displays_cong) simp_all
  moreover have "flags_word ?t = flags_word s" by (simp add: flags_word_def)
  ultimately show ?thesis using t(2,3) by (intro exI [of _ ?t]) simp
qed

text \<open>A processor with the keyboard's handler installed, for the witness: the literal \<open>"%c"\<close> is at \<open>0x5000\<close>.\<close>

definition typing_cpu :: cpu where
  "typing_cpu = (keyboard_init 0xC0107000 (fresh_tty [37, 99, 0] \<lparr>CTRL_pressed = False, SHIFT_pressed = True, ALT_pressed = False,
      gdt_entries = \<lambda>_. gdt_gate 0 0 0 0, gdt_ptr = \<lparr>gdtr_limit = 0, gdtr_base = 0\<rparr>, tss_entry = zero_tss,
      gdtr = \<lparr>gdtr_limit = 0, gdtr_base = 0\<rparr>, cs_reg = 8, ds_reg = 0, es_reg = 0, fs_reg = 0, gs_reg = 0, ss_reg = 0x10, task_reg = 0,
      gpr = \<lambda>_. 0, EIP = 0, EFLAGS = 0x202, CR0 = 0x80010011, CR2 = 0\<rparr>))
    \<lparr>irq_enabled := True, ds_reg := 0x10, es_reg := 0x10, fs_reg := 0x10, gs_reg := 0x10, gpr := (\<lambda>_. 7)(ESP := 0xC0110000), EIP := 0xC0101234\<rparr>"

text \<open>Witness of C10: the break code of \<open>a\<close> with shift up types an \<open>a\<close>.\<close>

theorem keystroke_correct_witness:
  "\<exists>t. exec \<lparr>run = c_function (\<lambda>_. irq_1_handler example_layout (\<lambda>_ t. (0x9E, t))) (\<lambda>_ _ s. retK () s), ret_addr = 0xC0101111, scratch = \<lambda>_. 0\<rparr>
       (irq_stub 1) (deliver 33 None typing_cpu) = retK () t
     \<and> displays t [97] \<and> EIP t = 0xC0101234 \<and> gpr t ESP = 0xC0110000 \<and> irq_enabled t"
proof -
  let ?z = "\<lparr>CTRL_pressed = False, SHIFT_pressed = True, ALT_pressed = False,
      gdt_entries = \<lambda>_. gdt_gate 0 0 0 0, gdt_ptr = \<lparr>gdtr_limit = 0, gdtr_base = 0\<rparr>, tss_entry = zero_tss,
      gdtr = \<lparr>gdtr_limit = 0, gdtr_base = 0\<rparr>, cs_reg = 8, ds_reg = 0, es_reg = 0, fs_reg = 0, gs_reg = 0, ss_reg = 0x10, task_reg = 0,
      gpr = \<lambda>_. 0, EIP = 0, EFLAGS = 0x202, CR0 = 0x80010011, CR2 = 0\<rparr>"
  let ?f = "fresh_tty [37, 99, 0] ?z"
  note d = typing_cpu_def keyboard_init_def irq_install_handler_def Let_def
  have s: "irq_routines typing_cpu 1 = 0xC0107000" "\<not> SHIFT_pressed typing_cpu" "mem typing_cpu = mem ?f" "irq_enabled typing_cpu"
    by (simp_all add: d)
  have r: "gpr typing_cpu ESP = 0xC0110000" "EIP typing_cpu = 0xC0101234" "ds_reg typing_cpu = 0x10" "es_reg typing_cpu = 0x10"
      "fs_reg typing_cpu = 0x10" "gs_reg typing_cpu = 0x10"
    by (simp_all add: d)
  have "displays typing_cpu [] = displays ?f []" by (rule displays_cong) (simp_all add: d)
  then have disp: "displays typing_cpu []" by (simp add: fresh_tty_displays)
  have lit: "text_safe 0x8000 (store_words (mem typing_cpu) 0x6000 [97]) 0x5000 [37, 99]"
    using fresh_text [of "[]" "[37, 99]" "[]" "[97]" ?z] s(3) by simp
  have arg: "\<forall>j<4. safe 0x8000 (0x6000 + j)" using fresh_args [of 1] by (simp add: word_nat)
  have tab: "lowercase ! 30 = 97" by (simp add: lowercase_def)
  have far: "safe 0x8000 x \<and> \<not> x - 0x6000 < 4 \<and> \<not> x - 0x5000 < 3" if "0xC010FFBC \<le> unat x" "unat x < 0xC0110000" for x
    using that diff_less_iff [of "0x8000" 67 x] diff_less_iff [of "0x6000" 4 x] diff_less_iff [of "0x5000" 3 x]
    by (simp add: safe_def vga_range_unat)
  have "\<exists>t. exec \<lparr>run = c_function (\<lambda>_. irq_1_handler example_layout (\<lambda>_ t. (0x9E, t))) (\<lambda>_ _ s. retK () s), ret_addr = 0xC0101111, scratch = \<lambda>_. 0\<rparr>
       (irq_stub 1) (deliver 33 None typing_cpu) = retK () t
    \<and> displays t ([] @ [ucast (97 :: u32)]) \<and> hd (port_log t) = (PIC1, PIC_EOI)
    \<and> gpr t = gpr typing_cpu \<and> EIP t = EIP typing_cpu \<and> cs_reg t = cs_reg typing_cpu \<and> ds_reg t = ds_reg typing_cpu \<and> es_reg t = es_reg typing_cpu
    \<and> fs_reg t = fs_reg typing_cpu \<and> gs_reg t = gs_reg typing_cpu \<and> flags_word t = flags_word typing_cpu \<and> irq_enabled t = irq_enabled typing_cpu"
    by (rule keystroke_correct [where h = "0xC0107000" and l = example_layout and inb = "\<lambda>_ t. (0x9E, t)" and b = "0x9E" and k = "0x1E"])
      (use s r disp lit arg tab far fresh_frame in \<open>simp_all add: example_layout_def\<close>)
  then obtain t where t: "exec \<lparr>run = c_function (\<lambda>_. irq_1_handler example_layout (\<lambda>_ t. (0x9E, t))) (\<lambda>_ _ s. retK () s), ret_addr = 0xC0101111, scratch = \<lambda>_. 0\<rparr>
       (irq_stub 1) (deliver 33 None typing_cpu) = retK () t" "displays t ([] @ [ucast (97 :: u32)])" "gpr t = gpr typing_cpu"
      "EIP t = EIP typing_cpu" "irq_enabled t = irq_enabled typing_cpu" by blast
  show ?thesis by (rule exI [of _ t]) (use t s(4) r in simp)
qed

end
