(* ===== verification/Main_Loop.thy ===== *)
theory Main_Loop
  imports Kernel_Main
begin

text \<open>
  What \<open>kernel_main\<close> does once the kernel is up (\<open>kernel/kernel.c\<close>): it runs the tests, makes the two demonstration tasks and gives the
  CPU away until both have ended; then it idles. The addresses of the functions the tasks run are in a record. What the
  tests do, and what the interrupts that end a \<open>hlt\<close> do, are arguments.
\<close>

section \<open>Operations\<close>

record task_symbols =
  sym_task_start_up :: u32
  sym_mark_task_for_death :: u32
  sym_test_sleep :: u32
  sym_test_sleep1 :: u32

text \<open>The frame, the argument words and the literal of a call of \<open>printf\<close>.\<close>

record printf_place =
  p_fp :: u32
  p_arg :: u32
  p_lit :: u32

text \<open>The demonstration tasks.\<close>

function test_sleep_from :: "printf_place \<Rightarrow> nat \<Rightarrow> 'z tty_scheme \<Rightarrow> (unit, 'z tty_scheme) kres option" where
  "test_sleep_from p i s =
     (if i < 10 then
        bindK (micro_sleep 100 s) (\<lambda>_ s.
        bindK (printf_call (p_fp p) (p_arg p) (p_lit p) [] s) (\<lambda>_ s.
        bindK (schedule s) (\<lambda>_ s. test_sleep_from p (i + 1) s)))
      else retK () s)"
  by pat_completeness auto
termination by (relation "measure (\<lambda>(p, i, s). 10 - i)") auto

declare test_sleep_from.simps [simp del]

definition test_sleep :: "printf_place \<Rightarrow> 'z tty_scheme \<Rightarrow> (unit, 'z tty_scheme) kres option" where
  "test_sleep p s = test_sleep_from p 0 s"

function test_sleep1_from :: "printf_place \<Rightarrow> nat \<Rightarrow> 'z tty_scheme \<Rightarrow> (unit, 'z tty_scheme) kres option" where
  "test_sleep1_from p i s =
     (if i < 10 then
        bindK (micro_sleep 200 s) (\<lambda>_ s.
        bindK (printf_call (p_fp p) (p_arg p) (p_lit p) [] s) (\<lambda>_ s.
        bindK (if i = 5 then terminate_task s else retK () s) (\<lambda>_ s.
        bindK (schedule s) (\<lambda>_ s. test_sleep1_from p (i + 1) s))))
      else retK () s)"
  by pat_completeness auto
termination by (relation "measure (\<lambda>(p, i, s). 10 - i)") auto

declare test_sleep1_from.simps [simp del]

definition test_sleep1 :: "printf_place \<Rightarrow> 'z tty_scheme \<Rightarrow> (unit, 'z tty_scheme) kres option" where
  "test_sleep1 p s = test_sleep1_from p 0 s"

text \<open>The three calls in the loop of \<open>kernel_main\<close>.\<close>

definition main_turn :: "'z sched_scheme \<Rightarrow> (unit, 'z sched_scheme) kres option" where
  "main_turn s = bindK (schedule (lock_scheduler s)) (\<lambda>_ s. unlock_scheduler s)"

text \<open>\<open>get_task_state(proc->id) > 0\<close>, a comparison of C \<open>int\<close>s, and the loop's condition.\<close>

definition task_alive :: "u32 \<Rightarrow> 'z sched_scheme \<Rightarrow> bool option" where
  "task_alive proc s = (case get_task_state (tid (tcb s proc)) s of None \<Rightarrow> None | Some st \<Rightarrow> Some (0 < sint st))"

definition still_running :: "u32 \<Rightarrow> u32 \<Rightarrow> 'z sched_scheme \<Rightarrow> bool option" where
  "still_running proc proc_1 s = (case task_alive proc s of None \<Rightarrow> None | Some b \<Rightarrow> if b then Some True else task_alive proc_1 s)"

partial_function (option) wait_for_tasks ::
  "('z sched_scheme \<Rightarrow> (unit, 'z sched_scheme) kres option) \<Rightarrow> u32 \<Rightarrow> u32 \<Rightarrow> 'z sched_scheme \<Rightarrow> (unit, 'z sched_scheme) kres option" where
  "wait_for_tasks hlt proc proc_1 s =
     (case still_running proc proc_1 s of None \<Rightarrow> None | Some b \<Rightarrow>
        if b then
          bindK (main_turn s) (\<lambda>_ s.
          bindK (hlt s) (\<lambda>_ s. wait_for_tasks hlt proc proc_1 s))
        else retK () s)"

partial_function (option) kernel_idle_task ::
  "('z sched_scheme \<Rightarrow> (unit, 'z sched_scheme) kres option) \<Rightarrow> 'z sched_scheme \<Rightarrow> (unit, 'z sched_scheme) kres option" where
  "kernel_idle_task hlt s = bindK (hlt s) (\<lambda>_ s. kernel_idle_task hlt s)"

text \<open>\<open>kernel_main\<close> after its initialisation calls, and as a whole.\<close>

definition kernel_tasks ::
  "task_symbols \<Rightarrow> ('z heap_scheme \<Rightarrow> (bool, 'z heap_scheme) kres option) \<Rightarrow> ('z heap_scheme \<Rightarrow> (unit, 'z heap_scheme) kres option)
   \<Rightarrow> 'z heap_scheme \<Rightarrow> (unit, 'z heap_scheme) kres option" where
  "kernel_tasks ts test_all hlt s =
     bindK (test_all s) (\<lambda>failed s.
     if failed then panicK (Abort ''tests failed'')
     else
       bindK (create_kernel_task (sym_task_start_up ts) (sym_mark_task_for_death ts) (sym_test_sleep ts) s) (\<lambda>proc s.
       bindK (create_kernel_task (sym_task_start_up ts) (sym_mark_task_for_death ts) (sym_test_sleep1 ts) s) (\<lambda>proc_1 s.
       bindK (wait_for_tasks hlt proc proc_1 s) (\<lambda>_ s. kernel_idle_task hlt s))))"

definition kernel_main ::
  "image \<Rightarrow> task_symbols \<Rightarrow> (u32 \<Rightarrow> mmap_entry) \<Rightarrow> ('z machine_scheme \<Rightarrow> (bool, 'z machine_scheme) kres option)
   \<Rightarrow> ('z machine_scheme \<Rightarrow> (unit, 'z machine_scheme) kres option) \<Rightarrow> u32 \<Rightarrow> multiboot_info \<Rightarrow> 'z machine_scheme \<Rightarrow> (unit, 'z machine_scheme) kres option" where
  "kernel_main im ts mm test_all hlt magic mbd s =
     bindK (kernel_boot im mm magic mbd s) (\<lambda>_ s. kernel_tasks ts test_all hlt s)"

section \<open>A turn of the loop\<close>

text \<open>A switch is postponed by the lock and made when the lock is released.\<close>

lemma main_turn_eq:
  assumes "postpone_task_switches_counter s = 0"
  shows "main_turn s = bindK (schedule_from InUnlock (s\<lparr>IRQ_disable_counter := IRQ_disable_counter s + 1, irq_enabled := False, postpone_task_switches_counter := 0, task_switches_postponed_flag := 0\<rparr>))
    (\<lambda>_ s. retK () (unlock_tail s))"
proof -
  have "schedule (lock_scheduler s) = retK () ((lock_scheduler s)\<lparr>task_switches_postponed_flag := 1\<rparr>)"
    using assms by (simp add: schedule_def schedule_from_def lock_scheduler_def)
  then show ?thesis using assms by (simp add: main_turn_def unlock_scheduler_def lock_scheduler_def Let_def)
qed

lemma main_turn_idle:
  assumes "postpone_task_switches_counter s = 0" and "task_switches_postponed_flag s = 0" and "first_ready_to_run_task s = NULL"
  shows "main_turn s = retK () (s\<lparr>irq_enabled := (IRQ_disable_counter s = 0)\<rparr>)"
  using assms unfolding main_turn_eq [OF assms(1)] by (cases s) (simp add: schedule_from_def unlock_tail_def Let_def)

lemma main_turn_switches:
  assumes "running s c (n # xs)"
  shows "\<exists>s'. main_turn s = switchK s' \<and> running s' n (xs @ [c]) \<and> task_switches_postponed_flag s' = 0"
proof -
  let ?s = "s\<lparr>IRQ_disable_counter := IRQ_disable_counter s + 1, irq_enabled := False, postpone_task_switches_counter := 0, task_switches_postponed_flag := 0\<rparr>"
  have s: "postpone_task_switches_counter s = 0" "ready_queue s (n # xs)" "current_task_PCB s = c" "c \<noteq> NULL" "c \<notin> set (n # xs)"
    and st: "state (tcb s c) = TASK_STATE_RUNNING" "\<forall>p \<in> set (n # xs). state (tcb s p) = TASK_STATE_READY_TO_RUN"
    using assms by (auto simp: running_def)
  have r: "runnable ?s" using st s(3) by (simp add: runnable_def)
  have q: "ready_queue ?s (n # xs)" using s(2) by (simp add: ready_queue_def)
  have d: "distinct (n # xs)" using ready_queue_distinct(1) [OF s(2)] .
  obtain s' where s': "schedule_from InUnlock ?s = switchK s'" "current_task_PCB s' = n" "ready_queue s' (xs @ [c])"
    "\<And>p. state (tcb s' p) = (if p = n then (state (tcb s n) AND NOT 0xFF) OR TASK_STATE_RUNNING
         else if p = c then TASK_STATE_READY_TO_RUN else state (tcb s p))"
    "postpone_task_switches_counter s' = 0" "task_switches_postponed_flag s' = 0"
    using schedule_from_spec [of ?s n xs InUnlock] q s r by auto
  have "n \<noteq> NULL" using ready_queue_distinct(2) [OF s(2)] by auto
  then have "running s' n (xs @ [c])" using s' st s d unfolding running_def by auto
  with s'(1,6) show ?thesis unfolding main_turn_eq [OF s(1)] by simp
qed

section \<open>Starting the tasks\<close>

text \<open>A task that runs or waits in the ready queue is alive.\<close>

lemma task_alive_ready:
  assumes "running s c xs" and "p \<in> set xs"
  shows "task_alive p s = Some True"
proof -
  let ?P = "\<lambda>q. tid (tcb s q) = tid (tcb s p)"
  have c: "current_task_PCB s = c" "c \<noteq> NULL" and q: "ready_queue s xs" and st: "state (tcb s c) = 2" "\<forall>q \<in> set xs. state (tcb s q) = 1"
    using assms(1) by (simp_all add: running_def)
  obtain r where r: "find ?P xs = Some r" using assms(2) by (cases "find ?P xs") (auto simp: find_None_iff)
  then have "r \<in> set xs" by (auto simp: find_Some_iff)
  with st have "state (tcb s r) = 1" by simp
  moreover have "find_task_state s (tid (tcb s p)) (first_ready_to_run_task s) = Some (Some (state (tcb s r)))"
    using find_task_state_spec [of s "first_ready_to_run_task s" xs "tid (tcb s p)"] q r by (simp add: ready_queue_def)
  ultimately have "get_task_state (tid (tcb s p)) s = Some (if tid (tcb s c) = tid (tcb s p) then 2 else 1)"
    using c st by (simp add: get_task_state_def)
  then show ?thesis by (simp add: task_alive_def)
qed


lemma wait_for_tasks_switch:
  assumes "running s c (n # xs)" and "still_running proc proc_1 s = Some True"
  shows "\<exists>s'. wait_for_tasks hlt proc proc_1 s = switchK s' \<and> main_turn s = switchK s' \<and> running s' n (xs @ [c])"
  using main_turn_switches [OF assms(1)] assms(2) by (auto simp: wait_for_tasks.simps [of hlt proc proc_1 s])

lemma wait_for_tasks_idle:
  assumes "running s c []" and "task_switches_postponed_flag s = 0" and "still_running proc proc_1 s = Some True"
  shows "wait_for_tasks hlt proc proc_1 s = bindK (hlt (s\<lparr>irq_enabled := (IRQ_disable_counter s = 0)\<rparr>)) (\<lambda>_ s. wait_for_tasks hlt proc proc_1 s)"
  using main_turn_idle [of s] assms by (simp add: wait_for_tasks.simps [of hlt proc proc_1 s] running_def ready_queue_def)





text \<open>\<open>micro_sleep\<close> adds to 64 bits and passes 32.\<close>

lemma low_sum: "ucast (x + ucast d) = (ucast x + d :: u32)" for x :: u64
proof -
  have "unat (ucast (x + ucast d) :: u32) = unat (ucast x + d :: u32)"
    by (simp add: unsigned_ucast_eq unat_word_ariths take_bit_eq_mod mod_simps mod_mod_cancel)
  then show ?thesis by (simp add: word_unat_eq_iff)
qed

section \<open>Properties\<close>

text \<open>The loop of \<open>kernel_main\<close>. While one of the two tasks is alive, a turn that finds a ready task gives it the CPU, with the kernel's task last in
  the queue; when none is ready the processor is halted, and whatever interrupts come, \<open>kernel_main\<close> gives the CPU to the first task that one of them
  makes ready. When both tasks have ended the loop ends. The states are those in which the loop's condition is evaluated.\<close>

theorem main_loop_serves:
  fixes u :: "nat \<Rightarrow> 'z sched_scheme"
  assumes "\<forall>i<k. running (u i) c [] \<and> task_switches_postponed_flag (u i) = 0 \<and> still_running proc proc_1 (u i) = Some True
      \<and> hlt ((u i)\<lparr>irq_enabled := (IRQ_disable_counter (u i) = 0)\<rparr>) = retK () (u (Suc i))"
  shows "(running (u k) c (n # xs) \<and> still_running proc proc_1 (u k) = Some True \<longrightarrow>
        (\<exists>s'. wait_for_tasks hlt proc proc_1 (u 0) = switchK s' \<and> running s' n (xs @ [c])))
    \<and> (still_running proc proc_1 (u k) = Some False \<longrightarrow> wait_for_tasks hlt proc proc_1 (u 0) = retK () (u k))"
proof -
  have step: "wait_for_tasks hlt proc proc_1 (u 0) = wait_for_tasks hlt proc proc_1 (u i)" if "i \<le> k" for i
    using that
  proof (induction i)
    case (Suc i)
    then have "wait_for_tasks hlt proc proc_1 (u i) = wait_for_tasks hlt proc proc_1 (u (Suc i))"
      using wait_for_tasks_idle [of "u i" c proc proc_1 hlt] assms by simp
    with Suc show ?case by simp
  qed simp
  show ?thesis
    using wait_for_tasks_switch [of "u k" c n xs proc proc_1 hlt] wait_for_tasks.simps [of hlt proc proc_1 "u k"] step [of k] by auto
qed

text \<open>One halt, after which the interrupt has made a task ready.\<close>

theorem main_loop_serves_witness:
  "\<exists>s'. wait_for_tasks (\<lambda>_. retK () (three_tasks ())) 0x2000 0x3000
        ((three_tasks ())\<lparr>first_ready_to_run_task := NULL, last_ready_to_run_task := NULL, sleeping_taskes := 0x2000\<rparr>) = switchK s'
     \<and> running s' 0x2000 [0x3000, 0x1000]"
proof -
  define s0 :: sched where "s0 = (three_tasks ())\<lparr>first_ready_to_run_task := NULL, last_ready_to_run_task := NULL, sleeping_taskes := 0x2000\<rparr>"
  define u where "u i = (if i = 0 then s0 else three_tasks ())" for i :: nat
  have r: "running (three_tasks () :: sched) 0x1000 [0x2000, 0x3000]" by (rule three_tasks_running)
  then have "still_running 0x2000 0x3000 (three_tasks () :: sched) = Some True"
    using task_alive_ready [OF r, of "0x2000"] by (simp add: still_running_def)
  moreover have "running s0 0x1000 []" "task_switches_postponed_flag s0 = 0"
    by (simp_all add: s0_def running_def ready_queue_def three_tasks_fields blank_task_def)
  moreover have "find_task_state s0 (tid (tcb s0 0x2000)) NULL = Some None"
    "find_task_state s0 (tid (tcb s0 0x2000)) 0x2000 = Some (Some (state (tcb s0 0x2000)))"
    by (subst find_task_state.simps, simp)+
  then have "still_running 0x2000 0x3000 s0 = Some True"
    by (simp add: s0_def three_tasks_fields still_running_def task_alive_def get_task_state_def blank_task_def)
  ultimately show ?thesis
    using main_loop_serves [of 1 u "0x1000" "0x2000" "0x3000" "\<lambda>_. retK () (three_tasks ())" "0x2000" "[0x3000]"] r
    by (simp add: u_def s0_def [symmetric])
qed






text \<open>C40: the demonstration tasks go to sleep. From every turn of its loop, as long as another task is ready, \<open>test_sleep\<close> goes to sleep for 100 ticks and
  \<open>test_sleep1\<close> for 200: the task is first in the list of sleeping tasks, no longer runs or waits in the ready queue, and the first ready task has the CPU. The
  wake-up time is the tick count's low 32 bits with the delay added.\<close>

theorem demo_tasks_sleep:
  fixes s :: "'z tty_scheme"
  assumes "i < 10" and "lock_ok k s" and "postpone_task_switches_counter s = 0" and "ready_queue s (n # xs)" and "sleepers s ys"
    and "current_task_PCB s = c" and "c \<noteq> NULL" and "c \<notin> set (n # xs) \<union> set ys"
  shows "\<exists>s1 s2. test_sleep_from p i s = switchK s1 \<and> test_sleep1_from p i s = switchK s2
    \<and> target_wakeup_time (tcb s1 c) = ucast (ucast (ticks_since_boot s) + 100 :: u32)
    \<and> target_wakeup_time (tcb s2 c) = ucast (ucast (ticks_since_boot s) + 200 :: u32)
    \<and> (\<forall>s' \<in> {s1, s2}. current_task_PCB s' = n \<and> ready_queue s' xs \<and> sleepers s' (c # ys) \<and> state (tcb s' c) = TASK_STATE_SLEEPING)"
proof -
  have c: "current_task_PCB s \<noteq> NULL" "current_task_PCB s \<notin> set (n # xs) \<union> set ys" using assms(6-8) by simp_all
  note sl = micro_sleep_until_spec [OF assms(2-5) c]
  have u: "ucast (read_ticks_since_boot s + ucast d) = (ucast (ticks_since_boot s) + d :: u32)" for d :: u32
    by (simp add: read_ticks_since_boot_def low_sum)
  obtain s1 where s1: "micro_sleep 100 s = switchK s1" "current_task_PCB s1 = n" "ready_queue s1 xs" "sleepers s1 (c # ys)"
      "state (tcb s1 c) = TASK_STATE_SLEEPING" "target_wakeup_time (tcb s1 c) = ucast (ucast (ticks_since_boot s) + 100 :: u32)"
    using sl [of "ucast (ticks_since_boot s) + 100"] assms(6) unfolding micro_sleep_def u by auto
  obtain s2 where s2: "micro_sleep 200 s = switchK s2" "current_task_PCB s2 = n" "ready_queue s2 xs" "sleepers s2 (c # ys)"
      "state (tcb s2 c) = TASK_STATE_SLEEPING" "target_wakeup_time (tcb s2 c) = ucast (ucast (ticks_since_boot s) + 200 :: u32)"
    using sl [of "ucast (ticks_since_boot s) + 200"] assms(6) unfolding micro_sleep_def u by auto
  have "test_sleep_from p i s = switchK s1" "test_sleep1_from p i s = switchK s2"
    using assms(1) s1(1) s2(1) by (simp_all add: test_sleep_from.simps [of p i s] test_sleep1_from.simps [of p i s])
  with s1 s2 show ?thesis by (intro exI [of _ s1] exI [of _ s2]) simp
qed

text \<open>Witness of C40: two tasks, of which the running one goes to sleep at tick 7.\<close>

theorem demo_tasks_sleep_witness:
  "\<exists>s1 s2. test_sleep_from \<lparr>p_fp = 0x8000, p_arg = 0x6000, p_lit = 0x5000\<rparr> 0
        ((fresh_tty [] ())\<lparr>current_task_PCB := 0x1000, first_ready_to_run_task := 0x2000, last_ready_to_run_task := 0x2000, sleeping_taskes := NULL,
           tcb := (\<lambda>_. blank_task 0 0 1), ticks_since_boot := 7, IRQ_disable_counter := 0, postpone_task_switches_counter := 0, task_switches_postponed_flag := 0\<rparr>) = switchK s1
     \<and> test_sleep1_from \<lparr>p_fp = 0x8000, p_arg = 0x6000, p_lit = 0x5000\<rparr> 5
        ((fresh_tty [] ())\<lparr>current_task_PCB := 0x1000, first_ready_to_run_task := 0x2000, last_ready_to_run_task := 0x2000, sleeping_taskes := NULL,
           tcb := (\<lambda>_. blank_task 0 0 1), ticks_since_boot := 7, IRQ_disable_counter := 0, postpone_task_switches_counter := 0, task_switches_postponed_flag := 0\<rparr>) = switchK s2
     \<and> target_wakeup_time (tcb s1 0x1000) = 107 \<and> target_wakeup_time (tcb s2 0x1000) = 207 \<and> current_task_PCB s1 = 0x2000"
proof -
  let ?p = "\<lparr>p_fp = 0x8000, p_arg = 0x6000, p_lit = 0x5000\<rparr>"
  let ?s = "(fresh_tty [] ())\<lparr>current_task_PCB := 0x1000, first_ready_to_run_task := 0x2000, last_ready_to_run_task := 0x2000, sleeping_taskes := NULL,
           tcb := (\<lambda>_. blank_task 0 0 1), ticks_since_boot := 7, IRQ_disable_counter := 0, postpone_task_switches_counter := 0, task_switches_postponed_flag := 0\<rparr>"
  have s: "lock_ok 1 ?s" "ready_queue ?s (0x2000 # [])" "sleepers ?s []"
    by (simp_all add: lock_ok_def ready_queue_def sleepers_def blank_task_def)
  note d = demo_tasks_sleep [OF _ s(1) _ s(2,3), of _ "0x1000" ?p]
  obtain s1 where "test_sleep_from ?p 0 ?s = switchK s1" "target_wakeup_time (tcb s1 0x1000) = 107" "current_task_PCB s1 = 0x2000"
    using d [of 0] by auto
  moreover obtain s2 where "test_sleep1_from ?p 5 ?s = switchK s2" "target_wakeup_time (tcb s2 0x1000) = 207"
    using d [of 5] by auto
  ultimately show ?thesis by blast
qed

end
