(* ===== verification/Boot.thy ===== *)
theory Boot
  imports Interrupt_Stubs Main_Loop
begin

text \<open>
  The kernel's entry point (\<open>boot.S\<close>): \<open>_start\<close> fills the boot page table with the loader's physical addresses, enters it
  twice in the boot page directory, turns paging on, jumps to the higher half, sets up the stack and calls
  \<open>kernel_main\<close> with the loader's magic number and the address of its information structure. The addresses of the symbols are
  in a record. The path is followed from the loader's state to the initialised kernel.
\<close>

section \<open>The code\<close>

record boot_symbols =
  sym_boot_page_directory :: vaddr
  sym_boot_page_table1 :: vaddr
  sym_stack_top :: vaddr
  sym_higher_half :: vaddr

definition start_setup :: "boot_symbols \<Rightarrow> instr list" where
  "start_setup b = [Movl_imm (sym_boot_page_table1 b - 0xC0000000) EDI, Movl_imm 0 ESI, Movl_imm 1023 ECX]"

definition start_loop_body :: "instr list" where
  "start_loop_body = [Movl ESI EDX, Orl_imm 0x003 EDX, Movl_store EDX 0 EDI, Addl_imm 4096 ESI, Addl_imm 4 EDI]"

text \<open>What stands after the loop, up to the jump to the higher half. The semicolon before the store of the screen's entry separates
  statements, so the store is carried out.\<close>

definition start_paging :: "boot_symbols \<Rightarrow> instr list" where
  "start_paging b =
    [Movl_imm_abs (0x000B8000 OR 0x003) (sym_boot_page_table1 b - 0xC0000000 + 1023 * 4),
     Movl_imm_abs (sym_boot_page_table1 b - 0xC0000000 + 0x003) (sym_boot_page_directory b - 0xC0000000 + 0),
     Movl_imm_abs (sym_boot_page_table1 b - 0xC0000000 + 0x003) (sym_boot_page_directory b - 0xC0000000 + 768 * 4),
     Movl_imm (sym_boot_page_directory b - 0xC0000000) ECX, Movl_to_cr3 ECX,
     Movl_from_cr0 ECX, Orl_imm 0x80010000 ECX, Movl_to_cr0 ECX,
     Movl_imm (sym_higher_half b) ECX]"

definition start_higher_half :: "boot_symbols \<Rightarrow> instr list" where
  "start_higher_half b = [Movl_imm (sym_stack_top b) ESP, Addl_imm 0xC0000000 EBX, Pushl EBX, Pushl EAX, Call Kernel_main, Cli]"

lemma store_gpr [simp]: "store a w (s\<lparr>gpr := g\<rparr>) = (store a w s)\<lparr>gpr := g\<rparr>" "gpr (store a w s) = gpr s"
  by (simp_all add: store_def phys_store_def set_pmem_def)

lemma start_loop_body_exec:
  "exec e start_loop_body s =
    retK () (store (gpr s EDI) (gpr s ESI OR 3) (s\<lparr>gpr := (gpr s)(EDX := gpr s ESI OR 3, ESI := gpr s ESI + 4096, EDI := gpr s EDI + 4)\<rparr>))"
  by (simp add: start_loop_body_def set_gpr_def fun_upd_twist)

text \<open>\<open>loop\<close> decrements \<open>ecx\<close> and jumps back unless it is then 0.\<close>

function start_loop :: "'z env \<Rightarrow> 'z cpu_scheme \<Rightarrow> (unit, 'z cpu_scheme) kres option" where
  "start_loop e s =
     bindK (exec e start_loop_body s) (\<lambda>_ s.
     let s = set_gpr ECX (gpr s ECX - 1) s
     in if gpr s ECX \<noteq> 0 then start_loop e s else retK () s)"
  by pat_completeness auto
termination
proof (relation "measure (\<lambda>(e, s). unat (gpr s ECX - 1))")
  fix e :: "'z env" and s t u :: "'z cpu_scheme" and x
  assume "exec e start_loop_body s = Some (Ret x t)" and u: "u = set_gpr ECX (gpr t ECX - 1) t" "gpr u ECX \<noteq> 0"
  then have "gpr t ECX = gpr s ECX"
    unfolding start_loop_body_exec retK_eq_Some by (auto simp: store_def phys_store_def set_pmem_def)
  with u have "gpr u ECX = gpr s ECX - 1" by (simp add: set_gpr_def)
  with u(2) have "unat (gpr u ECX - 1) < unat (gpr s ECX - 1)"
    by (metis measure_unat)
  then show "((e, u), (e, s)) \<in> measure (\<lambda>(e, s). unat (gpr s ECX - 1))" by simp
qed simp

declare start_loop.simps [simp del]

text \<open>The code ends in a loop around \<open>hlt\<close>.\<close>

definition start :: "boot_symbols \<Rightarrow> ('z cpu_scheme \<Rightarrow> (unit, 'z cpu_scheme) kres option) \<Rightarrow> 'z env \<Rightarrow> 'z cpu_scheme \<Rightarrow> (unit, 'z cpu_scheme) kres option" where
  "start b hlt e s =
     bindK (exec e (start_setup b) s) (\<lambda>_ s.
     bindK (start_loop e s) (\<lambda>_ s.
     bindK (exec e (start_paging b) s) (\<lambda>_ s.
     bindK (exec e (start_higher_half b) s) (\<lambda>_ s. halt_loop hlt s))))"

section \<open>The boot tables\<close>

lemma boot_entry_add: "frame_paddr f + 3 = boot_entry f"
  unfolding boot_entry_def
proof (rule disjunctive_add_eq_or)
  show "frame_paddr f AND 3 = 0"
  proof (rule bit_word_eqI)
    have m: "(3 :: u32) = mask 2" by (simp add: mask_eq_exp_minus_1)
    show "bit (frame_paddr f AND 3) n \<longleftrightarrow> bit (0 :: u32) n" for n unfolding m by (auto simp: frame_paddr_def bit_simps)
  qed
qed

lemma identity_entry:
  assumes "(i :: u32) < 1024"
  shows "i * 4096 OR 3 = boot_entry (ucast (ucast i :: 10 word))"
proof -
  have i: "unat i < 1024" using assms by (simp add: word_nat)
  have "unat (ucast k :: 20 word) = unat k" for k :: "10 word"
    using unsigned_less [of k, where ?'a = nat] by (simp add: unsigned_ucast_eq take_bit_nat_eq_self)
  moreover have "unat (ucast i :: 10 word) = unat i" using i by (simp add: unsigned_ucast_eq take_bit_nat_eq_self)
  ultimately have "unat (ucast (ucast i :: 10 word) :: 20 word) = unat i" by simp
  then have "unat (frame_paddr (ucast (ucast i :: 10 word))) = unat (i * 4096)" using i by (simp add: unat_frame_paddr unat_word_ariths)
  then have "frame_paddr (ucast (ucast i :: 10 word)) = i * 4096" by (simp add: word_unat_eq_iff)
  then show ?thesis by (simp add: boot_entry_def)
qed

lemma store_entry:
  assumes "\<not> bit (CR0 s) 31" and "i < 1024"
  shows "store (frame_paddr f + i * 4) w s = set_pmem f ((pmem s f)(ucast i := w)) s"
  using assms entry_addr [OF assms(2), of f] by (simp add: store_def phys_store_def VPN_def frame_of_def)

text \<open>The loop writes the entries from the one \<open>edi\<close> points to, as many as \<open>ecx\<close> says.\<close>

definition identity_entries :: "nat \<Rightarrow> nat \<Rightarrow> (10 word \<Rightarrow> u32) \<Rightarrow> 10 word \<Rightarrow> u32" where
  "identity_entries i n c k = (if i \<le> unat k \<and> unat k < i + n then boot_entry (ucast k) else c k)"

lemma identity_entries_0: "identity_entries i 0 c = c"
  by (auto simp: identity_entries_def fun_eq_iff)

lemma identity_entries_Suc:
  assumes "(i :: u32) < 1024"
  shows "identity_entries (Suc (unat i)) n (c(ucast i := boot_entry (ucast (ucast i :: 10 word)))) = identity_entries (unat i) (Suc n) c"
proof
  fix k :: "10 word"
  have "unat (ucast i :: 10 word) = unat i" using assms by (simp add: unsigned_ucast_eq take_bit_eq_mod word_nat)
  then have "k = ucast i \<longleftrightarrow> unat k = unat i" by (simp add: word_unat_eq_iff)
  then show "identity_entries (Suc (unat i)) n (c(ucast i := boot_entry (ucast (ucast i :: 10 word)))) k = identity_entries (unat i) (Suc n) c k"
    by (auto simp: identity_entries_def)
qed

lemma start_loop_spec:
  fixes s :: "'z cpu_scheme"
  assumes "\<not> bit (CR0 s) 31" and "unat (gpr s ECX) = Suc n" and "gpr s EDI = frame_paddr f + i * 4" and "gpr s ESI = i * 4096"
    and "unat i + Suc n \<le> 1024"
  shows "\<exists>g. start_loop e s = retK () (set_pmem f (identity_entries (unat i) (Suc n) (pmem s f)) (s\<lparr>gpr := g\<rparr>)) \<and> g EAX = gpr s EAX \<and> g EBX = gpr s EBX"
  using assms
proof (induction n arbitrary: s i)
  case (0 s i)
  have i: "i < 1024" using "0.prems"(5) by (simp add: word_nat)
  have c: "gpr s ECX = 1" using "0.prems"(2) by (simp add: word_unat_eq_iff)
  define g where "g = (gpr s)(EDX := i * 4096 OR 3, ESI := i * 4096 + 4096, EDI := frame_paddr f + i * 4 + 4, ECX := 0)"
  have "identity_entries (unat i) (Suc 0) (pmem s f) = (pmem s f)(ucast i := i * 4096 OR 3)"
    using identity_entries_Suc [OF i, of 0 "pmem s f"] identity_entry [OF i] by (simp add: identity_entries_0)
  then have "start_loop e s = retK () (set_pmem f (identity_entries (unat i) (Suc 0) (pmem s f)) (s\<lparr>gpr := g\<rparr>))"
    using "0.prems"(1,3,4) c store_entry [OF _ i, of s f] by (subst start_loop.simps) (simp add: start_loop_body_exec set_gpr_def set_pmem_def g_def)
  moreover have "g EAX = gpr s EAX" "g EBX = gpr s EBX" by (simp_all add: g_def)
  ultimately show ?case by blast
next
  case (Suc n s i)
  have i: "i < 1024" "unat (i + 1) = Suc (unat i)" using Suc.prems(5) by (simp_all add: word_nat unat_inc32)
  have c: "unat (gpr s ECX - 1) = Suc n" using Suc.prems(2) by (simp add: unat_sub32 word_nat)
  then have c0: "gpr s ECX - 1 \<noteq> 0" by (metis unat_0 nat.distinct(1))
  let ?g = "(gpr s)(EDX := i * 4096 OR 3, ESI := i * 4096 + 4096, EDI := frame_paddr f + i * 4 + 4, ECX := gpr s ECX - 1)"
  define t where "t = (set_pmem f ((pmem s f)(ucast i := i * 4096 OR 3)) s)\<lparr>gpr := ?g\<rparr>"
  have "start_loop e s = start_loop e t"
    using Suc.prems(1,3,4) c0 store_entry [OF _ i(1), of s f] by (subst start_loop.simps) (simp add: start_loop_body_exec set_gpr_def set_pmem_def t_def)
  moreover have "\<exists>g. start_loop e t = retK () (set_pmem f (identity_entries (unat (i + 1)) (Suc n) (pmem t f)) (t\<lparr>gpr := g\<rparr>)) \<and> g EAX = gpr t EAX \<and> g EBX = gpr t EBX"
    using Suc.prems(1,5) c i(2) by (intro Suc.IH) (simp_all add: t_def set_pmem_def distrib_right add.assoc)
  moreover have "identity_entries (unat (i + 1)) (Suc n) (pmem t f) = identity_entries (unat i) (Suc (Suc n)) (pmem s f)"
    using identity_entries_Suc [OF i(1)] identity_entry [OF i(1)] i(2) by (simp add: t_def set_pmem_def)
  ultimately show ?case by (auto simp: t_def set_pmem_def)
qed

text \<open>The machine with the boot tables \<open>d\<close> and \<open>t\<close> loaded and paging on.\<close>

definition paged :: "20 word \<Rightarrow> 20 word \<Rightarrow> 'z cpu_scheme \<Rightarrow> 'z cpu_scheme" where
  "paged d t s = s\<lparr>pmem := (pmem s)(t := \<lambda>k. boot_entry (if k = 1023 then 0xB8 else ucast k),
       d := (pmem s d)(0 := boot_entry t, 768 := boot_entry t)),
     cr3 := frame_paddr d, tlb := \<lambda>_. None, CR0 := CR0 s OR 0x80010000\<rparr>"

lemma full_table: "(identity_entries 0 1023 c)(1023 := 0xB8003) = (\<lambda>k. boot_entry (if k = 1023 then 0xB8 else ucast k))"
proof
  fix k :: "10 word"
  have k: "unat k < 1024" using unsigned_less [of k, where ?'a = nat] by simp
  moreover have "k = 1023 \<longleftrightarrow> unat k = 1023" by (simp add: word_unat_eq_iff)
  moreover have "boot_entry 0xB8 = 0xB8003" by (simp add: boot_entry_def frame_paddr_def)
  ultimately show "((identity_entries 0 1023 c)(1023 := 0xB8003)) k = boot_entry (if k = 1023 then 0xB8 else ucast k)"
    by (auto simp: identity_entries_def)
qed

lemma start_paging_exec:
  fixes s :: "'z cpu_scheme"
  assumes "sym_boot_page_table1 b - 0xC0000000 = frame_paddr t" and "sym_boot_page_directory b - 0xC0000000 = frame_paddr d"
    and "\<not> bit (CR0 s) 31" and "d \<noteq> t"
  shows "exec e (start_paging b) s = retK () (s\<lparr>pmem := (pmem s)(t := (pmem s t)(1023 := 0xB8003), d := (pmem s d)(0 := boot_entry t, 768 := boot_entry t)),
     cr3 := frame_paddr d, tlb := \<lambda>_. None, CR0 := CR0 s OR 0x80010000, gpr := (gpr s)(ECX := sym_higher_half b)\<rparr>)"
proof -
  let ?i1 = "Movl_imm_abs (0x000B8000 OR 0x003) (frame_paddr t + 1023 * 4)" and ?i2 = "Movl_imm_abs (frame_paddr t + 0x003) (frame_paddr d + 0)"
    and ?i3 = "Movl_imm_abs (frame_paddr t + 0x003) (frame_paddr d + 768 * 4)"
  define s1 where "s1 = set_pmem t ((pmem s t)(1023 := 0xB8003)) s"
  define s2 where "s2 = set_pmem d ((pmem s d)(0 := boot_entry t)) s1"
  define s3 where "s3 = set_pmem d ((pmem s d)(0 := boot_entry t, 768 := boot_entry t)) s1"
  have "exec e [?i1] s = retK () s1"
    using store_entry [of s 1023 t "0xB8003"] assms(3) by (simp add: s1_def)
  moreover have "exec e [?i2] s1 = retK () s2"
    using store_entry [of s1 0 d "boot_entry t"] assms(3,4) boot_entry_add [of t] by (simp add: s1_def s2_def set_pmem_def)
  moreover have "exec e [?i3] s2 = retK () s3"
    using store_entry [of s2 768 d "boot_entry t"] assms(3,4) boot_entry_add [of t] by (simp add: s1_def s2_def s3_def set_pmem_def)
  moreover have "exec e [Movl_imm (frame_paddr d) ECX, Movl_to_cr3 ECX, Movl_from_cr0 ECX, Orl_imm 0x80010000 ECX, Movl_to_cr0 ECX, Movl_imm (sym_higher_half b) ECX] s3 =
      retK () (s3\<lparr>cr3 := frame_paddr d, tlb := \<lambda>_. None, CR0 := CR0 s OR 0x80010000, gpr := (gpr s)(ECX := sym_higher_half b)\<rparr>)"
    by (simp add: set_gpr_def s3_def s1_def set_pmem_def)
  moreover have "start_paging b = [?i1] @ [?i2] @ [?i3] @ [Movl_imm (frame_paddr d) ECX, Movl_to_cr3 ECX, Movl_from_cr0 ECX, Orl_imm 0x80010000 ECX,
      Movl_to_cr0 ECX, Movl_imm (sym_higher_half b) ECX]"
    unfolding start_paging_def assms(1,2) by simp
  ultimately have "exec e (start_paging b) s = retK () (s3\<lparr>cr3 := frame_paddr d, tlb := \<lambda>_. None, CR0 := CR0 s OR 0x80010000, gpr := (gpr s)(ECX := sym_higher_half b)\<rparr>)"
    by (simp only: exec_append bindK_simps)
  then show ?thesis using assms(4) by (simp add: s3_def s1_def set_pmem_def)
qed

lemma start_tables:
  fixes s :: "'z cpu_scheme"
  assumes "sym_boot_page_table1 b - 0xC0000000 = frame_paddr t" and "sym_boot_page_directory b - 0xC0000000 = frame_paddr d"
    and "\<not> bit (CR0 s) 31" and "d \<noteq> t"
  shows "\<exists>g. start b hlt e s = bindK (exec e (start_higher_half b) ((paged d t s)\<lparr>gpr := g\<rparr>)) (\<lambda>_ s. halt_loop hlt s) \<and> g EAX = gpr s EAX \<and> g EBX = gpr s EBX"
proof -
  define s0 where "s0 = s\<lparr>gpr := (gpr s)(EDI := frame_paddr t, ESI := 0, ECX := 1023)\<rparr>"
  have "exec e (start_setup b) s = retK () s0" unfolding start_setup_def assms(1) by (simp add: set_gpr_def s0_def)
  moreover obtain g where g: "start_loop e s0 = retK () (set_pmem t (identity_entries 0 1023 (pmem s t)) (s\<lparr>gpr := g\<rparr>))" "g EAX = gpr s EAX" "g EBX = gpr s EBX"
    using start_loop_spec [of s0 1022 t 0 e] assms(3) by (auto simp: s0_def)
  moreover define s1 where "s1 = set_pmem t (identity_entries 0 1023 (pmem s t)) (s\<lparr>gpr := g\<rparr>)"
  moreover have "exec e (start_paging b) s1 = retK () ((paged d t s)\<lparr>gpr := g(ECX := sym_higher_half b)\<rparr>)"
    using start_paging_exec [OF assms(1,2) _ assms(4), of s1 e] assms(3,4) full_table [of "pmem s t"] by (simp add: s1_def set_pmem_def paged_def)
  ultimately show ?thesis by (intro exI [of _ "g(ECX := sym_higher_half b)"]) (simp add: start_def)
qed

text \<open>\<open>kernel_main\<close> is entered with its two arguments on the new stack.\<close>

definition main_entry :: "boot_symbols \<Rightarrow> u32 \<Rightarrow> 'z cpu_scheme \<Rightarrow> 'z cpu_scheme" where
  "main_entry b ra s =
     fold push [gpr s EBX + 0xC0000000, gpr s EAX, ra] (s\<lparr>gpr := (gpr s)(ESP := sym_stack_top b, EBX := gpr s EBX + 0xC0000000)\<rparr>)"

lemma start_higher_half_exec:
  "\<exists>g. exec e (start_higher_half b) s = bindK (run e Kernel_main (main_entry b (ret_addr e) s)) (\<lambda>_ v. retK () (v\<lparr>gpr := g, irq_enabled := False\<rparr>))"
  unfolding start_higher_half_def main_entry_def
  by (rule exI) (simp add: set_gpr_def call_c_def bindK_assoc fun_upd_twist)

lemma main_entry_args:
  assumes "12 \<le> unat (sym_stack_top b)"
  shows "stack_word 4 (main_entry b ra s) = gpr s EAX" "stack_word 8 (main_entry b ra s) = gpr s EBX + 0xC0000000"
proof -
  let ?s = "s\<lparr>gpr := (gpr s)(ESP := sym_stack_top b, EBX := gpr s EBX + 0xC0000000)\<rparr>"
  have "words_at (mem (main_entry b ra s)) (gpr (main_entry b ra s) ESP) (rev [gpr s EBX + 0xC0000000, gpr s EAX, ra] @ [])"
    unfolding main_entry_def using assms unat_lt32 [of "sym_stack_top b"] by (intro fold_push_words) (simp_all del: unat_lt32)
  note w = words_at_nth [OF this]
  show "stack_word 4 (main_entry b ra s) = gpr s EAX" "stack_word 8 (main_entry b ra s) = gpr s EBX + 0xC0000000"
    using w [of 1] w [of 2] by (simp_all add: stack_word_def)
qed

lemma main_entry_mem:
  assumes "12 \<le> unat (sym_stack_top b)" and "\<not> (unat (sym_stack_top b) - 12 \<le> unat a \<and> unat a < unat (sym_stack_top b))"
  shows "mem (main_entry b ra s) a = mem s a"
proof -
  let ?s = "s\<lparr>gpr := (gpr s)(ESP := sym_stack_top b, EBX := gpr s EBX + 0xC0000000)\<rparr>"
  have "unat (gpr ?s ESP) \<le> unat a \<or> unat a + 4 * length [gpr s EBX + 0xC0000000, gpr s EAX, ra] < unat (gpr ?s ESP)"
    using assms by auto
  then have "mem (fold push [gpr s EBX + 0xC0000000, gpr s EAX, ra] ?s) a = mem ?s a"
    using assms(1) by (intro fold_push_outside) simp_all
  then show ?thesis by (simp add: main_entry_def)
qed

lemma main_entry_fields:
  "pmem (main_entry b ra s) = pmem s" "cr3 (main_entry b ra s) = cr3 s" "tlb (main_entry b ra s) = tlb s" "CR0 (main_entry b ra s) = CR0 s"
  "allocate (main_entry b ra s) = allocate s" "pframe (main_entry b ra s) = pframe s" "timer_events (main_entry b ra s) = timer_events s"
  "IRQ_disable_counter (main_entry b ra s) = IRQ_disable_counter s"
  "postpone_task_switches_counter (main_entry b ra s) = postpone_task_switches_counter s"
  "task_switches_postponed_flag (main_entry b ra s) = task_switches_postponed_flag s"
  by (simp_all add: main_entry_def push_def Let_def)

section \<open>From the loader to the kernel\<close>


text \<open>What the loader leaves: its magic number in \<open>eax\<close>, paging off, the image's variables cleared and so the directory's frame \<open>d\<close>, a
  well-formed memory map with the two lowest free frames \<open>f1\<close> and \<open>f2\<close> below the page that \<open>boot.S\<close> maps to the screen; the boot tables are in
  frames of the image, the stack is in the image too, which ends in the first 4 MB with a page to spare.\<close>

definition loader_ready ::
  "image \<Rightarrow> boot_symbols \<Rightarrow> (u32 \<Rightarrow> mmap_entry) \<Rightarrow> multiboot_info \<Rightarrow> mmap_entry list \<Rightarrow> 20 word \<Rightarrow> 20 word \<Rightarrow> 20 word \<Rightarrow> 20 word \<Rightarrow> 'z cpu_scheme \<Rightarrow> bool" where
  "loader_ready im b mm mbd es d t f1 f2 s \<longleftrightarrow>
     (let free = initially_free es (img_kernel_start im) (img_kernel_end im) in
      gpr s EAX = MULTIBOOT_BOOTLOADER_MAGIC \<and> \<not> bit (CR0 s) 31 \<and> (\<forall>i. pmem s d i = 0)
      \<and> sym_boot_page_table1 b - 0xC0000000 = frame_paddr t \<and> sym_boot_page_directory b - 0xC0000000 = frame_paddr d \<and> d \<noteq> t
      \<and> 12 \<le> unat (sym_stack_top b) \<and> unat (sym_stack_top b) \<le> unat (img_kernel_end im)
      \<and> drop_bit 6 (mb_flags mbd) AND 1 \<noteq> 0 \<and> mmap_chain mm (mmap_addr mbd + mmap_length mbd) (mmap_addr mbd) es
      \<and> (\<forall>e \<in> set es. region_available e \<longrightarrow> region_ok e)
      \<and> free f1 \<and> free f2 \<and> f1 < f2 \<and> (\<forall>g < f2. g \<noteq> f1 \<longrightarrow> \<not> free g) \<and> unat f2 < 0x3FF
      \<and> \<not> free d \<and> \<not> free t
      \<and> 0xC0100000 \<le> unat (img_kernel_end im) \<and> unat (img_kernel_end im) \<le> 0xC03FF000
      \<and> allocate s = 1 \<and> pframe s = 0 \<and> timer_events s = NULL
      \<and> IRQ_disable_counter s = 0 \<and> postpone_task_switches_counter s = 0 \<and> task_switches_postponed_flag s = 0)"

lemma paged_boot_space:
  assumes "\<forall>i. pmem s d i = 0" and "d \<noteq> t"
  shows "boot_space d t (main_entry b ra ((paged d t s)\<lparr>gpr := g\<rparr>))"
  using assms by (simp add: boot_space_def main_entry_fields paged_def tlb_coherent_def)

lemma start_enters:
  fixes s :: "'z cpu_scheme"
  assumes "loader_ready im b mm mbd es d t f1 f2 s"
  shows "\<exists>u g. start b hlt e s = bindK (run e Kernel_main u) (\<lambda>_ v. halt_loop hlt (v\<lparr>gpr := g, irq_enabled := False\<rparr>))
    \<and> stack_word 4 u = MULTIBOOT_BOOTLOADER_MAGIC \<and> stack_word 8 u = gpr s EBX + 0xC0000000
    \<and> boot_ready im mm mbd es d t f1 f2 u \<and> CR0 u = CR0 s OR 0x80010000
    \<and> (\<forall>a. \<not> (unat (sym_stack_top b) - 12 \<le> unat a \<and> unat a < unat (sym_stack_top b)) \<longrightarrow> mem u a = mem s a)"
proof -
  note r = assms [unfolded loader_ready_def Let_def]
  from r have syms: "sym_boot_page_table1 b - 0xC0000000 = frame_paddr t" "sym_boot_page_directory b - 0xC0000000 = frame_paddr d"
    "\<not> bit (CR0 s) 31" "d \<noteq> t" and top: "12 \<le> unat (sym_stack_top b)" and z: "\<forall>i. pmem s d i = 0" and m: "gpr s EAX = MULTIBOOT_BOOTLOADER_MAGIC" by simp_all
  obtain g where g: "start b hlt e s = bindK (exec e (start_higher_half b) ((paged d t s)\<lparr>gpr := g\<rparr>)) (\<lambda>_ s. halt_loop hlt s)" "g EAX = gpr s EAX" "g EBX = gpr s EBX"
    using start_tables [OF syms, of hlt e] by blast
  define u where "u = main_entry b (ret_addr e) ((paged d t s)\<lparr>gpr := g\<rparr>)"
  have "boot_space d t u" unfolding u_def by (rule paged_boot_space [OF z syms(4)])
  then have "boot_ready im mm mbd es d t f1 f2 u"
    using r unfolding boot_ready_def Let_def by (simp add: u_def main_entry_fields paged_def)
  moreover have "CR0 u = CR0 s OR 0x80010000" by (simp add: u_def main_entry_fields paged_def)
  moreover have "mem u a = mem s a" if "\<not> (unat (sym_stack_top b) - 12 \<le> unat a \<and> unat a < unat (sym_stack_top b))" for a
    unfolding u_def main_entry_mem [OF top that] by (simp add: paged_def)
  moreover have "stack_word 4 u = MULTIBOOT_BOOTLOADER_MAGIC" "stack_word 8 u = gpr s EBX + 0xC0000000"
    unfolding u_def main_entry_args [OF top] using g(2,3) m by simp_all
  moreover obtain g' where "exec e (start_higher_half b) ((paged d t s)\<lparr>gpr := g\<rparr>) = bindK (run e Kernel_main u) (\<lambda>_ v. retK () (v\<lparr>gpr := g', irq_enabled := False\<rparr>))"
    using start_higher_half_exec [of e b "(paged d t s)\<lparr>gpr := g\<rparr>"] unfolding u_def by blast
  then have "start b hlt e s = bindK (run e Kernel_main u) (\<lambda>_ v. halt_loop hlt (v\<lparr>gpr := g', irq_enabled := False\<rparr>))"
    using g(1) by (simp add: bindK_assoc)
  ultimately show ?thesis by blast
qed

section \<open>Properties\<close>

lemma boot_walk:
  assumes "boot_space d t s"
  shows "mmu_walk s v = (if PDX v = 0 \<or> PDX v = 768
    then Some \<lparr>x_frame = if PTX v = 1023 then 0xB8 else ucast (PTX v), x_write = True, x_user = False\<rparr> else None)"
  using assms by (simp add: boot_space_def mmu_walk_def Let_def)

text \<open>C34: \<open>_start\<close> enters the kernel. From the loader's state it calls \<open>kernel_main\<close> with the magic number and the address of the loader's
  information in the higher half, with paging and write protection on, and the processor then translates exactly the first 4 MB at 0
  and at \<open>0xC0000000\<close>: every page of the two ranges to the frame of its number, but for the last one, which is the text screen.
  Should \<open>kernel_main\<close> return, the processor executes \<open>hlt\<close> with interrupts off, again whenever it is woken.\<close>

theorem start_enters_kernel:
  fixes s :: "'z cpu_scheme"
  assumes "loader_ready im b mm mbd es d t f1 f2 s"
  shows "\<exists>u g. start b hlt e s = bindK (run e Kernel_main u) (\<lambda>_ v. halt_loop hlt (v\<lparr>gpr := g, irq_enabled := False\<rparr>))
    \<and> stack_word 4 u = MULTIBOOT_BOOTLOADER_MAGIC \<and> stack_word 8 u = gpr s EBX + 0xC0000000
    \<and> bit (CR0 u) 31 \<and> bit (CR0 u) 16
    \<and> (\<forall>v. mmu_walk u v = (if PDX v = 0 \<or> PDX v = 768
        then Some \<lparr>x_frame = if PTX v = 1023 then 0xB8 else ucast (PTX v), x_write = True, x_user = False\<rparr> else None))"
proof -
  obtain u g where u: "start b hlt e s = bindK (run e Kernel_main u) (\<lambda>_ v. halt_loop hlt (v\<lparr>gpr := g, irq_enabled := False\<rparr>))"
      "stack_word 4 u = MULTIBOOT_BOOTLOADER_MAGIC" "stack_word 8 u = gpr s EBX + 0xC0000000"
      "boot_ready im mm mbd es d t f1 f2 u" "CR0 u = CR0 s OR 0x80010000"
    using start_enters [OF assms, of hlt e] by blast
  have "boot_space d t u" using u(4) by (simp add: boot_ready_def Let_def)
  moreover have "bit (CR0 u) 31" "bit (CR0 u) 16" unfolding u(5) bit_or_iff by simp_all
  ultimately show ?thesis using u(1-3) boot_walk by blast
qed


text \<open>A machine as the loader leaves it, with an image of 0x20008 bytes at 1 MB, for the witnesses.\<close>

definition example_symbols :: boot_symbols where
  "example_symbols = \<lparr>sym_boot_page_directory = 0xC0110000, sym_boot_page_table1 = 0xC0111000, sym_stack_top = 0xC0120000, sym_higher_half = 0xC0101000\<rparr>"

definition loader_cpu :: cpu where
  "loader_cpu = machine.extend (boot_machine\<lparr>pmem := \<lambda>_ _. 0, cr3 := 0\<rparr>)
     (cpu.fields ((\<lambda>_. 0)(EAX := MULTIBOOT_BOOTLOADER_MAGIC, EBX := 0x10000)) 0x10000C 2 0x11 0)"

lemma loader_cpu_ready: "loader_ready example_image example_symbols example_mmap example_mbd example_entries 0x110 0x111 0x121 0x122 loader_cpu"
proof -
  note r = boot_machine_ready [unfolded boot_ready_def Let_def]
  have syms: "sym_boot_page_table1 example_symbols - 0xC0000000 = frame_paddr 0x111"
    "sym_boot_page_directory example_symbols - 0xC0000000 = frame_paddr 0x110" "12 \<le> unat (sym_stack_top example_symbols)"
    "unat (sym_stack_top example_symbols) \<le> unat (img_kernel_end example_image)"
    by (simp_all add: example_symbols_def example_image_def frame_paddr_def)
  have f: "gpr loader_cpu EAX = MULTIBOOT_BOOTLOADER_MAGIC" "CR0 loader_cpu = 0x11" "pmem loader_cpu = (\<lambda>_ _. 0)"
    "allocate loader_cpu = allocate boot_machine" "pframe loader_cpu = pframe boot_machine" "timer_events loader_cpu = timer_events boot_machine"
    "IRQ_disable_counter loader_cpu = IRQ_disable_counter boot_machine"
    "postpone_task_switches_counter loader_cpu = postpone_task_switches_counter boot_machine"
    "task_switches_postponed_flag loader_cpu = task_switches_postponed_flag boot_machine"
    by (simp_all add: loader_cpu_def machine.defs cpu.defs)
  have "\<not> bit (0x11 :: u32) 31" "(0x110 :: 20 word) \<noteq> 0x111" by simp_all
  with r syms show ?thesis unfolding loader_ready_def Let_def f by blast
qed

text \<open>Witness of C34.\<close>

theorem start_enters_kernel_witness:
  "\<exists>u g. start example_symbols (retK ()) no_calls loader_cpu = bindK (run no_calls Kernel_main u) (\<lambda>_ v. halt_loop (retK ()) (v\<lparr>gpr := g, irq_enabled := False\<rparr>))
     \<and> stack_word 8 u = 0xC0010000 \<and> bit (CR0 u) 31
     \<and> mmu_walk u 0xC0101000 = Some \<lparr>x_frame = 0x101, x_write = True, x_user = False\<rparr>
     \<and> mmu_walk u 0xC03FF000 = Some \<lparr>x_frame = 0xB8, x_write = True, x_user = False\<rparr> \<and> mmu_walk u 0x400000 = None"
proof -
  obtain u g where u: "start example_symbols (retK ()) no_calls loader_cpu = bindK (run no_calls Kernel_main u) (\<lambda>_ v. halt_loop (retK ()) (v\<lparr>gpr := g, irq_enabled := False\<rparr>))"
      "stack_word 8 u = gpr loader_cpu EBX + 0xC0000000" "bit (CR0 u) 31"
      "\<forall>v. mmu_walk u v = (if PDX v = 0 \<or> PDX v = 768
        then Some \<lparr>x_frame = if PTX v = 1023 then 0xB8 else ucast (PTX v), x_write = True, x_user = False\<rparr> else None)"
    using start_enters_kernel [OF loader_cpu_ready, of "retK ()" no_calls] by blast
  have "gpr loader_cpu EBX = 0x10000" by (simp add: loader_cpu_def machine.defs cpu.defs)
  with u show ?thesis by (intro exI [of _ u] exI [of _ g]) (simp add: PDX_def PTX_def)
qed


end
