(* ===== verification/Spec2Isabelle.thy ===== *)
theory Spec2Isabelle
  imports Boot
begin

text \<open>
  ChoOS is a small i386 kernel in C with its own C library. This development models the kernel from its entry point to its
  first tasks: boot code and interrupt stubs in assembly, memory management, scheduling, interrupts, terminal and keyboard, and the library's string and
  formatting functions, as functions on an explicit machine state, and proves what makes them
  correct, as well as where they are not.

  \<^bold>\<open>The program.\<close> \<open>_start\<close> (\<open>boot.S\<close>) builds the boot page tables, enters the higher half and calls \<open>kernel_main\<close> (\<open>kernel/kernel.c\<close>), which brings up, in
  this order, the VGA terminal, the segment and interrupt descriptor tables, paging with the frame
  allocator, the heap, the timer, multitasking and the keyboard; it then runs its tests, makes two demonstration tasks and gives them the CPU until
  they have ended. From then on the parts interact
  through calls and through two interrupts, which reach their handlers through the stubs of \<open>interrupts.S\<close>: IRQ 0 counts a tick and runs the timer events, one of
  which wakes sleeping tasks; IRQ 1 prints the key pressed. The heap takes pages from the frame
  allocator through the virtual memory manager; tasks and timer events are allocated on the
  heap; the heap and the task lists are guarded by the scheduler's lock, a pair of counters with interrupts off.

  \<^bold>\<open>The state.\<close> Each component's globals are a record that extends the one of the component it needs:
  \<open>pmm\<close> (frame bitmap and page cache), \<open>vmm\<close> (page-table memory, CR3, TLB), \<open>sched\<close> (lock counters, task
  queues, task control blocks), \<open>heap\<close> (bytes of memory, break), \<open>kernel\<close> (interrupt tables, port writes),
  \<open>timer\<close>, \<open>tty\<close>, \<open>keyboard\<close>, \<open>machine\<close> (segment registers), \<open>cpu\<close> (general registers, instruction pointer, flags, CR0, CR2). An operation takes the record scheme, so that it
  applies to every extension and its frame is visible. Machine integers are words of their width.

  \<^bold>\<open>Results.\<close> An operation that can abort, or that gives control to another task, returns a value of \<open>kres\<close>:
  \<open>Ret\<close> a result and a state, \<open>Panic\<close> for a call of \<open>abort\<close> or a page fault, \<open>Switched\<close> when \<open>_switch_to_task\<close> has loaded
  another task. Loops are structural recursion, functions with a termination proof, or, where the
  code's loop may run for ever (a search through a list in memory, a string without an end, a loop around \<open>hlt\<close>),
  \<open>partial_function (option)\<close>, where \<open>None\<close> means that the loop does not end. No definition uses fuel, and the
  properties state that the operations return; of \<open>abort\<close> itself it is proved that it does not.

  \<^bold>\<open>Memory.\<close> \<open>mem\<close> holds the bytes that pointers of the program read and write, by virtual address: heap headers
  and blocks, strings, stacks and the cells of the VGA buffer. \<open>pmem\<close> holds the words of page tables, by
  physical frame; the virtual memory manager reaches them through the page walk, so a wrong recursive entry would
  fault or change the wrong table, and so does the boot code before paging is on. Task control blocks and timer events are typed stores indexed
  by their address, and the code proves only through the heap that these addresses are apart. The two memories
  are separate in the model. The program itself makes them overlap, by
  handing the frames of its page tables to the heap (\<open>Kernel_Main\<close> ends with the proof): the header that \<open>heap_init\<close> writes, the first control block and the first
  event may lie in the page directory. So what is proved of the kernel's start says nothing of the directory's first 20 entries, shows that nothing else of the heap but its last
  header has been written, and holds whatever those entries contain; what is proved of the heap, the break and the virtual memory manager elsewhere assumes page
  tables that are intact. Function pointers are addresses, and the code at an address is an
  argument \<open>call\<close>; so are the addresses of linker symbols, string literals and stack frames,
  and the bytes that \<open>inb\<close> reads.

  \<^bold>\<open>The theories\<close>, with the files under \<open>src/kernel/arch/i386\<close> and \<open>src/libc\<close> that they model:

  \<^item> \<open>Prelude\<close>: word arithmetic, chains of pointers, the result type and its bind.
  \<^item> \<open>Pmm\<close>, \<open>Pmm_Init\<close> (\<open>paging/internal.c\<close>, \<open>paging/allocators.c\<close>, \<open>pmm_frames_init\<close> of \<open>paging/paging.c\<close>): bitmap, frame and page allocation,
    and the set-up from the multiboot memory map. Pages handed out are distinct (locale \<open>frame_allocator\<close>); after the set-up a frame is free exactly when the map, read with
    its 64-bit addresses and lengths, and the kernel image allow it.
  \<^item> \<open>Vmm\<close> (\<open>memory_manager/vmm.c\<close>, \<open>vmm.h\<close>, \<open>tlb_flush.S\<close>): mapping and unmapping through the recursive window, against the abstract
    address space that the page walk defines, with a coherent TLB (locale \<open>address_map\<close>).
  \<^item> \<open>Paging_Init\<close> (\<open>pmm_directory_init\<close>, \<open>load_page_directory.S\<close>): the first directory, from the tables of \<open>boot.S\<close>.
  \<^item> \<open>Brk\<close>, \<open>Heap\<close>, \<open>Heap_Client\<close> (\<open>memory_manager/brk.c\<close>, \<open>heap.c\<close>, \<open>internal.c\<close>, \<open>allocators.c\<close>): the break and the allocator on bytes, refining first fit with
    splitting and merging on a list of blocks; the locale \<open>allocator\<close> is the interface that the clients use.
  \<^item> \<open>Scheduler\<close>, \<open>Tasks\<close>, \<open>Kernel_Tasks\<close> (\<open>scheduler/*.c\<close>, \<open>switch_to_task.S\<close>, \<open>forge_kernel_stack.S\<close>): the lock, the ready queue, blocking,
    sleeping, ending, creating and freeing tasks. The lock is an inductive step relation with an invariant on the counters and the interrupt flag; the ready queue is served in turn;
    creating a task fails only when its control block and its stack do not both fit in the heap's free blocks.
  \<^item> \<open>Interrupts\<close>, \<open>Timer\<close>, \<open>Keyboard\<close>, \<open>Gdt\<close> (\<open>interrupts/*.c\<close>, \<open>gdt/gdt.c\<close>, \<open>gdt_flush.S\<close>, \<open>tss_flush.S\<close>, \<open>_idt_flush\<close> of \<open>interrupts.S\<close>): the descriptor tables read back as
    the processor reads them, interrupt dispatch, timer events, the two layout tables, and typing from the handler to the screen.
  \<^item> \<open>Libc_String\<close> (\<open>string/*.c\<close>), \<open>Libc_Number\<close> (\<open>stdio/internal.c\<close>), \<open>Libc_Stdio\<close> (\<open>stdio/*.c\<close>): byte loops with exact frames (locale \<open>byte_copy\<close>); numbers that
    read back; \<open>vprintf\<close> against a rendering function, the locale \<open>number_writer\<close> being what it needs of a conversion.
  \<^item> \<open>Tty\<close> (\<open>tty.c\<close>, \<open>vga.h\<close>), \<open>Debug_Log\<close> (\<open>utils.c\<close>, \<open>stdlib/abort.c\<close>, \<open>ssp.h\<close>): the screen shows the text written to it, wrapped and scrolled; \<open>abort\<close> shows its
    message and stays in \<open>hlt\<close> with interrupts off.
  \<^item> \<open>Kernel_Main\<close>, \<open>Main_Loop\<close> (\<open>kernel/kernel.c\<close>): the initialisation in its order; then the tests, the demonstration tasks and the loop that
    gives them the CPU. What the tests do, and what happens until a \<open>hlt\<close> ends, are arguments.
  \<^item> \<open>Assembly\<close> (\<open>load_page_directory.S\<close>, \<open>enable_paging.S\<close>, \<open>read_cr3.S\<close>, \<open>tlb_flush.S\<close>, \<open>forge_kernel_stack.S\<close>): the instructions that the assembly files use, executed
    one by one, and the routines called from C, which do what the definitions used by the C code say.
  \<^item> \<open>Interrupt_Stubs\<close> (\<open>interrupts.S\<close>): taking an interrupt, the stub of every vector and the two common stubs. A line's interrupt is
    transparent to the code it interrupts, an exception ends in its message, a key goes from the interrupt to the screen and back.
  \<^item> \<open>Boot\<close> (\<open>boot.S\<close>): from the state the loader leaves through \<open>_start\<close> into \<open>kernel_main\<close> and to its first task.

  \<^bold>\<open>Hypotheses and bounds.\<close> \<open>heap_room k\<close> asks that the break stays below the recursive window at \<open>0xFFC00000\<close> by \<open>k\<close> bytes and a page, \<open>lock_ok\<close>
  that the lock counters do not wrap, \<open>frame_ok\<close> and \<open>safe\<close> that the frame of a call of \<open>printf\<close> does not overlap the screen or its
  arguments, \<open>abs_allocs\<close> that requests of given sizes fit one after the other in the heap's free blocks, \<open>frame_kept\<close> that a handler leaves the words alone that its stub has pushed,
  \<open>loader_ready\<close> what the multiboot loader and the linker promise, \<open>region_ok\<close> that a region of the memory map that begins below 4 GB ends there. A call of C code from assembly keeps the registers
  that the calling convention names; what it leaves in the others is an argument. The witnesses show states in which the hypotheses hold.

  \<^bold>\<open>Not modelled.\<close> The calls of the debug logger inside other functions: the models of \<open>tty_init\<close>, \<open>kmalloc\<close> and the rest are those of a build without \<open>DEBUG\<close>, with \<open>DEBUG\<close> these functions
  also print. The self-tests of \<open>kernel/test.c\<close>, two of which
  write through two virtual addresses of one frame, which \<open>mem\<close> does not relate. Interrupts between two steps of an operation that runs unlocked, and interrupts taken in user
  mode, which the kernel never enters. The saved stack pointer of a task that is switched out, in whose place there is a label of where it goes on. \<open>crti.S\<close> and \<open>crtn.S\<close>, which are
  glue of the compiler, the build files, and the unused parts of \<open>multiboot.h\<close>.
\<close>

end
